(* ===== verification/Prelude.thy ===== *)
theory Prelude
  imports Main "HOL-Library.Word" "HOL-Library.Sublist"
begin

unbundle bit_operations_syntax

text \<open>
  The vocabulary the component theories share: the machine types of the Go sources, the
  conversions Go writes as \<^verbatim>\<open>byte(v>>k)\<close> and \<^verbatim>\<open>uint64(b)<<k\<close>, decimal and hexadecimal
  printing (\<^verbatim>\<open>%d\<close>, \<^verbatim>\<open>%x\<close>, \<^verbatim>\<open>%X\<close> of package fmt), substring search
  (\<^verbatim>\<open>strings.Contains\<close>), and the lemma collections \<open>bytes\<close> and \<open>go_simps\<close> that the
  component proofs pass to the simplifier.

  Go's \<^verbatim>\<open>int\<close> is a 64-bit integer; every \<^verbatim>\<open>int\<close> of the modelled code is the length of
  a slice in memory or a sum of such lengths, and is modelled by \<open>nat\<close> or \<open>int\<close>. Integers
  whose width matters (the uint64 credits of the send limits, the uint32 settings, the int32
  flow-control windows, the bytes on the wire) are words.
\<close>

section \<open>Types\<close>

type_synonym byte = "8 word"
type_synonym u8 = "8 word"
type_synonym u16 = "16 word"
type_synonym u32 = "32 word"
type_synonym u64 = "64 word"
type_synonym bytes = "byte list"

named_theorems bytes "bit-level facts about splitting words into bytes and joining them"
named_theorems go_simps "defining equations the component proofs unfold"

section \<open>Bytes of a word\<close>

definition byte_at :: "nat \<Rightarrow> 'a::len word \<Rightarrow> byte" where
  "byte_at k v = ucast (drop_bit k v)"

definition at_byte :: "nat \<Rightarrow> byte \<Rightarrow> 'a::len word" where
  "at_byte k b = push_bit k (ucast b)"

lemma bit_byte_at [bytes]: "bit (byte_at k v) n \<longleftrightarrow> n < 8 \<and> bit v (k + n)"
  by (auto simp: byte_at_def bit_simps)

lemma bit_at_byte:
  "bit (at_byte k b :: 'a::len word) n \<longleftrightarrow> k \<le> n \<and> n < LENGTH('a) \<and> bit b (n - k)"
  by (auto simp: at_byte_def bit_simps)

lemma bit_at_byte_byte_at [bytes]:
  "bit (at_byte k (byte_at k v) :: 'a::len word) n \<longleftrightarrow>
     k \<le> n \<and> n < k + 8 \<and> n < LENGTH('a) \<and> bit v n"
  by (auto simp: bit_byte_at bit_at_byte)

lemma bit_lt_exp:
  fixes v :: "'a::len word"
  assumes "unat v < 2 ^ k" and "bit v n"
  shows "n < k"
proof (rule ccontr)
  assume "\<not> n < k"
  then have "(2::nat) ^ k \<le> 2 ^ n" by simp
  with assms(1) have "unat v < 2 ^ n" by (rule less_le_trans)
  then have "unat v div 2 ^ n = 0" by (rule div_less)
  then have "\<not> bit (unat v) n" by (simp add: bit_iff_odd)
  with assms(2) show False by (simp add: bit_unsigned_iff)
qed

lemma exp_gt_bits:
  fixes v :: "'a::len word"
  assumes "\<And>n. bit v n \<Longrightarrow> n < k"
  shows "unat v < 2 ^ k"
proof -
  have "take_bit k v = v"
    by (rule bit_word_eqI) (auto simp: bit_take_bit_iff dest: assms)
  then have "unat v = take_bit k (unat v)"
    by (metis unsigned_take_bit_eq)
  then show ?thesis by (metis take_bit_nat_less_exp)
qed

lemma join_bytes_u16 [simp]:
  "(at_byte 8 (byte_at 8 v) OR at_byte 0 (byte_at 0 v) :: u16) = v"
  by (rule bit_word_eqI) (auto simp: bit_or_iff bytes)

lemma join_bytes_u32 [simp]:
  "(at_byte 24 (byte_at 24 v) OR at_byte 16 (byte_at 16 v) OR
    at_byte 8 (byte_at 8 v) OR at_byte 0 (byte_at 0 v) :: u32) = v"
  by (rule bit_word_eqI) (auto simp: bit_or_iff bytes)

lemma join_bytes_u64 [simp]:
  "(at_byte 56 (byte_at 56 v) OR at_byte 48 (byte_at 48 v) OR at_byte 40 (byte_at 40 v) OR
    at_byte 32 (byte_at 32 v) OR at_byte 24 (byte_at 24 v) OR at_byte 16 (byte_at 16 v) OR
    at_byte 8 (byte_at 8 v) OR at_byte 0 (byte_at 0 v) :: u64) = v"
  by (rule bit_word_eqI) (auto simp: bit_or_iff bytes)

lemma unat_byte_at: "unat (byte_at k (v :: 'a::len word)) = (unat v div 2 ^ k) mod 256"
  by (simp add: byte_at_def unsigned_ucast_eq unat_drop_bit_eq take_bit_eq_mod
      flip: drop_bit_eq_div)

lemma unat_byte_at_lt:
  fixes v :: "'a::len word"
  assumes "unat v < 2 ^ (k + j)"
  shows "unat (byte_at k v) < 2 ^ j"
proof -
  have "unat (byte_at k v) \<le> unat v div 2 ^ k" by (simp add: unat_byte_at)
  also have "\<dots> < 2 ^ j"
    using assms by (simp add: less_mult_imp_div_less power_add mult.commute)
  finally show ?thesis .
qed

text \<open>\<^verbatim>\<open>binary.BigEndian.PutUint32\<close> and \<^verbatim>\<open>binary.BigEndian.Uint32\<close>; the slice passed to
  the latter has at least four bytes wherever it is called.\<close>

definition be_put32 :: "u32 \<Rightarrow> bytes" where
  "be_put32 v = [byte_at 24 v, byte_at 16 v, byte_at 8 v, byte_at 0 v]"

definition be_get32 :: "bytes \<Rightarrow> u32" where
  "be_get32 b =
     at_byte 24 (b ! 0) OR at_byte 16 (b ! 1) OR at_byte 8 (b ! 2) OR at_byte 0 (b ! 3)"

definition be_put16 :: "u16 \<Rightarrow> bytes" where
  "be_put16 v = [byte_at 8 v, byte_at 0 v]"

definition be_get16 :: "bytes \<Rightarrow> u16" where
  "be_get16 b = at_byte 8 (b ! 0) OR at_byte 0 (b ! 1)"

lemma length_be_put32 [simp]: "length (be_put32 v) = 4"
  by (simp add: be_put32_def)

lemma length_be_put16 [simp]: "length (be_put16 v) = 2"
  by (simp add: be_put16_def)

lemma be_get32_put32 [simp]: "be_get32 (be_put32 v @ rest) = v"
  by (simp add: be_get32_def be_put32_def)

lemma be_get16_put16 [simp]: "be_get16 (be_put16 v @ rest) = v"
  by (simp add: be_get16_def be_put16_def)

section \<open>Printing numbers\<close>

text \<open>\<open>digits base n\<close> are the digits of \<open>n\<close>, most significant first, at least one.\<close>

fun digits :: "nat \<Rightarrow> nat \<Rightarrow> nat list" where
  "digits base n =
     (if base < 2 \<or> n < base then [n] else digits base (n div base) @ [n mod base])"

declare digits.simps [simp del]

definition lower_digit :: "nat \<Rightarrow> char" where
  "lower_digit d = ''0123456789abcdef'' ! d"

definition upper_digit :: "nat \<Rightarrow> char" where
  "upper_digit = (!) ''0123456789ABCDEF''"

text \<open>\<^verbatim>\<open>%d\<close>, \<^verbatim>\<open>%x\<close> and \<^verbatim>\<open>%X\<close> of an unsigned number.\<close>

definition fmt_d :: "nat \<Rightarrow> string" where
  "fmt_d n = map lower_digit (digits 10 n)"

definition fmt_x :: "nat \<Rightarrow> string" where
  "fmt_x n = map lower_digit (digits 16 n)"

definition fmt_X :: "nat \<Rightarrow> string" where
  "fmt_X n = map upper_digit (digits 16 n)"

lemma digits_lt: "2 \<le> base \<Longrightarrow> d \<in> set (digits base n) \<Longrightarrow> d < base"
proof (induction base n rule: digits.induct)
  case (1 base n)
  show ?case
  proof (cases "n < base")
    case True
    with 1 show ?thesis by (simp add: digits.simps [of base n])
  next
    case False
    with 1 show ?thesis by (auto simp: digits.simps [of base n])
  qed
qed

lemma digits_nonempty [simp]: "digits base n \<noteq> []"
  by (subst digits.simps) simp

text \<open>Printing is injective: the digits determine the number.\<close>

definition undigits :: "nat \<Rightarrow> nat list \<Rightarrow> nat" where
  "undigits base ds = foldl (\<lambda>a d. base * a + d) 0 ds"

lemma undigits_digits: "undigits base (digits base n) = n"
proof (induction base n rule: digits.induct)
  case (1 base n)
  show ?case
  proof (cases "base < 2 \<or> n < base")
    case True
    then show ?thesis by (subst digits.simps) (simp add: undigits_def)
  next
    case False
    with 1 show ?thesis by (subst digits.simps) (simp add: undigits_def mult.commute)
  qed
qed

lemma digits_inj: "digits base m = digits base n \<Longrightarrow> m = n"
  by (metis undigits_digits)

lemma distinct_nth_inj_on: "distinct xs \<Longrightarrow> inj_on ((!) xs) {..<length xs}"
  by (auto simp: inj_on_def nth_eq_iff_index_eq)

lemma map_digits_inj:
  assumes "inj_on f {..<base}" and "2 \<le> base"
    and eq: "map f (digits base m) = map f (digits base n)"
  shows "m = n"
proof -
  have "set (digits base m) \<union> set (digits base n) \<subseteq> {..<base}"
    using digits_lt [OF assms(2)] by auto
  with assms(1) have "inj_on f (set (digits base m) \<union> set (digits base n))"
    by (rule inj_on_subset)
  then have "digits base m = digits base n"
    using eq by (simp only: inj_on_map_eq_map)
  then show ?thesis by (rule digits_inj)
qed

lemma fmt_X_inj: "fmt_X m = fmt_X n \<Longrightarrow> m = n"
proof -
  assume eq: "fmt_X m = fmt_X n"
  have len: "length ''0123456789ABCDEF'' = 16" by simp
  have "distinct ''0123456789ABCDEF''" by simp
  then have "inj_on upper_digit {..<16}"
    unfolding upper_digit_def using distinct_nth_inj_on len by metis
  then show "m = n"
    by (rule map_digits_inj) (use eq in \<open>simp_all add: fmt_X_def\<close>)
qed

lemma nth_in_set: "d < length xs \<Longrightarrow> xs ! d \<in> set xs"
  by (rule nth_mem)

lemma map_digits_subset:
  assumes "2 \<le> base" and "\<And>d. d < base \<Longrightarrow> f d \<in> S"
  shows "set (map f (digits base n)) \<subseteq> S"
  using assms digits_lt by auto

lemma set_fmt_x: "set (fmt_x n) \<subseteq> set ''0123456789abcdef''"
  unfolding fmt_x_def lower_digit_def
  by (rule map_digits_subset) (simp, rule nth_in_set, simp)

lemma set_fmt_d: "set (fmt_d n) \<subseteq> set ''0123456789''"
proof -
  have "lower_digit d \<in> set ''0123456789''" if "d < 10" for d
  proof -
    have "lower_digit d = ''0123456789'' ! d"
      using that by (simp add: lower_digit_def nth_append [of "''0123456789''" "''abcdef''", simplified])
    then show ?thesis using that by (simp only: nth_in_set length_Cons list.size)
  qed
  then show ?thesis unfolding fmt_d_def by (intro map_digits_subset) simp_all
qed

section \<open>Substrings\<close>

text \<open>\<^verbatim>\<open>strings.Contains(s, sub)\<close>.\<close>

fun strings_Contains :: "string \<Rightarrow> string \<Rightarrow> bool" where
  "strings_Contains [] sub = (sub = [])"
| "strings_Contains (c # s) sub = (prefix sub (c # s) \<or> strings_Contains s sub)"

lemma strings_Contains_iff: "strings_Contains s sub \<longleftrightarrow> (\<exists>pre post. s = pre @ sub @ post)"
proof (induction s)
  case Nil
  show ?case by auto
next
  case (Cons c s)
  have "(\<exists>pre post. c # s = pre @ sub @ post) \<longleftrightarrow>
        prefix sub (c # s) \<or> (\<exists>pre post. s = pre @ sub @ post)"
    by (metis (no_types, lifting) append_Cons append_Nil list.exhaust list.inject prefix_def)
  with Cons.IH show ?case by simp
qed

lemma strings_Contains_set: "strings_Contains s sub \<Longrightarrow> set sub \<subseteq> set s"
  by (auto simp: strings_Contains_iff)

text \<open>A separator that does not occur in the pattern splits the search.\<close>

lemma strings_Contains_sep:
  assumes "c \<notin> set sub"
  shows "strings_Contains (xs @ c # ys) sub \<longleftrightarrow>
         strings_Contains xs sub \<or> strings_Contains ys sub"
proof
  assume "strings_Contains (xs @ c # ys) sub"
  then obtain pre post where eq: "xs @ c # ys = pre @ sub @ post"
    by (auto simp: strings_Contains_iff)
  then obtain us where
    "xs = pre @ us \<and> us @ c # ys = sub @ post \<or> xs @ us = pre \<and> c # ys = us @ sub @ post"
    by (auto simp: append_eq_append_conv2)
  then show "strings_Contains xs sub \<or> strings_Contains ys sub"
  proof (elim disjE conjE)
    assume xs: "xs = pre @ us" and us: "us @ c # ys = sub @ post"
    then obtain vs where
      "us = sub @ vs \<and> vs @ c # ys = post \<or> us @ vs = sub \<and> c # ys = vs @ post"
      by (auto simp: append_eq_append_conv2)
    with xs assms have "us = sub @ vs"
      by (cases vs) auto
    with xs have "xs = pre @ sub @ vs" by simp
    then show ?thesis by (metis strings_Contains_iff)
  next
    assume "c # ys = us @ sub @ post"
    with assms show ?thesis
      by (cases us; cases sub) (auto simp: strings_Contains_iff)
  qed
next
  assume "strings_Contains xs sub \<or> strings_Contains ys sub"
  then show "strings_Contains (xs @ c # ys) sub"
  proof
    assume "strings_Contains xs sub"
    then obtain pre post where "xs = pre @ sub @ post" by (auto simp: strings_Contains_iff)
    then have "xs @ c # ys = pre @ sub @ (post @ c # ys)" by simp
    then show ?thesis by (metis strings_Contains_iff)
  next
    assume "strings_Contains ys sub"
    then obtain pre post where "ys = pre @ sub @ post" by (auto simp: strings_Contains_iff)
    then have "xs @ c # ys = (xs @ c # pre) @ sub @ post" by simp
    then show ?thesis by (metis strings_Contains_iff)
  qed
qed

lemma strings_Contains_append_left:
  assumes "strings_Contains ys sub"
  shows "strings_Contains (xs @ ys) sub"
proof -
  from assms obtain pre post where "ys = pre @ sub @ post" by (auto simp: strings_Contains_iff)
  then have "xs @ ys = (xs @ pre) @ sub @ post" by simp
  then show ?thesis by (metis strings_Contains_iff)
qed

lemma strings_Contains_append_right:
  assumes "strings_Contains xs sub"
  shows "strings_Contains (xs @ ys) sub"
proof -
  from assms obtain pre post where "xs = pre @ sub @ post" by (auto simp: strings_Contains_iff)
  then have "xs @ ys = pre @ sub @ (post @ ys)" by simp
  then show ?thesis by (metis strings_Contains_iff)
qed

section \<open>Words and numbers\<close>

lemma unat_of_nat_u64 [simp]: "n < 2 ^ 64 \<Longrightarrow> unat (of_nat n :: u64) = n"
  by (simp add: unat_of_nat take_bit_nat_eq_self)

lemma unat_add_no_wrap:
  fixes a b :: "'a::len word"
  assumes "unat a + unat b < 2 ^ LENGTH('a)"
  shows "unat (a + b) = unat a + unat b"
  using assms by (simp add: unat_word_ariths)

lemma unat_diff_le:
  fixes a b :: "'a::len word"
  assumes "b \<le> a"
  shows "unat (a - b) = unat a - unat b"
  using assms by (simp add: unat_sub)

section \<open>Strings as bytes\<close>

text \<open>A Go string is a sequence of bytes.\<close>

definition go_bytes :: "string \<Rightarrow> bytes" where
  "go_bytes cs = map (\<lambda>c. of_nat (of_char c)) cs"

definition go_string :: "bytes \<Rightarrow> string" where
  "go_string bs = map (\<lambda>b. char_of (unat b)) bs"

lemma length_go_bytes [simp]: "length (go_bytes cs) = length cs"
  by (simp add: go_bytes_def)

lemma length_go_string [simp]: "length (go_string bs) = length bs"
  by (simp add: go_string_def)

lemma unat_of_char [simp]: "unat (of_nat (of_char c) :: byte) = (of_char c :: nat)"
  using nat_of_char_less_256 [of c] by (simp add: unat_of_nat take_bit_nat_eq_self del: nat_of_char_less_256)

lemma go_string_bytes [simp]: "go_string (go_bytes cs) = cs"
  by (induction cs) (simp_all add: go_string_def go_bytes_def unat_of_char)

end
