(* ===== verification/Go_Errors.thy ===== *)
theory Go_Errors
  imports Prelude
begin

text \<open>
  The error values of the program as one datatype, their texts (the \<^verbatim>\<open>Error\<close> methods), the
  chain walks \<^verbatim>\<open>errors.Is\<close> and \<^verbatim>\<open>errors.As\<close>, and \<^verbatim>\<open>isCleanConnectTeardown\<close> of
  session.go, which decides from an error value or its text whether the CONNECT stream ended
  normally. The HTTP/2 error codes and their names are those of the forked
  third\_party/net/http2/errors.go, whose stream errors are what the read loop of a session
  sees when the peer resets the CONNECT stream.
\<close>

section \<open>HTTP/2 error codes\<close>

type_synonym ErrCode = u32

definition ErrCodeNo :: ErrCode where "ErrCodeNo = 0x0"
definition ErrCodeProtocol :: ErrCode where "ErrCodeProtocol = 0x1"
definition ErrCodeInternal :: ErrCode where "ErrCodeInternal = 0x2"
definition ErrCodeFlowControl :: ErrCode where "ErrCodeFlowControl = 0x3"
definition ErrCodeStreamClosed :: ErrCode where "ErrCodeStreamClosed = 0x5"
definition ErrCodeFrameSize :: ErrCode where "ErrCodeFrameSize = 0x6"
definition ErrCodeEnhanceYourCalm :: ErrCode where "ErrCodeEnhanceYourCalm = 0xb"

definition errCodeName :: "(ErrCode \<times> string) list" where
  "errCodeName =
    [(0x0, ''NO_ERROR''),
     (0x1, ''PROTOCOL_ERROR''),
     (0x2, ''INTERNAL_ERROR''),
     (0x3, ''FLOW_CONTROL_ERROR''),
     (0x4, ''SETTINGS_TIMEOUT''),
     (0x5, ''STREAM_CLOSED''),
     (0x6, ''FRAME_SIZE_ERROR''),
     (0x7, ''REFUSED_STREAM''),
     (0x8, ''CANCEL''),
     (0x9, ''COMPRESSION_ERROR''),
     (0xa, ''CONNECT_ERROR''),
     (0xb, ''ENHANCE_YOUR_CALM''),
     (0xc, ''INADEQUATE_SECURITY''),
     (0xd, ''HTTP_1_1_REQUIRED'')]"

definition ErrCode_String :: "ErrCode \<Rightarrow> string" where
  "ErrCode_String e =
     (case map_of errCodeName e of
        Some s \<Rightarrow> s
      | None \<Rightarrow> ''unknown error code 0x'' @ fmt_x (unat e))"

definition ErrCode_stringToken :: "ErrCode \<Rightarrow> string" where
  "ErrCode_stringToken e =
     (case map_of errCodeName e of
        Some s \<Rightarrow> s
      | None \<Rightarrow> ''ERR_UNKNOWN_'' @ fmt_d (unat e))"

section \<open>Error values\<close>

text \<open>
  \<open>ErrorsNew m\<close> is an \<^verbatim>\<open>errors.New\<close> or \<^verbatim>\<open>fmt.Errorf\<close> without \<^verbatim>\<open>%w\<close>; \<open>Errorf pre e post\<close> is
  \<^verbatim>\<open>fmt.Errorf\<close> that wraps \<open>e\<close> with \<^verbatim>\<open>%w\<close> between two texts. \<open>H2StreamError\<close> and
  \<open>H2ConnectionError\<close> are StreamError and ConnectionError of the HTTP/2 fork, \<open>BatonCode\<close> is
  errCode of internal/baton.
\<close>

datatype go_err =
    EOF
  | ErrUnexpectedEOF
  | ErrClosedPipe
  | ErrShortWrite
  | ContextCanceled
  | ContextDeadlineExceeded
  | ErrSessionClosed
  | ErrSendLimit
  | ErrStreamReceiveBufferFull
  | FlowControlError string
  | SessionCloseError u32 string bool
  | H2ConnectionError ErrCode
  | H2StreamError u32 ErrCode "go_err option"
  | BatonCode u32
  | ErrorsNew string
  | Errorf string go_err string

definition SessionCloseError_Error :: "u32 \<Rightarrow> string \<Rightarrow> string" where
  "SessionCloseError_Error code message =
     (if message = '''' then ''session closed with application error 0x'' @ fmt_x (unat code)
      else ''session closed with application error 0x'' @ fmt_x (unat code) @ '': '' @ message)"

definition errCode_Error :: "u32 \<Rightarrow> string" where
  "errCode_Error e =
     (if e = 0x01 then ''DA_YAMN''
      else if e = 0x02 then ''BRUH''
      else if e = 0x03 then ''SUS''
      else if e = 0x04 then ''BORED''
      else ''session error 0x'' @ fmt_x (unat e))"

fun Error :: "go_err \<Rightarrow> string" where
  "Error EOF = ''EOF''"
| "Error ErrUnexpectedEOF = ''unexpected EOF''"
| "Error ErrClosedPipe = ''io: read/write on closed pipe''"
| "Error ErrShortWrite = ''short write''"
| "Error ContextCanceled = ''context canceled''"
| "Error ContextDeadlineExceeded = ''context deadline exceeded''"
| "Error ErrSessionClosed = ''session closed''"
| "Error ErrSendLimit = ''peer send limit exhausted''"
| "Error ErrStreamReceiveBufferFull = ''stream receive buffer full''"
| "Error (FlowControlError reason) = ''webtransport flow control error: '' @ reason"
| "Error (SessionCloseError code message remote) = SessionCloseError_Error code message"
| "Error (H2ConnectionError code) = ''connection error: '' @ ErrCode_String code"
| "Error (H2StreamError sid code (Some cause)) =
     ''stream error: stream ID '' @ fmt_d (unat sid) @ ''; '' @ ErrCode_String code @
     ''; '' @ Error cause"
| "Error (H2StreamError sid code None) =
     ''stream error: stream ID '' @ fmt_d (unat sid) @ ''; '' @ ErrCode_String code"
| "Error (BatonCode e) = errCode_Error e"
| "Error (ErrorsNew m) = m"
| "Error (Errorf pre e post) = pre @ Error e @ post"

text \<open>\<^verbatim>\<open>errors.Is\<close>: the error or one it wraps is the target.\<close>

fun errors_Is :: "go_err \<Rightarrow> go_err \<Rightarrow> bool" where
  "errors_Is (Errorf pre e post) target =
     (Errorf pre e post = target \<or> errors_Is e target)"
| "errors_Is e target = (e = target)"

text \<open>\<^verbatim>\<open>flowControlError\<close> of flow.go: \<^verbatim>\<open>errors.As\<close> with target \<^verbatim>\<open>*FlowControlError\<close>.\<close>

fun flowControlError :: "go_err \<Rightarrow> go_err option" where
  "flowControlError (FlowControlError reason) = Some (FlowControlError reason)"
| "flowControlError (Errorf pre e post) = flowControlError e"
| "flowControlError e = None"

text \<open>\<^verbatim>\<open>isCleanConnectTeardown\<close> of session.go; the argument is non-nil.\<close>

definition isCleanConnectTeardown :: "go_err \<Rightarrow> bool" where
  "isCleanConnectTeardown err \<longleftrightarrow>
     (if errors_Is err EOF \<or> errors_Is err ErrUnexpectedEOF then True
      else strings_Contains (Error err) ''NO_ERROR'' \<and>
           strings_Contains (Error err) ''stream error:'')"

section \<open>When a teardown is clean\<close>

lemma stream_error_text:
  "strings_Contains (Error (H2StreamError sid code cause)) ''stream error:''"
proof -
  have "strings_Contains (''stream error:'' @ rest) ''stream error:''" for rest
    by (rule strings_Contains_append_right) simp
  then show ?thesis by (cases cause) auto
qed

lemma no_NO_ERROR_in_prefix:
  "\<not> strings_Contains (''stream error: stream ID '' @ fmt_d n @ '';'') ''NO_ERROR''"
proof
  assume "strings_Contains (''stream error: stream ID '' @ fmt_d n @ '';'') ''NO_ERROR''"
  then have "CHR ''_'' \<in> set (''stream error: stream ID '' @ fmt_d n @ '';'')"
    by (rule strings_Contains_set [THEN subsetD]) simp
  with set_fmt_d [of n] show False by auto
qed

lemma NO_ERROR_in_code_text:
  "strings_Contains (ErrCode_String code) ''NO_ERROR'' \<longleftrightarrow> code = ErrCodeNo"
proof (cases "map_of errCodeName code")
  case None
  have "\<not> strings_Contains (''unknown error code 0x'' @ fmt_x (unat code)) ''NO_ERROR''"
  proof
    assume "strings_Contains (''unknown error code 0x'' @ fmt_x (unat code)) ''NO_ERROR''"
    then have "CHR ''_'' \<in> set (''unknown error code 0x'' @ fmt_x (unat code))"
      by (rule strings_Contains_set [THEN subsetD]) simp
    with set_fmt_x [of "unat code"] show False by auto
  qed
  with None show ?thesis
    by (auto simp: ErrCode_String_def ErrCodeNo_def errCodeName_def split: if_splits)
next
  case (Some s)
  then show ?thesis
    by (auto simp: ErrCode_String_def ErrCodeNo_def errCodeName_def split: if_splits)
qed

lemma NO_ERROR_in_stream_error:
  "strings_Contains (Error (H2StreamError sid code None)) ''NO_ERROR'' \<longleftrightarrow> code = ErrCodeNo"
proof -
  have "Error (H2StreamError sid code None) =
      (''stream error: stream ID '' @ fmt_d (unat sid) @ '';'') @ CHR '' '' # ErrCode_String code"
    by simp
  then show ?thesis
    using strings_Contains_sep [of "CHR '' ''" "''NO_ERROR''"]
      no_NO_ERROR_in_prefix NO_ERROR_in_code_text
    by (simp del: append_assoc Error.simps)
qed

section \<open>Properties\<close>

text \<open>a reset of the CONNECT stream counts as a clean teardown exactly when it carries
  NO\_ERROR: the text match of isCleanConnectTeardown on the StreamError texts of the HTTP/2
  fork accepts code 0 for every stream and no other code, known or unknown.\<close>

theorem clean_teardown_iff_no_error:
  "isCleanConnectTeardown (H2StreamError sid code None) \<longleftrightarrow> code = ErrCodeNo"
  using stream_error_text [of sid code None] NO_ERROR_in_stream_error [of sid code]
  by (simp add: isCleanConnectTeardown_def del: Error.simps)

end
