(* ===== verification/Varint.thy ===== *)
theory Varint
  imports Go_Errors
begin

unbundle bit_operations_syntax

text \<open>
  QUIC variable-length integers. The sessions of this program encode and decode them with the
  package quicvarint of quic-go, which is not part of the repository: it enters the model as a
  record of operations, and the locale \<open>varint_codec\<close> states what the sessions rely on. The
  repository's own varint code, third\_party/net/internal/quic/quicwire, is modelled here
  function by function and shown to satisfy the interface.
\<close>

section \<open>The interface\<close>

text \<open>
  \<open>vappend v\<close> is \<^verbatim>\<open>quicvarint.Append(nil, v)\<close>, \<open>None\<close> its panic; \<open>vparse b\<close> is
  \<^verbatim>\<open>quicvarint.Parse(b)\<close>; \<open>vread b e\<close> is \<^verbatim>\<open>quicvarint.Read\<close> on a reader that yields the
  bytes \<open>b\<close> and then the error \<open>e\<close>, with the bytes it leaves unread.
\<close>

record varint_ops =
  vappend :: "u64 \<Rightarrow> bytes option"
  vparse :: "bytes \<Rightarrow> go_err + u64 \<times> nat"
  vread :: "bytes \<Rightarrow> go_err \<Rightarrow> go_err + u64 \<times> bytes"

locale varint_codec =
  fixes V :: varint_ops
  assumes append_small: "unat v < 2 ^ 62 \<Longrightarrow> \<exists>bs. vappend V v = Some bs"
    and append_large: "2 ^ 62 \<le> unat v \<Longrightarrow> vappend V v = None"
    and append_nonempty: "vappend V v = Some bs \<Longrightarrow> 1 \<le> length bs \<and> length bs \<le> 8"
    and parse_append: "vappend V v = Some bs \<Longrightarrow> vparse V (bs @ rest) = Inr (v, length bs)"
    and read_append: "vappend V v = Some bs \<Longrightarrow> vread V (bs @ rest) e = Inr (v, rest)"
    and parse_bounds: "vparse V b = Inr (v, n) \<Longrightarrow> 0 < n \<and> n \<le> length b \<and> unat v < 2 ^ 62"
    and read_bounds: "vread V b e = Inr (v, rest) \<Longrightarrow>
           length rest < length b \<and> suffix rest b \<and> unat v < 2 ^ 62"
begin

lemma append_Some_iff: "(\<exists>bs. vappend V v = Some bs) \<longleftrightarrow> unat v < 2 ^ 62"
  using append_small append_large by (metis linorder_not_less option.distinct(1))

lemma append_inj: "vappend V v = Some bs \<Longrightarrow> vappend V w = Some bs \<Longrightarrow> v = w"
  using parse_append [of v bs "[]"] parse_append [of w bs "[]"] by simp

text \<open>The code is prefix-free, so a sequence of encoded integers decodes in one way.\<close>

lemma append_prefix_free:
  assumes "vappend V v = Some bs" and "vappend V w = Some cs" and "bs @ xs = cs @ ys"
  shows "v = w \<and> bs = cs \<and> xs = ys"
proof -
  from parse_append [OF assms(1), of xs] parse_append [OF assms(2), of ys] assms(3)
  have "v = w" and "length bs = length cs" by auto
  with assms(3) show ?thesis by simp
qed

end

section \<open>quicwire\<close>

definition MaxVarintSize :: nat where "MaxVarintSize = 8"
definition MaxVarint :: u64 where "MaxVarint = 4611686018427387903"

definition ConsumeVarint :: "bytes \<Rightarrow> u64 \<times> int" where
  "ConsumeVarint b =
     (if length b < 1 then (0, -1)
      else
        let b0 = b ! 0 AND 0x3f; l = drop_bit 6 (b ! 0)
        in if l = 0 then (at_byte 0 b0, 1)
           else if l = 1 then
             (if length b < 2 then (0, -1)
              else (at_byte 8 b0 OR at_byte 0 (b ! 1), 2))
           else if l = 2 then
             (if length b < 4 then (0, -1)
              else (at_byte 24 b0 OR at_byte 16 (b ! 1) OR at_byte 8 (b ! 2) OR
                    at_byte 0 (b ! 3), 4))
           else if l = 3 then
             (if length b < 8 then (0, -1)
              else (at_byte 56 b0 OR at_byte 48 (b ! 1) OR at_byte 40 (b ! 2) OR
                    at_byte 32 (b ! 3) OR at_byte 24 (b ! 4) OR at_byte 16 (b ! 5) OR
                    at_byte 8 (b ! 6) OR at_byte 0 (b ! 7), 8))
           else (0, -1))"

definition ConsumeVarintInt64 :: "bytes \<Rightarrow> int \<times> int" where
  "ConsumeVarintInt64 b = (case ConsumeVarint b of (u, n) \<Rightarrow> (sint u, n))"

definition AppendVarint :: "bytes \<Rightarrow> u64 \<Rightarrow> bytes option" where
  "AppendVarint b v =
     (if v \<le> 63 then Some (b @ [byte_at 0 v])
      else if v \<le> 16383 then Some (b @ [0x40 OR byte_at 8 v, byte_at 0 v])
      else if v \<le> 1073741823 then
        Some (b @ [0x80 OR byte_at 24 v, byte_at 16 v, byte_at 8 v, byte_at 0 v])
      else if v \<le> 4611686018427387903 then
        Some (b @ [0xC0 OR byte_at 56 v, byte_at 48 v, byte_at 40 v, byte_at 32 v,
                   byte_at 24 v, byte_at 16 v, byte_at 8 v, byte_at 0 v])
      else None)"

definition SizeVarint :: "u64 \<Rightarrow> nat option" where
  "SizeVarint v =
     (if v \<le> 63 then Some 1
      else if v \<le> 16383 then Some 2
      else if v \<le> 1073741823 then Some 4
      else if v \<le> 4611686018427387903 then Some 8
      else None)"

definition ConsumeUint32 :: "bytes \<Rightarrow> u32 \<times> int" where
  "ConsumeUint32 b = (if length b < 4 then (0, -1) else (be_get32 b, 4))"

definition be_get64 :: "bytes \<Rightarrow> u64" where
  "be_get64 b =
     at_byte 56 (b ! 0) OR at_byte 48 (b ! 1) OR at_byte 40 (b ! 2) OR at_byte 32 (b ! 3) OR
     at_byte 24 (b ! 4) OR at_byte 16 (b ! 5) OR at_byte 8 (b ! 6) OR at_byte 0 (b ! 7)"

definition ConsumeUint64 :: "bytes \<Rightarrow> u64 \<times> int" where
  "ConsumeUint64 b = (if length b < 8 then (0, -1) else (be_get64 b, 8))"

definition ConsumeUint8Bytes :: "bytes \<Rightarrow> bytes \<times> int" where
  "ConsumeUint8Bytes b =
     (if length b < 1 then ([], -1)
      else
        let sz = unat (b ! 0)
        in if sz > length (drop 1 b) then ([], -1)
           else (take sz (drop 1 b), int sz + 1))"

definition AppendUint8Bytes :: "bytes \<Rightarrow> bytes \<Rightarrow> bytes option" where
  "AppendUint8Bytes b v =
     (if length v > 0xff then None else Some (b @ [of_nat (length v)] @ v))"

definition ConsumeVarintBytes :: "bytes \<Rightarrow> bytes \<times> int" where
  "ConsumeVarintBytes b =
     (case ConsumeVarint b of (sz, n) \<Rightarrow>
        if n < 0 then ([], -1)
        else if unat sz > length (drop (nat n) b) then ([], -1)
        else (take (unat sz) (drop (nat n) b), int (unat sz) + n))"

definition AppendVarintBytes :: "bytes \<Rightarrow> bytes \<Rightarrow> bytes option" where
  "AppendVarintBytes b v =
     (case AppendVarint b (of_nat (length v)) of None \<Rightarrow> None | Some b' \<Rightarrow> Some (b' @ v))"

section \<open>Decoding what was encoded\<close>

lemma tagged_byte:
  assumes "unat (x :: byte) < 64" and "unat (t :: byte) < 4"
  shows "drop_bit 6 (push_bit 6 t OR x) = t" and "(push_bit 6 t OR x) AND 0x3f = x"
proof -
  have x: "n < 6" if "bit x n" for n
    using bit_lt_exp [of x 6 n] assms(1) that by simp
  have t: "n < 2" if "bit t n" for n
    using bit_lt_exp [of t 2 n] assms(2) that by simp
  have m: "(0x3f :: byte) = mask 6" by (simp add: mask_eq_exp_minus_1)
  show "drop_bit 6 (push_bit 6 t OR x) = t"
    by (rule bit_word_eqI) (auto simp: bit_simps dest: x t)
  show "(push_bit 6 t OR x) AND 0x3f = x"
    unfolding m by (rule bit_word_eqI) (auto simp: bit_simps dest: x t)
qed

lemma varint_tags:
  "(0x40 :: byte) = push_bit 6 1" "(0x80 :: byte) = push_bit 6 2" "(0xC0 :: byte) = push_bit 6 3"
  by simp_all

lemma join_varint1: "unat v < 2 ^ 6 \<Longrightarrow> (at_byte 0 (byte_at 0 v) :: u64) = v"
  using bit_lt_exp [of v 6] by (intro bit_word_eqI) (fastforce simp: bytes)

lemma join_varint2:
  "unat v < 2 ^ 14 \<Longrightarrow> (at_byte 8 (byte_at 8 v) OR at_byte 0 (byte_at 0 v) :: u64) = v"
  using bit_lt_exp [of v 14] by (intro bit_word_eqI) (fastforce simp: bytes bit_or_iff)

lemma join_varint4:
  "unat v < 2 ^ 30 \<Longrightarrow>
   (at_byte 24 (byte_at 24 v) OR at_byte 16 (byte_at 16 v) OR
    at_byte 8 (byte_at 8 v) OR at_byte 0 (byte_at 0 v) :: u64) = v"
  using bit_lt_exp [of v 30] by (intro bit_word_eqI) (fastforce simp: bytes bit_or_iff)

lemma varint_classes:
  "(v :: u64) \<le> 63 \<longleftrightarrow> unat v < 2 ^ 6"
  "(v :: u64) \<le> 16383 \<longleftrightarrow> unat v < 2 ^ 14"
  "(v :: u64) \<le> 1073741823 \<longleftrightarrow> unat v < 2 ^ 30"
  "(v :: u64) \<le> 4611686018427387903 \<longleftrightarrow> unat v < 2 ^ 62"
  by (auto simp: word_le_nat_alt)

text \<open>The four shapes of an encoded integer.\<close>

lemma AppendVarint_cases [consumes 1, case_names one two four eight]:
  assumes "AppendVarint b v = Some bs"
  obtains "unat v < 2 ^ 6" and "bs = b @ [push_bit 6 0 OR byte_at 0 v]"
  | "2 ^ 6 \<le> unat v" and "unat v < 2 ^ 14"
    and "bs = b @ [push_bit 6 1 OR byte_at 8 v, byte_at 0 v]"
  | "2 ^ 14 \<le> unat v" and "unat v < 2 ^ 30"
    and "bs = b @ [push_bit 6 2 OR byte_at 24 v, byte_at 16 v, byte_at 8 v, byte_at 0 v]"
  | "2 ^ 30 \<le> unat v" and "unat v < 2 ^ 62"
    and "bs = b @ [push_bit 6 3 OR byte_at 56 v, byte_at 48 v, byte_at 40 v, byte_at 32 v,
                   byte_at 24 v, byte_at 16 v, byte_at 8 v, byte_at 0 v]"
  using assms
  by (simp only: AppendVarint_def varint_classes varint_tags split: if_splits) auto

text \<open>The four ways \<open>ConsumeVarint\<close> reads.\<close>

lemma ConsumeVarint_one:
  "drop_bit 6 b0 = 0 \<Longrightarrow> ConsumeVarint (b0 # r) = (at_byte 0 (b0 AND 0x3f), 1)"
  by (simp add: ConsumeVarint_def)

lemma ConsumeVarint_two:
  "drop_bit 6 b0 = 1 \<Longrightarrow>
   ConsumeVarint (b0 # b1 # r) = (at_byte 8 (b0 AND 0x3f) OR at_byte 0 b1, 2)"
  by (simp add: ConsumeVarint_def)

lemma ConsumeVarint_four:
  "drop_bit 6 b0 = 2 \<Longrightarrow>
   ConsumeVarint (b0 # b1 # b2 # b3 # r) =
     (at_byte 24 (b0 AND 0x3f) OR at_byte 16 b1 OR at_byte 8 b2 OR at_byte 0 b3, 4)"
  by (simp add: ConsumeVarint_def)

lemma ConsumeVarint_eight:
  "drop_bit 6 b0 = 3 \<Longrightarrow>
   ConsumeVarint (b0 # b1 # b2 # b3 # b4 # b5 # b6 # b7 # r) =
     (at_byte 56 (b0 AND 0x3f) OR at_byte 48 b1 OR at_byte 40 b2 OR at_byte 32 b3 OR
      at_byte 24 b4 OR at_byte 16 b5 OR at_byte 8 b6 OR at_byte 0 b7, 8)"
  by (simp add: ConsumeVarint_def)

lemma ConsumeVarint_append:
  assumes "AppendVarint [] v = Some bs"
  shows "ConsumeVarint (bs @ rest) = (v, int (length bs))"
  using assms
proof (cases rule: AppendVarint_cases)
  case one
  have "unat (byte_at 0 v) < 64" using unat_byte_at_lt [of v 0 6] one(1) by simp
  note t = tagged_byte [OF this, of 0]
  with ConsumeVarint_one [of "push_bit 6 0 OR byte_at 0 v" rest] join_varint1 [OF one(1)]
  show ?thesis unfolding one(2) by (simp del: push_bit_of_0 or.left_neutral)
next
  case two
  have "unat (byte_at 8 v) < 64" using unat_byte_at_lt [of v 8 6] two(2) by simp
  note t = tagged_byte [OF this, of 1]
  with join_varint2 [OF two(2)] show ?thesis unfolding two(3) by (simp add: ConsumeVarint_two)
next
  case four
  have "unat (byte_at 24 v) < 64" using unat_byte_at_lt [of v 24 6] four(2) by simp
  note t = tagged_byte [OF this, of 2]
  with join_varint4 [OF four(2)] show ?thesis unfolding four(3) by (simp add: ConsumeVarint_four)
next
  case eight
  have "unat (byte_at 56 v) < 64" using unat_byte_at_lt [of v 56 6] eight(2) by simp
  note t = tagged_byte [OF this, of 3]
  then show ?thesis unfolding eight(3) by (simp add: ConsumeVarint_eight)
qed

lemma bit_at_byteD: "bit (at_byte k b :: 'a::len word) i \<Longrightarrow> i < k + 8"
  using bit_imp_le_length [of b "i - k"] by (auto simp: bit_at_byte)

lemma bit_at_byte_maskD: "bit (at_byte k (b AND 0x3f) :: 'a::len word) i \<Longrightarrow> i < k + 6"
  using bit_lt_exp [of "0x3f :: byte" 6 "i - k"] by (auto simp: bit_at_byte bit_and_iff)

lemma ConsumeVarint_bounds:
  assumes "ConsumeVarint b = (v, n)" and "0 \<le> n"
  shows "0 < n" and "nat n \<le> length b" and "unat v < 2 ^ 62"
proof -
  have "n \<in> {1, 2, 4, 8} \<and> nat n \<le> length b"
    using assms by (auto simp: ConsumeVarint_def Let_def Suc_le_eq split: if_splits)
  then show "0 < n" and "nat n \<le> length b" by auto
  show "unat v < 2 ^ 62"
  proof (rule exp_gt_bits)
    fix i assume "bit v i"
    with assms show "i < 62"
      by (auto simp: ConsumeVarint_def Let_def bit_or_iff split: if_splits
          dest!: bit_at_byte_maskD) (auto dest!: bit_at_byteD)
  qed
qed

lemma AppendVarint_append: "AppendVarint b v = map_option ((@) b) (AppendVarint [] v)"
  by (simp add: AppendVarint_def)

lemma SizeVarint_length: "SizeVarint v = map_option length (AppendVarint [] v)"
  by (simp add: SizeVarint_def AppendVarint_def)

lemma AppendVarint_None_iff: "AppendVarint b v = None \<longleftrightarrow> 2 ^ 62 \<le> unat v"
  by (auto simp: AppendVarint_def varint_classes)

lemma AppendVarint_length:
  "AppendVarint [] v = Some bs \<Longrightarrow> length bs \<in> {1, 2, 4, 8}"
  by (auto simp: AppendVarint_def split: if_splits)

section \<open>quicwire implements the interface\<close>

text \<open>The operations as the sessions call them: parsing a slice, and reading from a reader that
  ends with the error \<open>e\<close>.\<close>

definition quicwire_varint :: varint_ops where
  "quicwire_varint =
    \<lparr>vappend = AppendVarint [],
     vparse = (\<lambda>b. case ConsumeVarint b of (v, n) \<Rightarrow>
                 if n < 0 then Inl ErrUnexpectedEOF else Inr (v, nat n)),
     vread = (\<lambda>b e. case ConsumeVarint b of (v, n) \<Rightarrow>
                 if n < 0 then Inl e else Inr (v, drop (nat n) b))\<rparr>"

lemma quicwire_simps [simp]:
  "vappend quicwire_varint = AppendVarint []"
  "vparse quicwire_varint b = (case ConsumeVarint b of (v, n) \<Rightarrow>
     if n < 0 then Inl ErrUnexpectedEOF else Inr (v, nat n))"
  "vread quicwire_varint b e = (case ConsumeVarint b of (v, n) \<Rightarrow>
     if n < 0 then Inl e else Inr (v, drop (nat n) b))"
  by (simp_all add: quicwire_varint_def)

interpretation qw: varint_codec quicwire_varint
proof (unfold_locales, goal_cases)
  case (1 v)
  then show ?case using AppendVarint_None_iff [of "[]" v] by (cases "AppendVarint [] v") auto
next
  case (2 v)
  then show ?case using AppendVarint_None_iff [of "[]" v] by simp
next
  case (3 v bs)
  then show ?case using AppendVarint_length [of v bs] by auto
next
  case (4 v bs rest)
  then show ?case using ConsumeVarint_append [of v bs rest] by simp
next
  case (5 v bs rest e)
  then show ?case using ConsumeVarint_append [of v bs rest] by simp
next
  case (6 b v n)
  then show ?case using ConsumeVarint_bounds [of b v "int n"]
    by (auto split: prod.splits if_splits)
next
  case (7 b e v rest)
  then obtain n where "ConsumeVarint b = (v, n)" "0 \<le> n" "rest = drop (nat n) b"
    by (auto split: prod.splits if_splits)
  then show ?case using ConsumeVarint_bounds [of b v n] by (auto simp: suffix_drop)
qed

section \<open>Length-prefixed byte strings\<close>

lemma ConsumeVarintBytes_append:
  assumes "AppendVarintBytes [] v = Some bs" and "length v < 2 ^ 62"
  shows "ConsumeVarintBytes (bs @ rest) = (v, int (length bs))"
proof -
  from assms(1) obtain p where p: "AppendVarint [] (of_nat (length v)) = Some p" "bs = p @ v"
    by (auto simp: AppendVarintBytes_def split: option.splits)
  have "unat (of_nat (length v) :: u64) = length v"
    using assms(2) by simp
  with p ConsumeVarint_append [OF p(1), of "v @ rest"] show ?thesis
    by (simp add: ConsumeVarintBytes_def)
qed

lemma ConsumeUint8Bytes_append:
  assumes "AppendUint8Bytes [] v = Some bs"
  shows "ConsumeUint8Bytes (bs @ rest) = (v, int (length bs))"
proof -
  from assms have l: "length v \<le> 255" and bs: "bs = of_nat (length v) # v"
    by (auto simp: AppendUint8Bytes_def split: if_splits)
  from l have "unat (of_nat (length v) :: byte) = length v"
    by (simp add: unat_of_nat take_bit_nat_eq_self)
  then show ?thesis by (simp add: ConsumeUint8Bytes_def bs)
qed

section \<open>Properties\<close>

text \<open>C28: quicwire's varint encoder and decoder are inverse: whatever AppendVarint appends to a
  buffer has the length SizeVarint announces, and ConsumeVarint reads it back, with its length,
  from the front of any input that continues with further bytes.\<close>

theorem varint_roundtrip:
  assumes "AppendVarint b v = Some bs"
  shows "\<exists>p. bs = b @ p \<and> SizeVarint v = Some (length p) \<and>
             ConsumeVarint (p @ rest) = (v, int (length p))"
proof -
  from assms obtain p where p: "AppendVarint [] v = Some p" "bs = b @ p"
    by (auto simp: AppendVarint_append [of b])
  with ConsumeVarint_append [OF p(1)] SizeVarint_length [of v] show ?thesis by simp
qed

theorem varint_roundtrip_witness:
  "AppendVarint [7] 300 = Some [7, 0x41, 0x2c] \<and>
   (\<exists>p. [7, 0x41, 0x2c] = [7] @ p \<and> SizeVarint 300 = Some (length p) \<and>
        ConsumeVarint (p @ [9]) = (300, int (length p)))"
proof -
  have h: "AppendVarint [7] 300 = Some [7, 0x41, 0x2c]"
    by (simp add: AppendVarint_def byte_at_def)
  show ?thesis using h varint_roundtrip [OF h, of "[9]"] by blast
qed

lemma sint_varint:
  assumes "unat (v :: u64) < 2 ^ 62"
  shows "sint v = int (unat v)"
proof -
  have "int (unat v) < int (2 ^ 62)" using assms by (simp only: of_nat_less_iff)
  then have "uint v < 2 ^ 63" by simp
  moreover have "- (2 ^ 63) \<le> uint v" by (rule order_trans [of _ 0]) simp_all
  ultimately have "signed_take_bit 63 (uint v) = uint v"
    by (intro signed_take_bit_int_eq_self)
  then show ?thesis by (simp add: sint_uint)
qed

text \<open>C30: ConsumeVarint never reads past its input and never yields a value of more than 62
  bits: it reports an error (a negative length) or a length of 1, 2, 4 or 8 that the input has,
  so the conversion to int64 in ConsumeVarintInt64 cannot change the value.\<close>

theorem ConsumeVarint_total:
  "case ConsumeVarint b of (v, n) \<Rightarrow>
     (n = -1 \<and> v = 0 \<or> n \<in> {1, 2, 4, 8} \<and> nat n \<le> length b) \<and>
     v \<le> MaxVarint \<and> ConsumeVarintInt64 b = (int (unat v), n)"
proof -
  obtain v n where eq: "ConsumeVarint b = (v, n)" by (cases "ConsumeVarint b")
  have n: "n = -1 \<and> v = 0 \<or> n \<in> {1, 2, 4, 8} \<and> nat n \<le> length b"
    using eq by (auto simp: ConsumeVarint_def Let_def Suc_le_eq split: if_splits)
  have v: "unat v < 2 ^ 62"
  proof (cases "0 \<le> n")
    case True
    with eq show ?thesis by (rule ConsumeVarint_bounds(3))
  next
    case False
    with n have "v = 0" by auto
    then show ?thesis by simp
  qed
  then have "v \<le> MaxVarint" by (simp add: MaxVarint_def varint_classes)
  with eq n sint_varint [OF v] show ?thesis by (simp only: ConsumeVarintInt64_def prod.case)
qed

end
