(* ===== verification/Send_Limits.thy ===== *)
theory Send_Limits
  imports Varint
begin

unbundle bit_operations_syntax

text \<open>
  flow.go: the peer's grant for what this endpoint may send. The counters are 64-bit words as in
  the source; a map that the source creates lazily is a partial map, empty where the source has
  nil. The methods read two things of the session besides the limits, its role and its stream
  counter, and take them as arguments. Also here are the stream-ID helpers of session.go that
  the limits are keyed by (\<^verbatim>\<open>isOurStream\<close>, \<^verbatim>\<open>isBidirectionalStream\<close>, \<^verbatim>\<open>nextStreamID\<close>).
\<close>

section \<open>Stream identifiers\<close>

type_synonym stream_id = u64

definition isOurStream :: "bool \<Rightarrow> stream_id \<Rightarrow> bool" where
  "isOurStream isServer sid = (if isServer then sid AND 1 = 1 else sid AND 1 = 0)"

definition isBidirectionalStream :: "stream_id \<Rightarrow> bool" where
  "isBidirectionalStream sid \<longleftrightarrow> sid AND 2 = 0"

text \<open>The identifier and the advanced counter.\<close>

definition nextStreamID :: "bool \<Rightarrow> u64 \<Rightarrow> bool \<Rightarrow> stream_id \<times> u64" where
  "nextStreamID isServer counter bidirectional =
     (let baseID = counter;
          baseID = (if \<not> bidirectional then baseID OR 2 else baseID);
          baseID = (if isServer then baseID OR 1 else baseID)
      in (baseID, counter + 4))"

section \<open>The limits\<close>

record peerInitialLimits =
  peer_maxData :: u64
  peer_maxStreamsUni :: u64
  peer_maxStreamsBidi :: u64
  peer_streamDataUni :: u64
  peer_streamDataBidiLocal :: u64
  peer_streamDataBidiRemote :: u64

record sendLimits =
  active :: bool
  maxData :: u64
  maxStreamsUni :: u64
  maxStreamsBidi :: u64
  streamDataUni :: u64
  streamDataBidiLocal :: u64
  streamDataBidiRemote :: u64
  streamMax :: "stream_id \<rightharpoonup> u64"
  dataSent :: u64
  streamSent :: "stream_id \<rightharpoonup> u64"
  openedUni :: u64
  openedBidi :: u64

text \<open>The zero value of the struct.\<close>

definition zero_sendLimits :: sendLimits where
  "zero_sendLimits =
    \<lparr>active = False, maxData = 0, maxStreamsUni = 0, maxStreamsBidi = 0, streamDataUni = 0,
     streamDataBidiLocal = 0, streamDataBidiRemote = 0, streamMax = Map.empty, dataSent = 0,
     streamSent = Map.empty, openedUni = 0, openedBidi = 0\<rparr>"

text \<open>Indexing a Go map of numbers: zero where there is no entry.\<close>

definition go_index :: "('k \<rightharpoonup> u64) \<Rightarrow> 'k \<Rightarrow> u64" where
  "go_index m k = (case m k of None \<Rightarrow> 0 | Some v \<Rightarrow> v)"

definition adoptPeerSendLimits :: "sendLimits \<Rightarrow> peerInitialLimits \<Rightarrow> sendLimits" where
  "adoptPeerSendLimits l peer =
    l\<lparr>active := True,
      maxData := peer_maxData peer,
      maxStreamsUni := peer_maxStreamsUni peer,
      maxStreamsBidi := peer_maxStreamsBidi peer,
      streamDataUni := peer_streamDataUni peer,
      streamDataBidiLocal := peer_streamDataBidiLocal peer,
      streamDataBidiRemote := peer_streamDataBidiRemote peer\<rparr>"

definition initialStreamSendLimitLocked :: "bool \<Rightarrow> sendLimits \<Rightarrow> stream_id \<Rightarrow> u64" where
  "initialStreamSendLimitLocked isServer l sid =
     (if \<not> isBidirectionalStream sid then streamDataUni l
      else if isOurStream isServer sid then streamDataBidiRemote l
      else streamDataBidiLocal l)"

definition ensureStreamSendLimitLocked :: "bool \<Rightarrow> sendLimits \<Rightarrow> stream_id \<Rightarrow> sendLimits" where
  "ensureStreamSendLimitLocked isServer l sid =
     (if \<not> active l then l
      else case streamMax l sid of
        Some _ \<Rightarrow> l
      | None \<Rightarrow> l\<lparr>streamMax := (streamMax l)(sid \<mapsto> initialStreamSendLimitLocked isServer l sid)\<rparr>)"

definition trackSendStream :: "bool \<Rightarrow> sendLimits \<Rightarrow> stream_id \<Rightarrow> sendLimits" where
  "trackSendStream isServer l sid =
     (if \<not> isBidirectionalStream sid \<and> \<not> isOurStream isServer sid then l
      else ensureStreamSendLimitLocked isServer l sid)"

definition sendLimitError :: "string \<Rightarrow> go_err" where
  "sendLimitError kind = Errorf '''' ErrSendLimit ('': '' @ kind)"

definition allocLocalStream ::
  "bool \<Rightarrow> u64 \<Rightarrow> sendLimits \<Rightarrow> bool \<Rightarrow> (go_err + stream_id) \<times> u64 \<times> sendLimits" where
  "allocLocalStream isServer counter l bidi =
     (let opened = (if bidi then openedBidi l else openedUni l);
          mx = (if bidi then maxStreamsBidi l else maxStreamsUni l);
          kind = (if bidi then ''bidirectional streams'' else ''unidirectional streams'')
      in if active l \<and> opened \<ge> mx then (Inl (sendLimitError kind), counter, l)
         else
           let (sid, counter') = nextStreamID isServer counter bidi;
               l' = (if active l then
                       ensureStreamSendLimitLocked isServer
                         (if bidi then l\<lparr>openedBidi := openedBidi l + 1\<rparr>
                          else l\<lparr>openedUni := openedUni l + 1\<rparr>) sid
                     else l)
           in (Inr sid, counter', l'))"

definition reserveSendData ::
  "sendLimits \<Rightarrow> stream_id \<Rightarrow> nat \<Rightarrow> go_err option \<times> sendLimits" where
  "reserveSendData l sid n =
     (if n = 0 then (None, l)
      else if \<not> active l then (None, l)
      else
        let add = of_nat n :: u64
        in if dataSent l > maxData l \<or> add > maxData l - dataSent l
           then (Some (sendLimitError ''session data''), l)
           else
             let maxStream = go_index (streamMax l) sid; sent = go_index (streamSent l) sid
             in if sent > maxStream \<or> add > maxStream - sent
                then (Some (sendLimitError ''stream data''), l)
                else (None, l\<lparr>dataSent := dataSent l + add,
                              streamSent := (streamSent l)(sid \<mapsto> sent + add)\<rparr>))"

text \<open>The test for a nil map is subsumed: indexing it gives 0, which is below a positive amount.\<close>

definition refundSendData :: "sendLimits \<Rightarrow> stream_id \<Rightarrow> nat \<Rightarrow> sendLimits" where
  "refundSendData l sid n =
     (if n = 0 \<or> \<not> active l then l
      else
        let sub = of_nat n :: u64;
            l1 = (if dataSent l \<ge> sub then l\<lparr>dataSent := dataSent l - sub\<rparr> else l)
        in if go_index (streamSent l1) sid \<ge> sub
           then l1\<lparr>streamSent := (streamSent l1)(sid \<mapsto> go_index (streamSent l1) sid - sub)\<rparr>
           else l1)"

section \<open>Raising the limits\<close>

definition maxStreamCount :: u64 where "maxStreamCount = 0x1000000000000000"

definition raiseMaxData :: "sendLimits \<Rightarrow> u64 \<Rightarrow> go_err option \<times> sendLimits" where
  "raiseMaxData l mx =
     (let l = l\<lparr>active := True\<rparr>
      in if mx < maxData l then
           (Some (FlowControlError (''WT_MAX_DATA '' @ fmt_d (unat mx) @ '' is below '' @
              fmt_d (unat (maxData l)))), l)
         else (None, l\<lparr>maxData := mx\<rparr>))"

definition raiseMaxStreamData ::
  "bool \<Rightarrow> sendLimits \<Rightarrow> stream_id \<Rightarrow> u64 \<Rightarrow> go_err option \<times> sendLimits" where
  "raiseMaxStreamData isServer l sid mx =
     (let l = l\<lparr>active := True\<rparr>;
          cur = (case streamMax l sid of
                   Some existing \<Rightarrow> existing
                 | None \<Rightarrow> initialStreamSendLimitLocked isServer l sid)
      in if mx < cur then
           (Some (FlowControlError (''WT_MAX_STREAM_DATA '' @ fmt_d (unat mx) @ '' for stream '' @
              fmt_d (unat sid) @ '' is below '' @ fmt_d (unat cur))), l)
         else (None, l\<lparr>streamMax := (streamMax l)(sid \<mapsto> mx)\<rparr>))"

definition raiseMaxStreams :: "sendLimits \<Rightarrow> bool \<Rightarrow> u64 \<Rightarrow> go_err option \<times> sendLimits" where
  "raiseMaxStreams l bidi mx =
     (if mx > maxStreamCount then
        (Some (FlowControlError (''WT_MAX_STREAMS '' @ fmt_d (unat mx) @ '' exceeds 2^60'')), l)
      else
        let l = l\<lparr>active := True\<rparr>;
            cur = (if bidi then maxStreamsBidi l else maxStreamsUni l)
        in if mx < cur then
             (Some (FlowControlError (''WT_MAX_STREAMS '' @ fmt_d (unat mx) @ '' is below '' @
                fmt_d (unat cur))), l)
           else if bidi then (None, l\<lparr>maxStreamsBidi := mx\<rparr>)
           else (None, l\<lparr>maxStreamsUni := mx\<rparr>))"

lemma isOurStream_bit: "isOurStream isServer sid \<longleftrightarrow> bit sid 0 = isServer"
  by (simp add: isOurStream_def and_one_eq bit_0 odd_iff_mod_2_eq_one even_iff_mod_2_eq_zero)

lemma isBidirectionalStream_bit: "isBidirectionalStream sid \<longleftrightarrow> \<not> bit sid 1"
  using and_exp_eq_0_iff_not_bit [of sid 1] by (simp add: isBidirectionalStream_def)

definition counter_ok :: "u64 \<Rightarrow> bool" where
  "counter_ok c \<longleftrightarrow> \<not> bit c 0 \<and> \<not> bit c 1"

lemma counter_ok_iff: "counter_ok c \<longleftrightarrow> 4 dvd unat c"
proof -
  have "counter_ok c \<longleftrightarrow> (\<forall>n. \<not> bit (take_bit 2 (unat c)) n)"
    by (auto simp: counter_ok_def bit_take_bit_iff bit_unsigned_iff less_2_cases_iff intro: gr0I)
  also have "\<dots> \<longleftrightarrow> take_bit 2 (unat c) = 0"
    by (simp add: bit_eq_iff)
  also have "\<dots> \<longleftrightarrow> 4 dvd unat c"
    by (simp add: take_bit_eq_mod dvd_eq_mod_eq_0)
  finally show ?thesis .
qed

lemma counter_ok_add: "counter_ok c \<Longrightarrow> counter_ok (c + 4)"
  by (simp add: counter_ok_iff unat_word_ariths dvd_mod_iff)

lemma nextStreamID_bits:
  assumes "counter_ok c" and "nextStreamID isServer c bidi = (sid, c')"
  shows "bit sid n \<longleftrightarrow> (if n = 0 then isServer else if n = 1 then \<not> bidi else bit c n)"
  using assms
  by (auto simp: nextStreamID_def Let_def counter_ok_def bit_or_iff bit_simps split: if_splits)

lemma nextStreamID_spec:
  assumes "counter_ok c" and "nextStreamID isServer c bidi = (sid, c')"
  shows "isOurStream isServer sid" and "isBidirectionalStream sid \<longleftrightarrow> bidi"
    and "unat sid div 4 = unat c div 4" and "counter_ok c'"
proof -
  note b = nextStreamID_bits [OF assms]
  show "isOurStream isServer sid" "isBidirectionalStream sid \<longleftrightarrow> bidi"
    by (auto simp: isOurStream_bit isBidirectionalStream_bit b)
  have "drop_bit 2 sid = drop_bit 2 c"
    by (rule bit_word_eqI) (simp add: bit_drop_bit_eq b)
  then have "drop_bit 2 (unat sid) = drop_bit 2 (unat c)"
    by (metis unat_drop_bit_eq)
  then show "unat sid div 4 = unat c div 4" by (simp add: drop_bit_eq_div)
  show "counter_ok c'"
    using assms counter_ok_add by (auto simp: nextStreamID_def Let_def)
qed

section \<open>The accounting invariant\<close>

text \<open>What was sent is covered by the grant, for the session, for every stream and for both kinds
  of stream; nothing is counted while no limit applies.\<close>

definition limits_ok :: "sendLimits \<Rightarrow> bool" where
  "limits_ok l \<longleftrightarrow> dataSent l \<le> maxData l \<and>
     (\<forall>sid. go_index (streamSent l) sid \<le> go_index (streamMax l) sid) \<and>
     openedUni l \<le> maxStreamsUni l \<and> openedBidi l \<le> maxStreamsBidi l"

lemma limits_okD:
  assumes "limits_ok l"
  shows "dataSent l \<le> maxData l" "go_index (streamSent l) sid \<le> go_index (streamMax l) sid"
    "openedUni l \<le> maxStreamsUni l" "openedBidi l \<le> maxStreamsBidi l"
  using assms by (auto simp: limits_ok_def)

lemma go_index_upd [simp]: "go_index (m(k \<mapsto> v)) k' = (if k' = k then v else go_index m k')"
  by (simp add: go_index_def)

lemma go_index_empty [simp]: "go_index Map.empty k = 0"
  by (simp add: go_index_def)

lemma go_index_None: "m k = None \<Longrightarrow> go_index m k = 0"
  by (simp add: go_index_def)

lemma limits_ok_adopt: "limits_ok (adoptPeerSendLimits zero_sendLimits peer)"
  by (simp add: limits_ok_def adoptPeerSendLimits_def zero_sendLimits_def)

lemma limits_ok_zero: "limits_ok zero_sendLimits"
  by (simp add: limits_ok_def zero_sendLimits_def)

lemma limits_ok_ensure:
  "limits_ok l \<Longrightarrow> limits_ok (ensureStreamSendLimitLocked isServer l sid)"
proof -
  assume ok: "limits_ok l"
  have "go_index (streamSent l) sid = 0" if "streamMax l sid = None"
    using limits_okD(2) [OF ok, of sid] that by (simp add: go_index_None)
  with ok show ?thesis
    by (auto simp: ensureStreamSendLimitLocked_def limits_ok_def split: option.splits)
qed

lemma limits_ok_track: "limits_ok l \<Longrightarrow> limits_ok (trackSendStream isServer l sid)"
  by (simp add: trackSendStream_def limits_ok_ensure)

lemma word_less_inc: "x < (y::'a::len word) \<Longrightarrow> x + 1 \<le> y"
  by (rule inc_le)

lemma limits_ok_alloc:
  assumes "limits_ok l" and "allocLocalStream isServer c l bidi = (r, c', l')"
  shows "limits_ok l'"
proof -
  have "limits_ok (l\<lparr>openedBidi := openedBidi l + 1\<rparr>)" if "openedBidi l < maxStreamsBidi l"
    using assms(1) that by (simp add: limits_ok_def word_less_inc)
  moreover have "limits_ok (l\<lparr>openedUni := openedUni l + 1\<rparr>)" if "openedUni l < maxStreamsUni l"
    using assms(1) that by (simp add: limits_ok_def word_less_inc)
  ultimately show ?thesis
    using assms
    by (auto simp: allocLocalStream_def Let_def not_le limits_ok_ensure split: if_splits prod.splits)
qed

lemma unat_less_exp: "unat (m :: 'a::len word) < 2 ^ LENGTH('a)"
  by (rule unsigned_less)

lemma add_le_of_le_diff:
  fixes s m a :: "'a::len word"
  assumes "s \<le> m" and "a \<le> m - s"
  shows "s + a \<le> m" and "unat (s + a) = unat s + unat a"
proof -
  have le: "unat s + unat a \<le> unat m"
    using assms by (simp add: word_le_nat_alt unat_diff_le)
  then have "unat s + unat a < 2 ^ LENGTH('a)"
    using unat_less_exp [of m] by linarith
  from unat_add_no_wrap [OF this] show u: "unat (s + a) = unat s + unat a" .
  show "s + a \<le> m" using le by (simp add: word_le_nat_alt u)
qed

section \<open>Reserving and refunding\<close>

definition session_left :: "sendLimits \<Rightarrow> nat" where
  "session_left l = unat (maxData l) - unat (dataSent l)"

definition stream_left :: "sendLimits \<Rightarrow> stream_id \<Rightarrow> nat" where
  "stream_left l sid = unat (go_index (streamMax l) sid) - unat (go_index (streamSent l) sid)"

lemma reserve_cases:
  assumes "limits_ok l" and "active l" and "n < 2 ^ 63"
  shows "fst (reserveSendData l sid n) = None \<longleftrightarrow>
           n = 0 \<or> n \<le> session_left l \<and> n \<le> stream_left l sid"
proof -
  have u: "unat (of_nat n :: u64) = n" using assms(3) by (simp add: unat_of_nat_u64)
  have "(of_nat n :: u64) \<le> maxData l - dataSent l \<longleftrightarrow> n \<le> session_left l"
    using limits_okD(1) [OF assms(1)] by (simp add: word_le_nat_alt u session_left_def unat_diff_le)
  moreover have "(of_nat n :: u64) \<le> go_index (streamMax l) sid - go_index (streamSent l) sid
      \<longleftrightarrow> n \<le> stream_left l sid"
    using limits_okD(2) [OF assms(1), of sid]
    by (simp add: word_le_nat_alt u stream_left_def unat_diff_le)
  ultimately show ?thesis
    using assms(2) limits_okD(1) [OF assms(1)] limits_okD(2) [OF assms(1), of sid]
    by (auto simp: reserveSendData_def Let_def not_less[symmetric])
qed

lemma reserve_fail_same: "reserveSendData l sid n = (Some e, l') \<Longrightarrow> l' = l"
  by (auto simp: reserveSendData_def Let_def split: if_splits)

lemma reserve_fail_errors:
  assumes "reserveSendData l sid n = (Some e, l')"
  shows "errors_Is e ErrSendLimit"
  using assms
  by (auto simp: reserveSendData_def Let_def sendLimitError_def split: if_splits)

lemma reserve_okE:
  assumes "active l" and "reserveSendData l sid n = (None, l')"
  obtains (zero) "n = 0" "l' = l"
    | (pos) "n \<noteq> 0" "of_nat n \<le> maxData l - dataSent l"
        "of_nat n \<le> go_index (streamMax l) sid - go_index (streamSent l) sid"
        "l' = l\<lparr>dataSent := dataSent l + of_nat n,
                streamSent := (streamSent l)(sid \<mapsto> go_index (streamSent l) sid + of_nat n)\<rparr>"
proof (cases "n = 0")
  case True
  with assms show ?thesis by (intro zero) (simp_all add: reserveSendData_def)
next
  case False
  show ?thesis
    by (rule pos) (use assms False in
      \<open>simp_all add: reserveSendData_def Let_def not_less split: if_splits\<close>)
qed

lemma reserve_ok_effect:
  assumes "limits_ok l" and "active l" and "n < 2 ^ 63"
    and "reserveSendData l sid n = (None, l')"
  shows "unat (dataSent l') = unat (dataSent l) + n \<and>
    unat (go_index (streamSent l') sid) = unat (go_index (streamSent l) sid) + n \<and>
    (\<forall>s. s \<noteq> sid \<longrightarrow> go_index (streamSent l') s = go_index (streamSent l) s) \<and>
    (\<exists>d m. l' = l\<lparr>dataSent := d, streamSent := m\<rparr>) \<and> limits_ok l'"
proof -
  have u: "unat (of_nat n :: u64) = n" using assms(3) by (simp add: unat_of_nat_u64)
  from assms(2,4) show ?thesis
  proof (cases rule: reserve_okE)
    case zero
    then have "\<exists>d m. l' = l\<lparr>dataSent := d, streamSent := m\<rparr>"
      by (intro exI [of _ "dataSent l"] exI [of _ "streamSent l"]) simp
    with assms(1) zero show ?thesis by simp
  next
    case pos
    note s = add_le_of_le_diff [OF limits_okD(1) [OF assms(1)] pos(2)]
    note t = add_le_of_le_diff [OF limits_okD(2) [OF assms(1), of sid] pos(3)]
    from s(2) t(2) u have "unat (dataSent l') = unat (dataSent l) + n"
      "unat (go_index (streamSent l') sid) = unat (go_index (streamSent l) sid) + n"
      by (simp_all add: pos(4))
    moreover have "limits_ok l'"
      using assms(1) s(1) t(1) by (simp add: pos(4) limits_ok_def)
    ultimately show ?thesis using pos(4) by auto
  qed
qed

text \<open>A refund never underflows, whatever its amount.\<close>

lemma limits_ok_refund: "limits_ok l \<Longrightarrow> limits_ok (refundSendData l sid n)"
proof -
  assume ok: "limits_ok l"
  have sub: "x - y \<le> z" if "y \<le> x" "x \<le> z" for x y z :: u64
    using that by (simp add: word_le_nat_alt unat_diff_le)
  from ok show ?thesis
    by (auto simp: refundSendData_def Let_def limits_ok_def intro: sub)
qed

lemma refund_after_reserve:
  assumes "limits_ok l" and "active l" and "n < 2 ^ 63"
    and "reserveSendData l sid n = (None, l')"
  shows "\<exists>m. refundSendData l' sid n = l\<lparr>streamSent := m\<rparr> \<and>
    (\<forall>s. go_index m s = go_index (streamSent l) s)"
  using assms(2,4)
proof (cases rule: reserve_okE)
  case zero
  then have "refundSendData l' sid n = l\<lparr>streamSent := streamSent l\<rparr>"
    by (simp add: refundSendData_def)
  then show ?thesis by blast
next
  case pos
  have u: "unat (of_nat n :: u64) = n" using assms(3) by (simp add: unat_of_nat_u64)
  note s = add_le_of_le_diff(2) [OF limits_okD(1) [OF assms(1)] pos(2)]
  note t = add_le_of_le_diff(2) [OF limits_okD(2) [OF assms(1), of sid] pos(3)]
  have "of_nat n \<le> dataSent l + of_nat n"
    "of_nat n \<le> go_index (streamSent l) sid + of_nat n"
    by (simp_all only: word_le_nat_alt s t u le_add2)
  with assms(2) pos(1) have "refundSendData l' sid n =
      l\<lparr>streamSent := (streamSent l)(sid \<mapsto> go_index (streamSent l) sid)\<rparr>"
    by (simp add: pos(4) refundSendData_def Let_def)
  then show ?thesis by (intro exI conjI) auto
qed

section \<open>Raising\<close>

lemma raiseMaxData_cases:
  "raiseMaxData l mx = (e, l') \<Longrightarrow> limits_ok l \<Longrightarrow>
     limits_ok l' \<and> active l' \<and> dataSent l' = dataSent l \<and> streamSent l' = streamSent l \<and>
     openedUni l' = openedUni l \<and> openedBidi l' = openedBidi l \<and>
     maxData l \<le> maxData l' \<and> (e = None \<longleftrightarrow> maxData l \<le> mx)"
  by (auto simp: raiseMaxData_def Let_def limits_ok_def split: if_splits)

lemma raiseMaxStreamData_cases:
  assumes "raiseMaxStreamData isServer l sid mx = (e, l')" and "limits_ok l"
  shows "limits_ok l' \<and> active l' \<and> dataSent l' = dataSent l \<and> streamSent l' = streamSent l \<and>
     openedUni l' = openedUni l \<and> openedBidi l' = openedBidi l \<and>
     go_index (streamMax l) s \<le> go_index (streamMax l') s"
proof -
  have "go_index (streamSent l) sid = 0" if "streamMax l sid = None"
    using limits_okD(2) [OF assms(2), of sid] that by (simp add: go_index_None)
  moreover have "go_index (streamMax l) sid \<le> mx" if "\<not> mx < (case streamMax l sid of
      Some existing \<Rightarrow> existing | None \<Rightarrow> initialStreamSendLimitLocked isServer l' sid)" for l'
    using that by (auto simp: go_index_def split: option.splits)
  ultimately show ?thesis
    using assms
    apply (auto simp: raiseMaxStreamData_def Let_def limits_ok_def split: if_splits)
    apply (meson order_trans)
    done
qed

lemma raiseMaxStreams_cases:
  "raiseMaxStreams l bidi mx = (e, l') \<Longrightarrow> limits_ok l \<Longrightarrow>
     limits_ok l' \<and> dataSent l' = dataSent l \<and> streamSent l' = streamSent l \<and>
     openedUni l' = openedUni l \<and> openedBidi l' = openedBidi l \<and>
     maxStreamsUni l \<le> maxStreamsUni l' \<and> maxStreamsBidi l \<le> maxStreamsBidi l'"
  by (auto simp: raiseMaxStreams_def Let_def limits_ok_def split: if_splits)

lemma active_mono:
  "active l \<Longrightarrow> active (trackSendStream isServer l sid)"
  "active l \<Longrightarrow> active (ensureStreamSendLimitLocked isServer l sid)"
  "active l \<Longrightarrow> active (refundSendData l sid n)"
  "active l \<Longrightarrow> active (snd (reserveSendData l sid n))"
  "active l \<Longrightarrow> active (snd (raiseMaxStreams l bidi mx))"
  by (auto simp: trackSendStream_def ensureStreamSendLimitLocked_def refundSendData_def
        reserveSendData_def raiseMaxStreams_def Let_def split: option.splits)
section \<open>Credit as an interface\<close>

text \<open>What a writer relies on: an amount is granted exactly when both budgets cover it, a grant
  takes it from both, a refusal changes nothing and a refund puts the grant back.\<close>

locale send_credit =
  fixes reserve :: "'s \<Rightarrow> 'k \<Rightarrow> nat \<Rightarrow> 'e option \<times> 's"
    and refund :: "'s \<Rightarrow> 'k \<Rightarrow> nat \<Rightarrow> 's"
    and left :: "'s \<Rightarrow> nat"
    and left_of :: "'s \<Rightarrow> 'k \<Rightarrow> nat"
    and invar :: "'s \<Rightarrow> bool"
    and fits :: "nat \<Rightarrow> bool"
  assumes grant: "invar s \<Longrightarrow> fits n \<Longrightarrow>
      fst (reserve s k n) = None \<longleftrightarrow> n = 0 \<or> n \<le> left s \<and> n \<le> left_of s k"
    and deny: "reserve s k n = (Some e, s') \<Longrightarrow> s' = s"
    and take: "invar s \<Longrightarrow> fits n \<Longrightarrow> reserve s k n = (None, s') \<Longrightarrow>
      invar s' \<and> left s' + n = left s \<and> left_of s' k + n = left_of s k \<and>
      (\<forall>j. j \<noteq> k \<longrightarrow> left_of s' j = left_of s j)"
    and give_back: "invar s \<Longrightarrow> fits n \<Longrightarrow> reserve s k n = (None, s') \<Longrightarrow>
      invar (refund s' k n) \<and> left (refund s' k n) = left s \<and>
      left_of (refund s' k n) j = left_of s j"
begin

text \<open>A send: reserve, write, refund if the write failed.\<close>

definition attempt :: "'s \<Rightarrow> 'k \<Rightarrow> nat \<Rightarrow> bool \<Rightarrow> bool \<times> 's" where
  "attempt s k n write_ok =
     (case reserve s k n of
        (Some e, s') \<Rightarrow> (False, s')
      | (None, s') \<Rightarrow> if write_ok then (True, s') else (False, refund s' k n))"

lemma attempt_sent:
  assumes "invar s" "fits n" "attempt s k n write_ok = (True, s')"
  shows "write_ok \<and> invar s' \<and> left s' + n = left s \<and> left_of s' k + n = left_of s k \<and>
    (\<forall>j. j \<noteq> k \<longrightarrow> left_of s' j = left_of s j)"
proof -
  have w: write_ok "reserve s k n = (None, s')"
    using assms(3) by (auto simp: attempt_def split: prod.splits option.splits if_splits)
  with take [OF assms(1,2) w(2)] show ?thesis by blast
qed

lemma attempt_not_sent:
  assumes "invar s" "fits n" "attempt s k n write_ok = (False, s')"
  shows "invar s' \<and> left s' = left s \<and> left_of s' j = left_of s j"
proof (cases "reserve s k n")
  case (Pair e s1)
  show ?thesis
  proof (cases e)
    case None
    with Pair assms(3) have "s' = refund s1 k n"
      by (auto simp: attempt_def split: if_splits)
    with give_back [OF assms(1,2)] Pair None show ?thesis by blast
  next
    case (Some a)
    with deny Pair have "s1 = s" by blast
    with Some Pair assms show ?thesis by (simp add: attempt_def)
  qed
qed

lemma attempt_iff:
  assumes "invar s" "fits n"
  shows "fst (attempt s k n True) \<longleftrightarrow> n = 0 \<or> n \<le> left s \<and> n \<le> left_of s k"
  using grant [OF assms, of k] by (auto simp: attempt_def split: prod.splits option.splits)

end

definition credit_invar :: "sendLimits \<Rightarrow> bool" where
  "credit_invar l \<longleftrightarrow> limits_ok l \<and> active l"

lemma reserve_left:
  assumes "credit_invar l" and "n < 2 ^ 63" and "reserveSendData l sid n = (None, l')"
  shows "credit_invar l' \<and> session_left l' + n = session_left l \<and>
    stream_left l' sid + n = stream_left l sid \<and>
    (\<forall>s. s \<noteq> sid \<longrightarrow> stream_left l' s = stream_left l s)"
proof -
  have ok: "limits_ok l" "active l" using assms(1) by (simp_all add: credit_invar_def)
  note r = reserve_ok_effect [OF ok assms(2,3)]
  then obtain d m where l': "l' = l\<lparr>dataSent := d, streamSent := m\<rparr>" by blast
  have "limits_ok l'" using r by blast
  moreover have "n = 0 \<or> n \<le> session_left l \<and> n \<le> stream_left l sid"
    using reserve_cases [OF ok assms(2), of sid] assms(3) by simp
  ultimately show ?thesis
    using r ok(2) by (auto simp: l' credit_invar_def session_left_def stream_left_def)
qed

lemma refund_left:
  assumes "credit_invar l" and "n < 2 ^ 63" and "reserveSendData l sid n = (None, l')"
  shows "credit_invar (refundSendData l' sid n) \<and>
    session_left (refundSendData l' sid n) = session_left l \<and>
    stream_left (refundSendData l' sid n) s = stream_left l s"
proof -
  have ok: "limits_ok l" "active l" using assms(1) by (simp_all add: credit_invar_def)
  from refund_after_reserve [OF ok assms(2,3)] obtain m where
    m: "refundSendData l' sid n = l\<lparr>streamSent := m\<rparr>" "\<forall>s. go_index m s = go_index (streamSent l) s"
    by blast
  with ok show ?thesis
    by (simp add: credit_invar_def session_left_def stream_left_def limits_ok_def)
qed

interpretation credit: send_credit reserveSendData refundSendData session_left stream_left
  credit_invar "\<lambda>n. n < 2 ^ 63"
proof
  show "fst (reserveSendData s k n) = None \<longleftrightarrow> n = 0 \<or> n \<le> session_left s \<and> n \<le> stream_left s k"
    if "credit_invar s" "n < 2 ^ 63" for s k n
    using that reserve_cases by (simp add: credit_invar_def)
qed (use reserve_fail_same reserve_left refund_left in blast)+

section \<open>Histories of the limits\<close>

text \<open>What a session does to its limits, with a log of the amounts that went out and of the
  stream identifiers that were allocated.\<close>

definition try_send :: "sendLimits \<Rightarrow> stream_id \<Rightarrow> nat \<Rightarrow> bool \<Rightarrow> bool \<times> sendLimits" where
  "try_send l sid n write_ok =
     (case reserveSendData l sid n of
        (Some e, l') \<Rightarrow> (False, l')
      | (None, l') \<Rightarrow> if write_ok then (True, l') else (False, refundSendData l' sid n))"

lemma try_send_attempt: "try_send = credit.attempt"
  by (intro ext) (simp add: try_send_def credit.attempt_def)

datatype limit_op =
    OpOpen bool
  | OpTrack stream_id
  | OpSend stream_id nat bool
  | OpMaxData u64
  | OpMaxStreamData stream_id u64
  | OpMaxStreams bool u64

record limit_log =
  lg_counter :: u64
  lg_limits :: sendLimits
  lg_sent :: "(stream_id \<times> nat) list"
  lg_ids :: "stream_id list"

definition initial_log :: "peerInitialLimits \<Rightarrow> limit_log" where
  "initial_log peer = \<lparr>lg_counter = 0, lg_limits = adoptPeerSendLimits zero_sendLimits peer,
     lg_sent = [], lg_ids = []\<rparr>"

fun limit_step :: "bool \<Rightarrow> limit_log \<Rightarrow> limit_op \<Rightarrow> limit_log" where
  "limit_step isServer g (OpOpen bidi) =
     (case allocLocalStream isServer (lg_counter g) (lg_limits g) bidi of
        (Inl e, c, l) \<Rightarrow> g\<lparr>lg_counter := c, lg_limits := l\<rparr>
      | (Inr sid, c, l) \<Rightarrow> g\<lparr>lg_counter := c, lg_limits := l, lg_ids := lg_ids g @ [sid]\<rparr>)"
| "limit_step isServer g (OpTrack sid) =
     g\<lparr>lg_limits := trackSendStream isServer (lg_limits g) sid\<rparr>"
| "limit_step isServer g (OpSend sid n write_ok) =
     (case try_send (lg_limits g) sid n write_ok of (b, l) \<Rightarrow>
        g\<lparr>lg_limits := l, lg_sent := lg_sent g @ (if b then [(sid, n)] else [])\<rparr>)"
| "limit_step isServer g (OpMaxData mx) =
     g\<lparr>lg_limits := snd (raiseMaxData (lg_limits g) mx)\<rparr>"
| "limit_step isServer g (OpMaxStreamData sid mx) =
     g\<lparr>lg_limits := snd (raiseMaxStreamData isServer (lg_limits g) sid mx)\<rparr>"
| "limit_step isServer g (OpMaxStreams bidi mx) =
     g\<lparr>lg_limits := snd (raiseMaxStreams (lg_limits g) bidi mx)\<rparr>"

fun send_op_ok :: "limit_op \<Rightarrow> bool" where
  "send_op_ok (OpSend sid n write_ok) = (n < 2 ^ 63)"
| "send_op_ok _ = True"

definition limit_run :: "bool \<Rightarrow> peerInitialLimits \<Rightarrow> limit_op list \<Rightarrow> limit_log" where
  "limit_run isServer peer ops = foldl (limit_step isServer) (initial_log peer) ops"

definition sent_total :: "(stream_id \<times> nat) list \<Rightarrow> nat" where
  "sent_total xs = sum_list (map snd xs)"

definition sent_on :: "stream_id \<Rightarrow> (stream_id \<times> nat) list \<Rightarrow> nat" where
  "sent_on sid xs = sum_list (map snd (filter (\<lambda>x. fst x = sid) xs))"

lemma sent_snoc [simp]:
  "sent_total (xs @ [x]) = sent_total xs + snd x" "sent_total [] = 0"
  "sent_on sid (xs @ [x]) = sent_on sid xs + (if fst x = sid then snd x else 0)" "sent_on sid [] = 0"
  by (simp_all add: sent_total_def sent_on_def)

text \<open>The log agrees with the counters.\<close>

definition log_agrees :: "limit_log \<Rightarrow> bool" where
  "log_agrees g \<longleftrightarrow> credit_invar (lg_limits g) \<and>
     sent_total (lg_sent g) = unat (dataSent (lg_limits g)) \<and>
     (\<forall>sid. sent_on sid (lg_sent g) = unat (go_index (streamSent (lg_limits g)) sid)) \<and>
     length (filter isBidirectionalStream (lg_ids g)) = unat (openedBidi (lg_limits g)) \<and>
     length (filter (\<lambda>sid. \<not> isBidirectionalStream sid) (lg_ids g)) =
       unat (openedUni (lg_limits g))"

text \<open>The allocated identifiers are this side's and carry their position.\<close>

definition ids_agree :: "bool \<Rightarrow> limit_log \<Rightarrow> bool" where
  "ids_agree isServer g \<longleftrightarrow> counter_ok (lg_counter g) \<and>
     (\<forall>sid \<in> set (lg_ids g). isOurStream isServer sid) \<and>
     (length (lg_ids g) \<le> 2 ^ 62 \<longrightarrow> 
        map (\<lambda>sid. unat sid div 4) (lg_ids g) = [0..<length (lg_ids g)]) \<and>
     (length (lg_ids g) < 2 ^ 62 \<longrightarrow> unat (lg_counter g) = 4 * length (lg_ids g))"

definition peer_initial :: "bool \<Rightarrow> peerInitialLimits \<Rightarrow> stream_id \<Rightarrow> u64" where
  "peer_initial isServer peer sid =
     (if \<not> isBidirectionalStream sid then peer_streamDataUni peer
      else if isOurStream isServer sid then peer_streamDataBidiRemote peer
      else peer_streamDataBidiLocal peer)"

text \<open>Every limit in force was granted: initially or by a capsule.\<close>

definition granted :: "bool \<Rightarrow> peerInitialLimits \<Rightarrow> limit_op list \<Rightarrow> sendLimits \<Rightarrow> bool" where
  "granted isServer peer ops l \<longleftrightarrow>
     (maxData l = peer_maxData peer \<or> OpMaxData (maxData l) \<in> set ops) \<and>
     (maxStreamsBidi l = peer_maxStreamsBidi peer \<or> OpMaxStreams True (maxStreamsBidi l) \<in> set ops) \<and>
     (maxStreamsUni l = peer_maxStreamsUni peer \<or> OpMaxStreams False (maxStreamsUni l) \<in> set ops) \<and>
     (\<forall>sid v. streamMax l sid = Some v \<longrightarrow>
        v = peer_initial isServer peer sid \<or>
        OpMaxStreamData sid v \<in> set ops) \<and>
     streamDataUni l = peer_streamDataUni peer \<and>
     streamDataBidiLocal l = peer_streamDataBidiLocal peer \<and>
     streamDataBidiRemote l = peer_streamDataBidiRemote peer"

lemma ensure_frame:
  "active (ensureStreamSendLimitLocked isServer l sid) = active l"
  "dataSent (ensureStreamSendLimitLocked isServer l sid) = dataSent l"
  "streamSent (ensureStreamSendLimitLocked isServer l sid) = streamSent l"
  "openedUni (ensureStreamSendLimitLocked isServer l sid) = openedUni l"
  "openedBidi (ensureStreamSendLimitLocked isServer l sid) = openedBidi l"
  by (auto simp: ensureStreamSendLimitLocked_def split: option.splits)

lemma log_agrees_init: "log_agrees (initial_log peer)"
  by (simp add: log_agrees_def initial_log_def credit_invar_def limits_ok_adopt)
     (simp add: adoptPeerSendLimits_def zero_sendLimits_def)

lemma reserve_frame:
  "\<exists>d m. snd (reserveSendData l sid n) = l\<lparr>dataSent := d, streamSent := m\<rparr>"
  by (intro exI [of _ "dataSent (snd (reserveSendData l sid n))"]
        exI [of _ "streamSent (snd (reserveSendData l sid n))"])
     (simp add: reserveSendData_def Let_def)

lemma refund_frame: "\<exists>d m. refundSendData l sid n = l\<lparr>dataSent := d, streamSent := m\<rparr>"
  by (intro exI [of _ "dataSent (refundSendData l sid n)"]
        exI [of _ "streamSent (refundSendData l sid n)"])
     (simp add: refundSendData_def Let_def)

lemma attempt_frame:
  assumes "try_send l sid n ok = (b, l')"
  shows "\<exists>d m. l' = l\<lparr>dataSent := d, streamSent := m\<rparr>"
proof -
  obtain d m where r: "snd (reserveSendData l sid n) = l\<lparr>dataSent := d, streamSent := m\<rparr>"
    using reserve_frame by blast
  obtain d' m' where f: "refundSendData (l\<lparr>dataSent := d, streamSent := m\<rparr>) sid n =
      l\<lparr>dataSent := d, streamSent := m\<rparr>\<lparr>dataSent := d', streamSent := m'\<rparr>"
    using refund_frame by blast
  from assms r have "l' = l\<lparr>dataSent := d, streamSent := m\<rparr> \<or>
      l' = refundSendData (l\<lparr>dataSent := d, streamSent := m\<rparr>) sid n"
    by (auto simp: try_send_def split: prod.splits option.splits if_splits)
  with f show ?thesis by auto
qed

lemma log_agrees_send:
  assumes "log_agrees g" and "n < 2 ^ 63"
  shows "log_agrees (limit_step isServer g (OpSend sid n ok))"
proof -
  let ?l = "lg_limits g"
  have inv: "credit_invar ?l" using assms(1) by (simp add: log_agrees_def)
  obtain b l' where a: "try_send ?l sid n ok = (b, l')" by fastforce
  obtain d m where l': "l' = ?l\<lparr>dataSent := d, streamSent := m\<rparr>" using attempt_frame [OF a] by blast
  have eff: "credit_invar l' \<and> session_left l' + (if b then n else 0) = session_left ?l \<and>
      (\<forall>s. stream_left l' s + (if b \<and> s = sid then n else 0) = stream_left ?l s)"
    using credit.attempt_sent [OF inv assms(2)] credit.attempt_not_sent [OF inv assms(2)] a
    unfolding try_send_attempt
    by (cases b) auto
  have le: "unat d \<le> unat (maxData ?l)" "unat (dataSent ?l) \<le> unat (maxData ?l)"
    "unat (go_index m s) \<le> unat (go_index (streamMax ?l) s)"
    "unat (go_index (streamSent ?l) s) \<le> unat (go_index (streamMax ?l) s)" for s
    using eff inv by (auto simp: l' credit_invar_def limits_ok_def word_le_nat_alt)
  have "unat d = unat (dataSent ?l) + (if b then n else 0)"
    using eff le(1,2) by (auto simp: l' session_left_def)
  moreover have "unat (go_index m s) =
      unat (go_index (streamSent ?l) s) + (if b \<and> s = sid then n else 0)" for s
  proof -
    have "stream_left l' s + (if b \<and> s = sid then n else 0) = stream_left ?l s"
      using eff by blast
    with le(3,4) [of s] show ?thesis by (simp add: l' stream_left_def split: if_splits)
  qed
  ultimately show ?thesis
    using assms(1) eff a by (auto simp: log_agrees_def l')
qed

lemma unat_inc: "x < (y :: 'a::len word) \<Longrightarrow> unat (x + 1) = Suc (unat x)"
  using unat_add_no_wrap [of x 1] unat_less_exp [of y] by (simp add: word_less_nat_alt)

lemma log_agrees_open:
  assumes "log_agrees g" and "counter_ok (lg_counter g)"
  shows "log_agrees (limit_step isServer g (OpOpen bidi))"
proof -
  let ?l = "lg_limits g"
  obtain r c l' where a: "allocLocalStream isServer (lg_counter g) ?l bidi = (r, c, l')"
    by (metis prod_cases3)
  have act: "active ?l" and ok: "limits_ok ?l"
    using assms(1) by (simp_all add: log_agrees_def credit_invar_def)
  have ok': "limits_ok l'" using limits_ok_alloc [OF ok a] .
  show ?thesis
  proof (cases r)
    case (Inl e)
    then have "l' = ?l" using a by (auto simp: allocLocalStream_def Let_def split: if_splits prod.splits)
    with Inl a assms(1) show ?thesis by (simp add: log_agrees_def)
  next
    case (Inr sid)
    have n: "nextStreamID isServer (lg_counter g) bidi = (sid, c)"
      and guard: "(if bidi then openedBidi ?l < maxStreamsBidi ?l else openedUni ?l < maxStreamsUni ?l)"
      and l': "l' = ensureStreamSendLimitLocked isServer
        (if bidi then ?l\<lparr>openedBidi := openedBidi ?l + 1\<rparr> else ?l\<lparr>openedUni := openedUni ?l + 1\<rparr>) sid"
      using a act Inr by (auto simp: allocLocalStream_def Let_def not_le split: if_splits prod.splits)
    have "isBidirectionalStream sid \<longleftrightarrow> bidi" using nextStreamID_spec(2) [OF assms(2) n] .
    with guard a Inr assms(1) act ok' show ?thesis
      by (cases bidi) (auto simp: log_agrees_def l' ensure_frame credit_invar_def unat_inc)
  qed
qed

lemma log_agrees_step:
  assumes "log_agrees g" and "counter_ok (lg_counter g)" and "send_op_ok x"
  shows "log_agrees (limit_step isServer g x)"
proof -
  have ok: "limits_ok (lg_limits g)" using assms(1) by (simp add: log_agrees_def credit_invar_def)
  show ?thesis
  proof (cases x)
    case (OpTrack sid)
  with assms(1) show ?thesis
    by (auto simp: log_agrees_def trackSendStream_def ensure_frame credit_invar_def limits_ok_ensure)
next
  case (OpMaxData mx)
  obtain e l' where r: "raiseMaxData (lg_limits g) mx = (e, l')" by fastforce
  from raiseMaxData_cases [OF r ok] r assms(1) OpMaxData show ?thesis
    by (simp add: log_agrees_def credit_invar_def)
next
  case (OpMaxStreamData sid mx)
  obtain e l' where r: "raiseMaxStreamData isServer (lg_limits g) sid mx = (e, l')" by fastforce
  from raiseMaxStreamData_cases [OF r ok] r assms(1) OpMaxStreamData show ?thesis
    by (simp add: log_agrees_def credit_invar_def)
next
  case (OpMaxStreams bidi mx)
  obtain e l' where r: "raiseMaxStreams (lg_limits g) bidi mx = (e, l')" by fastforce
  have "active l'" using active_mono(5) [of "lg_limits g" bidi mx] r assms(1)
    by (simp add: log_agrees_def credit_invar_def)
  with raiseMaxStreams_cases [OF r ok] r assms(1) OpMaxStreams show ?thesis
    by (simp add: log_agrees_def credit_invar_def)
  qed (use assms log_agrees_send log_agrees_open in \<open>simp_all del: limit_step.simps\<close>)
qed

lemma ids_agree_step:
  assumes "ids_agree isServer g"
  shows "ids_agree isServer (limit_step isServer g x)"
proof (cases x)
  case (OpOpen bidi)
  obtain r c l' where a: "allocLocalStream isServer (lg_counter g) (lg_limits g) bidi = (r, c, l')"
    by (metis prod_cases3)
  show ?thesis
  proof (cases r)
    case (Inl e)
    with a assms OpOpen show ?thesis
      by (auto simp: ids_agree_def allocLocalStream_def Let_def split: if_splits prod.splits)
  next
    case (Inr sid)
    have n: "nextStreamID isServer (lg_counter g) bidi = (sid, c)"
      using a Inr by (auto simp: allocLocalStream_def Let_def split: if_splits prod.splits)
    then have c: "c = lg_counter g + 4" by (simp add: nextStreamID_def Let_def)
    have ok: "counter_ok (lg_counter g)" using assms by (simp add: ids_agree_def)
    have u: "unat c = 4 * Suc (length (lg_ids g))" if "length (lg_ids g) < 2 ^ 62 - 1"
    proof -
      have "unat (lg_counter g) = 4 * length (lg_ids g)" using assms that by (simp add: ids_agree_def)
      moreover from this that have "unat (lg_counter g) + unat (4::u64) < 2 ^ LENGTH(64)" by simp
      ultimately show ?thesis unfolding c by (subst unat_add_no_wrap) simp_all
    qed
    have d: "unat sid div 4 = length (lg_ids g)" if "length (lg_ids g) < 2 ^ 62"
      using assms that nextStreamID_spec(3) [OF ok n] by (simp add: ids_agree_def)
    show ?thesis
      using assms OpOpen a Inr u d nextStreamID_spec [OF ok n]
      by (auto simp: ids_agree_def)
  qed
qed (use assms in \<open>auto simp: ids_agree_def split: prod.splits\<close>)

lemma granted_mono: "granted isServer peer ops l \<Longrightarrow> granted isServer peer (ops @ [x]) l"
  by (auto simp: granted_def)

lemma granted_ensure:
  assumes "granted isServer peer ops l"
  shows "granted isServer peer ops (ensureStreamSendLimitLocked isServer l sid)"
proof -
  have "initialStreamSendLimitLocked isServer l sid = peer_initial isServer peer sid"
    using assms by (simp add: granted_def initialStreamSendLimitLocked_def peer_initial_def)
  with assms show ?thesis
    by (auto simp: granted_def ensureStreamSendLimitLocked_def split: option.splits)
qed

lemma granted_counters:
  "granted isServer peer ops (l\<lparr>openedBidi := n\<rparr>) = granted isServer peer ops l"
  "granted isServer peer ops (l\<lparr>openedUni := n\<rparr>) = granted isServer peer ops l"
  "granted isServer peer ops (l\<lparr>dataSent := n, streamSent := m\<rparr>) = granted isServer peer ops l"
  by (simp_all add: granted_def)

lemma granted_alloc:
  "granted isServer peer ops l \<Longrightarrow> allocLocalStream isServer c l bidi = (r, c', l') \<Longrightarrow>
   granted isServer peer ops l'"
  by (auto simp: allocLocalStream_def Let_def granted_ensure granted_counters
        split: if_splits prod.splits)

lemma granted_step:
  assumes "granted isServer peer ops (lg_limits g)"
  shows "granted isServer peer (ops @ [x]) (lg_limits (limit_step isServer g x))"
proof (cases x)
  case (OpOpen bidi)
  obtain r c l' where a: "allocLocalStream isServer (lg_counter g) (lg_limits g) bidi = (r, c, l')"
    by (metis prod_cases3)
  from granted_alloc [OF granted_mono [OF assms] a] a OpOpen show ?thesis
    by (cases r) simp_all
next
  case (OpTrack sid)
  with granted_mono [OF assms] show ?thesis by (simp add: trackSendStream_def granted_ensure)
next
  case (OpSend sid n ok)
  obtain b l' where a: "try_send (lg_limits g) sid n ok = (b, l')" by fastforce
  from attempt_frame [OF a] a granted_mono [OF assms] OpSend show ?thesis
    by (auto simp: granted_counters)
next
  case (OpMaxData mx)
  with assms show ?thesis by (auto simp: raiseMaxData_def Let_def granted_def)
next
  case (OpMaxStreamData sid mx)
  with assms show ?thesis by (auto simp: raiseMaxStreamData_def Let_def granted_def)
next
  case (OpMaxStreams bidi mx)
  with assms show ?thesis by (auto simp: raiseMaxStreams_def Let_def granted_def)
qed

lemma limit_run_snoc:
  "limit_run isServer peer (ops @ [x]) = limit_step isServer (limit_run isServer peer ops) x"
  by (simp add: limit_run_def)

lemma limit_run_invariant:
  assumes "list_all send_op_ok ops"
  shows "log_agrees (limit_run isServer peer ops) \<and> ids_agree isServer (limit_run isServer peer ops) \<and>
    granted isServer peer ops (lg_limits (limit_run isServer peer ops))"
  using assms
proof (induction ops rule: rev_induct)
  case Nil
  show ?case
    using log_agrees_init [of peer]
    by (simp add: limit_run_def ids_agree_def counter_ok_def granted_def initial_log_def adoptPeerSendLimits_def
          zero_sendLimits_def)
next
  case (snoc x ops)
  then have IH: "log_agrees (limit_run isServer peer ops)" "ids_agree isServer (limit_run isServer peer ops)"
    "granted isServer peer ops (lg_limits (limit_run isServer peer ops))" and x: "send_op_ok x"
    by simp_all
  have "counter_ok (lg_counter (limit_run isServer peer ops))"
    using IH(2) by (simp add: ids_agree_def)
  from log_agrees_step [OF IH(1) this x] ids_agree_step [OF IH(2)] granted_step [OF IH(3)]
  show ?case by (simp add: limit_run_snoc)
qed

text \<open>C6: Over any history of opening streams, sending, failed writes with their refunds, and limit
  capsules, an endpoint stays within its peer's grant: all the bytes that went out, counted without
  wrap-around, are at most the session limit in force, the bytes of each stream at most that
  stream's limit, and the streams opened of each kind at most their limit; and every limit in
  force is one the peer announced, initially or by a capsule.\<close>
theorem send_within_grant:
  assumes "list_all send_op_ok ops"
    and g_def: "g = limit_run isServer peer ops"
  shows "sent_total (lg_sent g) \<le> unat (maxData (lg_limits g)) \<and>
    (\<forall>sid. sent_on sid (lg_sent g) \<le> unat (go_index (streamMax (lg_limits g)) sid)) \<and>
    length (filter isBidirectionalStream (lg_ids g)) \<le> unat (maxStreamsBidi (lg_limits g)) \<and>
    length (filter (\<lambda>sid. \<not> isBidirectionalStream sid) (lg_ids g)) \<le> unat (maxStreamsUni (lg_limits g)) \<and>
    granted isServer peer ops (lg_limits g)"
proof -
  have inv: "log_agrees g" "granted isServer peer ops (lg_limits g)"
    using limit_run_invariant [OF assms(1), of isServer peer] by (simp_all add: g_def)
  then have "limits_ok (lg_limits g)" by (simp add: log_agrees_def credit_invar_def)
  with inv show ?thesis by (simp add: log_agrees_def limits_ok_def word_le_nat_alt)
qed

definition demo_peer :: peerInitialLimits where
  "demo_peer = \<lparr>peer_maxData = 5, peer_maxStreamsUni = 0, peer_maxStreamsBidi = 1,
     peer_streamDataUni = 0, peer_streamDataBidiLocal = 0, peer_streamDataBidiRemote = 4\<rparr>"

definition demo_ops :: "limit_op list" where
  "demo_ops = [OpOpen True, OpOpen True, OpSend 0 3 True, OpSend 0 2 True, OpSend 0 1 False,
     OpMaxStreamData 0 9, OpSend 0 2 True, OpSend 0 1 True, OpMaxData 6, OpSend 0 1 True]"

theorem send_within_grant_witness:
  "list_all send_op_ok demo_ops \<and>
   lg_sent (limit_run False demo_peer demo_ops) = [(0, 3), (0, 2), (0, 1)] \<and>
   lg_ids (limit_run False demo_peer demo_ops) = [0] \<and>
   sent_total (lg_sent (limit_run False demo_peer demo_ops)) \<le>
     unat (maxData (lg_limits (limit_run False demo_peer demo_ops)))"
proof -
  have ok: "list_all send_op_ok demo_ops" by (simp add: demo_ops_def)
  have e: "lg_sent (limit_run False demo_peer demo_ops) = [(0, 3), (0, 2), (0, 1)]"
    "lg_ids (limit_run False demo_peer demo_ops) = [0]"
    by code_simp+
  from send_within_grant [OF ok refl, of False demo_peer] ok e show ?thesis by simp
qed

lemma distinct_of_map: "map f xs = [0..<n] \<Longrightarrow> distinct xs"
  by (metis distinct_map distinct_upt)

text \<open>C23: The stream identifiers an endpoint allocates are pairwise distinct, have its role bit, and
  the identifiers two endpoints of opposite roles allocate never coincide (2 to the power 62 streams is
  where the 64-bit counter wraps around).\<close>
theorem stream_ids_unique:
  assumes "list_all send_op_ok ops" and "list_all send_op_ok ops'"
    and "length (lg_ids (limit_run isServer peer ops)) \<le> 2 ^ 62"
  shows "distinct (lg_ids (limit_run isServer peer ops)) \<and>
    set (lg_ids (limit_run isServer peer ops)) \<inter> set (lg_ids (limit_run (\<not> isServer) peer' ops')) = {}"
proof -
  have a: "ids_agree isServer (limit_run isServer peer ops)"
    "ids_agree (\<not> isServer) (limit_run (\<not> isServer) peer' ops')"
    using limit_run_invariant assms by blast+
  with assms(3) have "distinct (lg_ids (limit_run isServer peer ops))"
    by (auto simp: ids_agree_def intro: distinct_of_map)
  with a show ?thesis by (auto simp: ids_agree_def isOurStream_bit)
qed

theorem stream_ids_unique_witness:
  "lg_ids (limit_run False demo_peer [OpOpen True]) = [0] \<and>
   lg_ids (limit_run True (demo_peer\<lparr>peer_maxStreamsUni := 2\<rparr>) [OpOpen True, OpOpen False]) = [1, 7] \<and>
   set (lg_ids (limit_run False demo_peer [OpOpen True])) \<inter>
     set (lg_ids (limit_run True (demo_peer\<lparr>peer_maxStreamsUni := 2\<rparr>) [OpOpen True, OpOpen False])) = {}"
proof -
  have e: "lg_ids (limit_run False demo_peer [OpOpen True]) = [0]"
    "lg_ids (limit_run True (demo_peer\<lparr>peer_maxStreamsUni := 2\<rparr>) [OpOpen True, OpOpen False]) = [1, 7]"
    by code_simp+
  have ok: "list_all send_op_ok [OpOpen True]" "list_all send_op_ok [OpOpen True, OpOpen False]"
    by simp_all
  have "length (lg_ids (limit_run False demo_peer [OpOpen True])) \<le> 2 ^ 62" by (simp add: e(1))
  from stream_ids_unique [OF ok this, of "demo_peer\<lparr>peer_maxStreamsUni := 2\<rparr>"] e show ?thesis
    by simp
qed

text \<open>C24: A reservation of a positive amount succeeds exactly when the session and the stream both
  have that much left; it fails with the send-limit sentinel, naming the session first, and a failure
  leaves the limits untouched; with no limits in force nothing is refused or counted.\<close>
theorem reserveSendData_spec:
  assumes "limits_ok l" and "0 < n" and "n < 2 ^ 63"
  shows "reserveSendData l sid n =
    (if \<not> active l then (None, l)
     else if session_left l < n then (Some (sendLimitError ''session data''), l)
     else if stream_left l sid < n then (Some (sendLimitError ''stream data''), l)
     else (None, l\<lparr>dataSent := of_nat (unat (dataSent l) + n),
       streamSent := (streamSent l)(sid \<mapsto> of_nat (unat (go_index (streamSent l) sid) + n))\<rparr>)) \<and>
    errors_Is (sendLimitError kind) ErrSendLimit"
proof -
  have u: "unat (of_nat n :: u64) = n" using assms(3) by simp
  have "of_nat n > maxData l - dataSent l \<longleftrightarrow> session_left l < n"
    using limits_okD(1) [OF assms(1)] by (simp add: word_less_nat_alt u session_left_def unat_diff_le)
  moreover have "of_nat n > go_index (streamMax l) sid - go_index (streamSent l) sid
      \<longleftrightarrow> stream_left l sid < n"
    using limits_okD(2) [OF assms(1), of sid]
    by (simp add: word_less_nat_alt u stream_left_def unat_diff_le)
  moreover have "\<not> dataSent l > maxData l" "\<not> go_index (streamSent l) sid > go_index (streamMax l) sid"
    using limits_okD [OF assms(1)] by (simp_all add: not_less)
  ultimately show ?thesis
    using assms(2) by (simp add: reserveSendData_def Let_def sendLimitError_def)
qed

theorem reserveSendData_spec_witness:
  "reserveSendData (adoptPeerSendLimits zero_sendLimits demo_peer) 0 6 =
     (Some (sendLimitError ''session data''), adoptPeerSendLimits zero_sendLimits demo_peer) \<and>
   errors_Is (sendLimitError ''session data'') ErrSendLimit"
proof -
  have "session_left (adoptPeerSendLimits zero_sendLimits demo_peer) = 5"
    "active (adoptPeerSendLimits zero_sendLimits demo_peer)"
    by (simp_all add: session_left_def adoptPeerSendLimits_def zero_sendLimits_def demo_peer_def)
  then show ?thesis
    using reserveSendData_spec [OF limits_ok_adopt [of demo_peer], of 6 0 "''session data''"]
    by simp
qed

text \<open>A limit capsule is accepted exactly when it does not lower the limit it names (and, for
  a stream count, stays within 2 to the power 60), and acceptance installs that value;
  a rejected one changes no limit and is a flow-control error.\<close>
theorem raise_limit_outcomes:
  "(if maxData l \<le> mx then raiseMaxData l mx = (None, l\<lparr>active := True, maxData := mx\<rparr>)
    else \<exists>msg. raiseMaxData l mx = (Some (FlowControlError msg), l\<lparr>active := True\<rparr>)) \<and>
   (if (case streamMax l sid of Some m \<Rightarrow> m | None \<Rightarrow> initialStreamSendLimitLocked isServer l sid) \<le> mx
    then raiseMaxStreamData isServer l sid mx =
      (None, l\<lparr>active := True, streamMax := (streamMax l)(sid \<mapsto> mx)\<rparr>)
    else \<exists>msg. raiseMaxStreamData isServer l sid mx = (Some (FlowControlError msg), l\<lparr>active := True\<rparr>)) \<and>
   (if mx > 2 ^ 60 then \<exists>msg. raiseMaxStreams l bidi mx = (Some (FlowControlError msg), l)
    else if (if bidi then maxStreamsBidi l else maxStreamsUni l) \<le> mx
    then raiseMaxStreams l bidi mx =
      (None, if bidi then l\<lparr>active := True, maxStreamsBidi := mx\<rparr>
             else l\<lparr>active := True, maxStreamsUni := mx\<rparr>)
    else \<exists>msg. raiseMaxStreams l bidi mx = (Some (FlowControlError msg), l\<lparr>active := True\<rparr>))"
  (is "?data \<and> ?stream \<and> ?count")
proof (intro conjI)
  show ?data by (simp add: raiseMaxData_def not_le Let_def)
  have i: "initialStreamSendLimitLocked isServer (l\<lparr>active := True\<rparr>) sid =
      initialStreamSendLimitLocked isServer l sid"
    by (simp add: initialStreamSendLimitLocked_def)
  show ?stream
    by (cases "streamMax l sid") (simp_all add: raiseMaxStreamData_def not_le Let_def i)
  show ?count
    by (cases bidi) (auto simp: raiseMaxStreams_def Let_def maxStreamCount_def)
qed

text \<open>C27: A session that has no limits in force opens streams without recording a limit for them;
  the first limit capsule puts limits in force, and from then on every write on such a
  stream is refused, however large the session limit it carries.\<close>
theorem activation_starves_open_streams:
  assumes "\<not> active l" and "streamMax l = Map.empty" and "limits_ok l" and "0 < n" and "n < 2 ^ 63"
    and "allocLocalStream isServer c l bidi = (Inr sid, c', l')"
    and "raiseMaxData l' mx = (None, l'')"
  shows "fst (reserveSendData l' sid n) = None \<and>
    (\<exists>kind. reserveSendData l'' sid n = (Some (sendLimitError kind), l''))"
proof -
  have l': "l' = l" using assms(1,6) by (auto simp: allocLocalStream_def Let_def split: if_splits prod.splits)
  have l'': "l'' = l\<lparr>active := True, maxData := mx\<rparr>" and "maxData l \<le> mx"
    using assms(7) by (auto simp: l' raiseMaxData_def Let_def split: if_splits)
  have u: "(0::u64) < of_nat n" using assms(4,5) by (simp add: word_less_nat_alt)
  have "go_index (streamMax l'') sid = 0" by (simp add: l'' assms(2))
  moreover have "go_index (streamSent l) sid = 0"
    using limits_okD(2) [OF assms(3), of sid] by (simp add: assms(2))
  ultimately show ?thesis
    using u assms(1,2,4) by (auto simp: l' reserveSendData_def Let_def l'')
qed

theorem activation_starves_open_streams_witness:
  "fst (reserveSendData zero_sendLimits 0 1) = None \<and>
   (\<exists>kind. reserveSendData (zero_sendLimits\<lparr>active := True, maxData := 1000\<rparr>) 0 1 =
      (Some (sendLimitError kind), zero_sendLimits\<lparr>active := True, maxData := 1000\<rparr>))"
proof -
  have a: "allocLocalStream False 0 zero_sendLimits True = (Inr 0, 4, zero_sendLimits)"
    "raiseMaxData zero_sendLimits 1000 = (None, zero_sendLimits\<lparr>active := True, maxData := 1000\<rparr>)"
    by (simp_all add: allocLocalStream_def nextStreamID_def zero_sendLimits_def raiseMaxData_def)
  show ?thesis
    by (rule activation_starves_open_streams [OF _ _ limits_ok_zero _ _ a])
       (simp_all add: zero_sendLimits_def)
qed

end
