(* ===== verification/Capsule.thy ===== *)
theory Capsule
  imports Varint
begin

text \<open>
  Capsules: capsule.go (the capsule types and their names) and the interface to
  \<^verbatim>\<open>http3.ParseCapsule\<close> and \<^verbatim>\<open>http3.WriteCapsule\<close> of quic-go, which are not part of the
  repository. The interface is the record \<open>capsule_ops\<close> with the laws of the locale
  \<open>capsule_codec\<close>; the instance \<open>quicwire_capsule\<close> frames capsules with the repository's own
  varint code, and shows that the laws can hold together.
\<close>

section \<open>Capsule types\<close>

type_synonym CapsuleType = u64

definition CapsulePadding :: CapsuleType where "CapsulePadding = 0x190B4D38"
definition CapsuleWTResetStream :: CapsuleType where "CapsuleWTResetStream = 0x190B4D39"
definition CapsuleWTStopSending :: CapsuleType where "CapsuleWTStopSending = 0x190B4D3A"
definition CapsuleWTStream :: CapsuleType where "CapsuleWTStream = 0x190B4D3C"
definition CapsuleWTStreamFin :: CapsuleType where "CapsuleWTStreamFin = 0x190B4D3B"
definition CapsuleWTMaxData :: CapsuleType where "CapsuleWTMaxData = 0x190B4D3D"
definition CapsuleWTMaxStreamData :: CapsuleType where "CapsuleWTMaxStreamData = 0x190B4D3E"
definition CapsuleWTMaxStreamsBidi :: CapsuleType where "CapsuleWTMaxStreamsBidi = 0x190B4D3F"
definition CapsuleWTMaxStreamsUni :: CapsuleType where "CapsuleWTMaxStreamsUni = 0x190B4D40"
definition CapsuleWTDataBlocked :: CapsuleType where "CapsuleWTDataBlocked = 0x190B4D41"
definition CapsuleWTStreamDataBlocked :: CapsuleType where
  "CapsuleWTStreamDataBlocked = 0x190B4D42"
definition CapsuleWTStreamsBlockedBidi :: CapsuleType where
  "CapsuleWTStreamsBlockedBidi = 0x190B4D43"
definition CapsuleWTStreamsBlockedUni :: CapsuleType where
  "CapsuleWTStreamsBlockedUni = 0x190B4D44"
definition CapsuleDatagram :: CapsuleType where "CapsuleDatagram = 0x00"
definition CapsuleWTCloseSession :: CapsuleType where "CapsuleWTCloseSession = 0x2843"
definition CapsuleWTDrainSession :: CapsuleType where "CapsuleWTDrainSession = 0x78ae"

lemmas capsule_types =
  CapsulePadding_def CapsuleWTResetStream_def CapsuleWTStopSending_def CapsuleWTStream_def
  CapsuleWTStreamFin_def CapsuleWTMaxData_def CapsuleWTMaxStreamData_def
  CapsuleWTMaxStreamsBidi_def CapsuleWTMaxStreamsUni_def CapsuleWTDataBlocked_def
  CapsuleWTStreamDataBlocked_def CapsuleWTStreamsBlockedBidi_def CapsuleWTStreamsBlockedUni_def
  CapsuleDatagram_def CapsuleWTCloseSession_def CapsuleWTDrainSession_def

definition CapsuleType_String :: "CapsuleType \<Rightarrow> string" where
  "CapsuleType_String c =
     (if c = CapsulePadding then ''PADDING''
      else if c = CapsuleWTResetStream then ''WT_RESET_STREAM''
      else if c = CapsuleWTStopSending then ''WT_STOP_SENDING''
      else if c = CapsuleWTStream then ''WT_STREAM''
      else if c = CapsuleWTStreamFin then ''WT_STREAM_FIN''
      else if c = CapsuleWTMaxData then ''WT_MAX_DATA''
      else if c = CapsuleWTMaxStreamData then ''WT_MAX_STREAM_DATA''
      else if c = CapsuleWTMaxStreamsBidi then ''WT_MAX_STREAMS_BIDI''
      else if c = CapsuleWTMaxStreamsUni then ''WT_MAX_STREAMS_UNI''
      else if c = CapsuleWTDataBlocked then ''WT_DATA_BLOCKED''
      else if c = CapsuleWTStreamDataBlocked then ''WT_STREAM_DATA_BLOCKED''
      else if c = CapsuleWTStreamsBlockedBidi then ''WT_STREAMS_BLOCKED_BIDI''
      else if c = CapsuleWTStreamsBlockedUni then ''WT_STREAMS_BLOCKED_UNI''
      else if c = CapsuleDatagram then ''DATAGRAM''
      else if c = CapsuleWTCloseSession then ''WT_CLOSE_SESSION''
      else if c = CapsuleWTDrainSession then ''WT_DRAIN_SESSION''
      else ''unknown(0x'' @ fmt_X (unat c) @ '')'')"

section \<open>The framing interface\<close>

text \<open>
  A reader is the bytes it will deliver and the error it returns after them. \<open>cap_parse b e\<close> is
  \<^verbatim>\<open>http3.ParseCapsule\<close> on such a reader: an error, or the capsule type, the content reader
  (its bytes and its end, \<open>EOF\<close> for a complete capsule) and the bytes that follow the capsule.
  \<open>cap_write t d\<close> is what \<^verbatim>\<open>http3.WriteCapsule\<close> puts on the writer.
\<close>

record capsule_ops =
  cap_write :: "CapsuleType \<Rightarrow> bytes \<Rightarrow> bytes option"
  cap_parse :: "bytes \<Rightarrow> go_err \<Rightarrow> go_err + CapsuleType \<times> bytes \<times> go_err \<times> bytes"

locale capsule_codec =
  fixes K :: capsule_ops
  assumes write_ok: "unat t < 2 ^ 62 \<Longrightarrow> length d < 2 ^ 62 \<Longrightarrow> \<exists>bs. cap_write K t d = Some bs"
    and parse_write: "cap_write K t d = Some bs \<Longrightarrow> length d < 2 ^ 62 \<Longrightarrow>
           cap_parse K (bs @ rest) e = Inr (t, d, EOF, rest)"
    and parse_end: "cap_parse K [] e = Inl e"
    and parse_progress: "cap_parse K b e = Inr (t, c, ce, rest) \<Longrightarrow> length rest < length b"
begin

text \<open>The bytes a writer produces for a list of capsules.\<close>

primrec write_all :: "(CapsuleType \<times> bytes) list \<Rightarrow> bytes option" where
  "write_all [] = Some []"
| "write_all (c # cs) =
     (case (cap_write K (fst c) (snd c), write_all cs) of
        (Some b, Some bs) \<Rightarrow> Some (b @ bs)
      | _ \<Rightarrow> None)"

lemma write_all_ok:
  assumes "\<And>t d. (t, d) \<in> set cs \<Longrightarrow> unat t < 2 ^ 62 \<and> length d < 2 ^ 62"
  shows "\<exists>bs. write_all cs = Some bs"
  using assms
proof (induction cs)
  case (Cons c cs)
  obtain t d where c: "c = (t, d)" by (cases c)
  with Cons.prems have "unat t < 2 ^ 62" "length d < 2 ^ 62" by auto
  then obtain b where "cap_write K t d = Some b" using write_ok by blast
  moreover obtain bs where "write_all cs = Some bs" using Cons by auto
  ultimately show ?case by (simp add: c)
qed simp

end

text \<open>Both codecs together: what a session is given.\<close>

locale wire = varint_codec V + capsule_codec K for V K

section \<open>An instance\<close>

definition quicwire_capsule :: capsule_ops where
  "quicwire_capsule =
    \<lparr>cap_write = (\<lambda>t d. case AppendVarint [] t of
                    None \<Rightarrow> None | Some b \<Rightarrow> AppendVarintBytes b d),
     cap_parse = (\<lambda>b e.
       let eof = (if e = EOF then ErrUnexpectedEOF else e)
       in if b = [] then Inl e
          else case ConsumeVarint b of (t, n) \<Rightarrow>
            if n < 0 then Inl eof
            else let r = drop (nat n) b in
              case ConsumeVarint r of (l, m) \<Rightarrow>
                if m < 0 then Inl eof
                else let c = drop (nat m) r in
                  if unat l \<le> length c then Inr (t, take (unat l) c, EOF, drop (unat l) c)
                  else Inr (t, c, eof, []))\<rparr>"

lemma AppendVarintBytes_append:
  "AppendVarintBytes b v = map_option ((@) b) (AppendVarintBytes [] v)"
  by (simp add: AppendVarintBytes_def AppendVarint_append [of b] option.map_comp
      split: option.splits)

lemma quicwire_capsule_write:
  assumes "cap_write quicwire_capsule t d = Some bs"
  obtains p l where "AppendVarint [] t = Some p" "AppendVarint [] (of_nat (length d)) = Some l"
    and "bs = p @ l @ d"
proof -
  from assms obtain p where p: "AppendVarint [] t = Some p" and "AppendVarintBytes p d = Some bs"
    by (auto simp: quicwire_capsule_def split: option.splits)
  then obtain q where "AppendVarintBytes [] d = Some q" "bs = p @ q"
    by (auto simp: AppendVarintBytes_append [of p])
  then obtain l where "AppendVarint [] (of_nat (length d)) = Some l" "bs = p @ l @ d"
    by (auto simp: AppendVarintBytes_def split: option.splits)
  with p show ?thesis by (rule that)
qed

interpretation qk: capsule_codec quicwire_capsule
proof (unfold_locales, goal_cases)
  case (1 t d)
  then have "AppendVarint [] t \<noteq> None" "AppendVarint [] (of_nat (length d) :: u64) \<noteq> None"
    by (simp_all add: AppendVarint_None_iff)
  then obtain p l where "AppendVarint [] t = Some p" "AppendVarint [] (of_nat (length d)) = Some l"
    by blast
  then show ?case
    by (simp add: quicwire_capsule_def AppendVarintBytes_def AppendVarint_append [of p])
next
  case (2 t d bs rest e)
  from 2(1) obtain p l where p: "AppendVarint [] t = Some p"
    and l: "AppendVarint [] (of_nat (length d)) = Some l" and bs: "bs = p @ l @ d"
    by (rule quicwire_capsule_write)
  have "bs @ rest \<noteq> []" using AppendVarint_length [OF p] bs by auto
  moreover have "ConsumeVarint (bs @ rest) = (t, int (length p))"
    using ConsumeVarint_append [OF p, of "l @ d @ rest"] by (simp add: bs)
  moreover have "ConsumeVarint (l @ d @ rest) = (of_nat (length d), int (length l))"
    using ConsumeVarint_append [OF l, of "d @ rest"] by simp
  ultimately show ?case using 2(2) by (simp add: quicwire_capsule_def Let_def bs)
next
  case (3 e)
  show ?case by (simp add: quicwire_capsule_def Let_def)
next
  case (4 b e t c ce rest)
  then obtain n where "ConsumeVarint b = (t, n)" "0 \<le> n" and
    "length rest \<le> length (drop (nat n) b)"
    by (fastforce simp: quicwire_capsule_def Let_def split: if_splits prod.splits)
  then show ?case using ConsumeVarint_bounds [of b t n] by auto
qed

interpretation qwk: wire quicwire_varint quicwire_capsule
  by unfold_locales

section \<open>Properties\<close>

lemma unknown_capsule_name:
  "CapsuleType_String c = ''unknown(0x'' @ fmt_X (unat c) @ '')'' \<or>
   hd (CapsuleType_String c) \<in> {CHR ''P'', CHR ''W'', CHR ''D''}"
  by (simp add: CapsuleType_String_def)

text \<open>Capsule names identify capsule types: two capsule types print the same only if they are
  the same, over all 64-bit values.\<close>

theorem CapsuleType_String_inj: "CapsuleType_String c = CapsuleType_String d \<longleftrightarrow> c = d"
proof
  assume eq: "CapsuleType_String c = CapsuleType_String d"
  show "c = d"
  proof (cases "hd (CapsuleType_String c) \<in> {CHR ''P'', CHR ''W'', CHR ''D''}")
    case True
    then have "CapsuleType_String c \<noteq> ''unknown(0x'' @ fmt_X (unat c) @ '')''"
      "CapsuleType_String d \<noteq> ''unknown(0x'' @ fmt_X (unat d) @ '')''"
      using eq by auto
    with eq show ?thesis
      by (auto simp: CapsuleType_String_def split: if_splits)
  next
    case False
    with eq unknown_capsule_name [of c] unknown_capsule_name [of d]
    have "fmt_X (unat c) @ '')'' = fmt_X (unat d) @ '')''" by auto
    then have "unat c = unat d" using fmt_X_inj by blast
    then show ?thesis by (rule word_unat_eq_iff [THEN iffD2])
  qed
qed simp

end
