(* ===== verification/Buffer_Interface.thy ===== *)
theory Buffer_Interface
  imports Prelude
begin

text \<open>
  What a session relies on when it delivers received bytes: a buffer with a byte limit that
  takes a payload whole or not at all. The datagram buffer and the stream buffers of a session
  both provide it. A limit of zero or less means no limit.
\<close>

locale receive_buffer =
  fixes put :: "'b \<Rightarrow> bytes \<Rightarrow> bool \<times> 'b"
    and shut :: "'b \<Rightarrow> 'b"
    and used :: "'b \<Rightarrow> int"
    and limit :: "'b \<Rightarrow> int"
    and is_shut :: "'b \<Rightarrow> bool"
    and invar :: "'b \<Rightarrow> bool"
  assumes put_ok_iff: "invar b \<Longrightarrow>
        fst (put b p) \<longleftrightarrow> \<not> is_shut b \<and> (0 < limit b \<longrightarrow> used b + int (length p) \<le> limit b)"
    and put_used: "invar b \<Longrightarrow>
        used (snd (put b p)) = used b + (if fst (put b p) then int (length p) else 0)"
    and put_refused: "\<not> fst (put b p) \<Longrightarrow> snd (put b p) = b"
    and put_frame: "limit (snd (put b p)) = limit b" "is_shut (snd (put b p)) = is_shut b"
    and put_invar: "invar b \<Longrightarrow> invar (snd (put b p))"
    and shut_is_shut: "is_shut (shut b)"
    and shut_frame: "limit (shut b) = limit b" "used (shut b) = used b"
    and shut_invar: "invar b \<Longrightarrow> invar (shut b)"
    and invar_limit: "invar b \<Longrightarrow> 0 < limit b \<Longrightarrow> used b \<le> limit b"
begin

text \<open>Offering payloads one after another, with the payloads that were taken.\<close>

primrec offer :: "'b \<Rightarrow> bytes list \<Rightarrow> bytes list \<times> 'b" where
  "offer b [] = ([], b)"
| "offer b (p # ps) =
     (let r = offer (snd (put b p)) ps
      in ((if fst (put b p) then p # fst r else fst r), snd r))"

lemma offer_invar: "invar b \<Longrightarrow> invar (snd (offer b ps))"
  by (induction ps arbitrary: b) (auto simp: put_invar Let_def)

lemma offer_frame: "limit (snd (offer b ps)) = limit b" "is_shut (snd (offer b ps)) = is_shut b"
  by (induction ps arbitrary: b) (auto simp: put_frame Let_def)

lemma offer_used:
  "invar b \<Longrightarrow>
   used (snd (offer b ps)) = used b + int (length (concat (fst (offer b ps))))"
proof (induction ps arbitrary: b)
  case (Cons p ps)
  with put_invar [of b p] put_used [of b p] show ?case
    by (auto simp: Let_def)
qed simp

text \<open>However many payloads arrive, what is taken stays within the limit.\<close>

lemma offer_bounded:
  assumes "invar b" and "0 < limit b"
  shows "used b + int (length (concat (fst (offer b ps)))) \<le> limit b"
  using offer_used [OF assms(1)] invar_limit [OF offer_invar [OF assms(1)]] assms(2)
    offer_frame(1) by metis

lemma offer_shut: "invar b \<Longrightarrow> is_shut b \<Longrightarrow> offer b ps = ([], b)"
proof (induction ps)
  case (Cons p ps)
  then have "\<not> fst (put b p)" by (simp add: put_ok_iff)
  then have "put b p = (False, b)" using put_refused [of b p] by (cases "put b p") auto
  with Cons show ?case by simp
qed simp

text \<open>Payloads that fit together are all taken, in order.\<close>

lemma offer_all:
  assumes "invar b" and "\<not> is_shut b"
    and "0 < limit b \<longrightarrow> used b + int (length (concat ps)) \<le> limit b"
  shows "fst (offer b ps) = ps"
  using assms
proof (induction ps arbitrary: b)
  case (Cons p ps)
  have "fst (put b p)" using Cons.prems by (auto simp: put_ok_iff)
  moreover have "fst (offer (snd (put b p)) ps) = ps"
    using Cons.prems calculation
    by (intro Cons.IH) (auto simp: put_invar put_frame put_used)
  ultimately show ?case by (simp add: Let_def)
qed simp

end

end
