(* ===== verification/Stream_Buffer.thy ===== *)
theory Stream_Buffer
  imports Buffer_Interface Go_Errors
begin

text \<open>
  stream.go, the streamReceiveBuffer: the byte queue behind every stream that can be read. A
  write is taken whole or refused; a read waits while the buffer is empty and open, then copies
  what fits. \<open>None\<close> as the result of a read is the wait on the condition variable.
\<close>

section \<open>The buffer\<close>

record streamReceiveBuffer =
  srb_data :: bytes
  srb_closed :: bool
  srb_maxBytes :: int

definition newStreamReceiveBuffer :: "int \<Rightarrow> streamReceiveBuffer" where
  "newStreamReceiveBuffer maxBytes = \<lparr>srb_data = [], srb_closed = False, srb_maxBytes = maxBytes\<rparr>"

definition streamReceiveBuffer_write ::
  "streamReceiveBuffer \<Rightarrow> bytes \<Rightarrow> nat \<times> go_err option \<times> streamReceiveBuffer" where
  "streamReceiveBuffer_write b p =
     (if srb_closed b then (0, Some ErrClosedPipe, b)
      else if srb_maxBytes b > 0 \<and> int (length (srb_data b)) + int (length p) > srb_maxBytes b
      then (0, Some ErrStreamReceiveBufferFull, b)
      else (length p, None, b\<lparr>srb_data := srb_data b @ p\<rparr>))"

text \<open>\<^verbatim>\<open>read(p)\<close> with a slice of length \<open>n\<close>: the bytes copied into it, or end of file.\<close>

definition streamReceiveBuffer_read ::
  "streamReceiveBuffer \<Rightarrow> nat \<Rightarrow> ((go_err + bytes) \<times> streamReceiveBuffer) option" where
  "streamReceiveBuffer_read b n =
     (if srb_data b = [] \<and> \<not> srb_closed b then None
      else if srb_data b = [] \<and> srb_closed b then Some (Inl EOF, b)
      else Some (Inr (take n (srb_data b)), b\<lparr>srb_data := drop n (srb_data b)\<rparr>))"

definition streamReceiveBuffer_close :: "streamReceiveBuffer \<Rightarrow> streamReceiveBuffer" where
  "streamReceiveBuffer_close b = (if srb_closed b then b else b\<lparr>srb_closed := True\<rparr>)"

section \<open>Invariant and interface\<close>

definition srb_invar :: "streamReceiveBuffer \<Rightarrow> bool" where
  "srb_invar b \<longleftrightarrow> (0 < srb_maxBytes b \<longrightarrow> int (length (srb_data b)) \<le> srb_maxBytes b)"

definition srb_put :: "streamReceiveBuffer \<Rightarrow> bytes \<Rightarrow> bool \<times> streamReceiveBuffer" where
  "srb_put b p =
     (case streamReceiveBuffer_write b p of (_, err, b') \<Rightarrow> (err = None, b'))"

abbreviation srb_used :: "streamReceiveBuffer \<Rightarrow> int" where
  "srb_used b \<equiv> int (length (srb_data b))"

lemma srb_invar_new [simp]: "srb_invar (newStreamReceiveBuffer n)"
  by (simp add: srb_invar_def newStreamReceiveBuffer_def)

interpretation srb: receive_buffer
  srb_put streamReceiveBuffer_close srb_used srb_maxBytes srb_closed srb_invar
  by unfold_locales
    (auto simp: srb_put_def streamReceiveBuffer_write_def streamReceiveBuffer_close_def
      srb_invar_def)

lemma srb_invar_write:
  "srb_invar b \<Longrightarrow> streamReceiveBuffer_write b p = (n, err, b') \<Longrightarrow> srb_invar b'"
  using srb.put_invar [of b p] by (simp add: srb_put_def)

lemma srb_invar_read:
  "srb_invar b \<Longrightarrow> streamReceiveBuffer_read b n = Some (r, b') \<Longrightarrow> srb_invar b'"
  by (auto simp: srb_invar_def streamReceiveBuffer_read_def split: if_splits)

section \<open>Reading to the end\<close>

text \<open>
  \<^verbatim>\<open>io.ReadAll\<close> on a buffer: read into a slice of free capacity until end of file. The
  capacities are the library's choice, so they are an argument, positive at every call; the
  result is \<open>None\<close> when a read waits, that is when the buffer is still open once it is empty.
\<close>

function srb_ReadAll ::
  "(nat \<Rightarrow> nat) \<Rightarrow> nat \<Rightarrow> streamReceiveBuffer \<Rightarrow> (bytes \<times> streamReceiveBuffer) option" where
  "srb_ReadAll sz k b =
     (case streamReceiveBuffer_read b (Suc (sz k)) of
        None \<Rightarrow> None
      | Some (Inl e, b') \<Rightarrow> Some ([], b')
      | Some (Inr p, b') \<Rightarrow>
          (case srb_ReadAll sz (Suc k) b' of
             None \<Rightarrow> None
           | Some (q, b'') \<Rightarrow> Some (p @ q, b'')))"
  by pat_completeness auto
termination
  by (relation "measure (\<lambda>(sz, k, b). length (srb_data b))")
    (auto simp: streamReceiveBuffer_read_def split: if_splits)

declare srb_ReadAll.simps [simp del]

lemma srb_ReadAll_closed:
  assumes "srb_closed b"
  shows "srb_ReadAll sz k b = Some (srb_data b, b\<lparr>srb_data := []\<rparr>)"
  using assms
proof (induction sz k b rule: srb_ReadAll.induct)
  case (1 sz k b)
  show ?case
  proof (cases "srb_data b = []")
    case True
    with "1.prems" show ?thesis
      by (subst srb_ReadAll.simps) (simp add: streamReceiveBuffer_read_def)
  next
    case False
    let ?b' = "b\<lparr>srb_data := drop (Suc (sz k)) (srb_data b)\<rparr>"
    have r: "streamReceiveBuffer_read b (Suc (sz k)) =
        Some (Inr (take (Suc (sz k)) (srb_data b)), ?b')"
      using False by (simp add: streamReceiveBuffer_read_def)
    have "srb_ReadAll sz (Suc k) ?b' = Some (srb_data ?b', ?b'\<lparr>srb_data := []\<rparr>)"
      using "1.IH" [OF r] "1.prems" by simp
    then show ?thesis by (subst srb_ReadAll.simps) (simp add: r)
  qed
qed

lemma srb_ReadAll_open: "\<not> srb_closed b \<Longrightarrow> srb_ReadAll sz k b = None"
proof (induction sz k b rule: srb_ReadAll.induct)
  case (1 sz k b)
  then show ?case
    by (subst srb_ReadAll.simps)
      (auto simp: streamReceiveBuffer_read_def split: option.splits prod.splits sum.splits
        if_splits)
qed

section \<open>A stream of bytes\<close>

text \<open>What happens to a buffer: the session writes or closes, the application reads.\<close>

datatype srb_event = SrbWrite bytes | SrbRead nat | SrbClose

text \<open>The bytes taken in and the bytes read out by an event. A read that has to wait leaves the
  buffer as it is.\<close>

definition srb_step ::
  "streamReceiveBuffer \<Rightarrow> srb_event \<Rightarrow> bytes \<times> bytes \<times> streamReceiveBuffer" where
  "srb_step b ev =
     (case ev of
        SrbWrite p \<Rightarrow> (case streamReceiveBuffer_write b p of (n, err, b') \<Rightarrow> (take n p, [], b'))
      | SrbRead n \<Rightarrow>
          (case streamReceiveBuffer_read b n of
             None \<Rightarrow> ([], [], b)
           | Some (Inl e, b') \<Rightarrow> ([], [], b')
           | Some (Inr p, b') \<Rightarrow> ([], p, b'))
      | SrbClose \<Rightarrow> ([], [], streamReceiveBuffer_close b))"

fun srb_run ::
  "streamReceiveBuffer \<Rightarrow> srb_event list \<Rightarrow> bytes \<times> bytes \<times> streamReceiveBuffer" where
  "srb_run b [] = ([], [], b)"
| "srb_run b (e # es) =
     (case srb_step b e of (i, out, b') \<Rightarrow>
        case srb_run b' es of (i', out', b'') \<Rightarrow> (i @ i', out @ out', b''))"

lemma srb_step_stream: "srb_step b e = (i, out, b') \<Longrightarrow> srb_data b @ i = out @ srb_data b'"
  by (auto simp: srb_step_def streamReceiveBuffer_write_def streamReceiveBuffer_read_def
      streamReceiveBuffer_close_def split: srb_event.splits if_splits)

lemma srb_step_invar: "srb_step b e = (i, out, b') \<Longrightarrow> srb_invar b \<Longrightarrow> srb_invar b'"
  by (auto simp: srb_step_def streamReceiveBuffer_write_def streamReceiveBuffer_read_def
      streamReceiveBuffer_close_def srb_invar_def split: srb_event.splits if_splits)

lemma srb_step_maxBytes: "srb_step b e = (i, out, b') \<Longrightarrow> srb_maxBytes b' = srb_maxBytes b"
  by (auto simp: srb_step_def streamReceiveBuffer_write_def streamReceiveBuffer_read_def
      streamReceiveBuffer_close_def split: srb_event.splits if_splits)

lemma srb_run_stream:
  "srb_run b es = (i, out, b') \<Longrightarrow>
   srb_data b @ i = out @ srb_data b' \<and> srb_maxBytes b' = srb_maxBytes b \<and>
   (srb_invar b \<longrightarrow> srb_invar b')"
proof (induction es arbitrary: b i out)
  case (Cons e es)
  obtain i1 o1 b1 where s: "srb_step b e = (i1, o1, b1)" by (cases "srb_step b e")
  obtain i2 o2 b2 where r: "srb_run b1 es = (i2, o2, b2)" by (cases "srb_run b1 es")
  from Cons.prems s r have eqs: "i = i1 @ i2" "out = o1 @ o2" "b' = b2" by auto
  from srb_step_stream [OF s] have "srb_data b @ i = o1 @ srb_data b1 @ i2" by (simp add: eqs)
  with Cons.IH [OF r [folded eqs(3)]] srb_step_invar [OF s] srb_step_maxBytes [OF s] eqs
  show ?case by simp
qed simp

section \<open>Properties\<close>

text \<open>C22: the receive buffer of a stream is a byte stream: over any sequence of writes, reads and
  closes on a new buffer, the bytes read followed by the bytes still buffered are the bytes of
  the accepted writes in order, and a positive limit bounds what is buffered.\<close>

theorem stream_buffer_fidelity:
  assumes "srb_run (newStreamReceiveBuffer m) es = (taken, out, b)"
  shows "taken = out @ srb_data b \<and> (0 < m \<longrightarrow> int (length (srb_data b)) \<le> m)"
  using srb_run_stream [OF assms]
  by (auto simp: newStreamReceiveBuffer_def srb_invar_def)

theorem stream_buffer_fidelity_witness:
  "srb_run (newStreamReceiveBuffer 3) [SrbWrite [1, 2], SrbRead 1, SrbWrite [3, 4, 5], SrbWrite [6]]
     = ([1, 2, 6], [1], \<lparr>srb_data = [2, 6], srb_closed = False, srb_maxBytes = 3\<rparr>) \<and>
   [1, 2, 6] = [1] @ srb_data \<lparr>srb_data = [2, 6], srb_closed = False, srb_maxBytes = 3\<rparr>"
proof -
  have h: "srb_run (newStreamReceiveBuffer 3)
        [SrbWrite [1, 2], SrbRead 1, SrbWrite [3, 4, 5], SrbWrite [6]]
     = ([1, 2, 6], [1], \<lparr>srb_data = [2, 6], srb_closed = False, srb_maxBytes = 3\<rparr>)"
    by code_simp
  show ?thesis using h stream_buffer_fidelity [OF h] by blast
qed

text \<open>Reading a stream to its end returns exactly the buffered bytes once the buffer is closed,
  whatever slice sizes io.ReadAll chooses, and returns nothing while it is open.\<close>

theorem stream_ReadAll:
  "srb_ReadAll sz k b =
     (if srb_closed b then Some (srb_data b, b\<lparr>srb_data := []\<rparr>) else None)"
  by (simp add: srb_ReadAll_closed srb_ReadAll_open)

end
