(* ===== verification/Datagram_Buffer.thy ===== *)
theory Datagram_Buffer
  imports Buffer_Interface Go_Errors
begin

text \<open>
  datagram.go: the byte-limited queue of received datagrams. The record keeps the fields of the
  source; \<open>notify\<close> is the channel of capacity one, a token or none. Writing and closing are
  single critical sections; reading is a loop of critical sections with a wait between them,
  and is modelled as a step relation over a buffer and its readers, so that the wake-ups the
  token gives are part of the model.
\<close>

section \<open>The buffer\<close>

record datagramReceiveBuffer =
  dgram_queue :: "bytes list"
  bufferedBytes :: int
  dgram_closed :: bool
  dgram_maxBytes :: int
  notify :: bool

definition newDatagramReceiveBuffer :: "int \<Rightarrow> datagramReceiveBuffer" where
  "newDatagramReceiveBuffer maxBytes =
    \<lparr>dgram_queue = [], bufferedBytes = 0, dgram_closed = False, dgram_maxBytes = maxBytes,
     notify = False\<rparr>"

definition datagramReceiveBuffer_write ::
  "datagramReceiveBuffer \<Rightarrow> bytes \<Rightarrow> bool \<times> datagramReceiveBuffer" where
  "datagramReceiveBuffer_write b p =
     (if dgram_closed b then (False, b)
      else if dgram_maxBytes b > 0 \<and> bufferedBytes b + int (length p) > dgram_maxBytes b
      then (False, b)
      else (True, b\<lparr>dgram_queue := dgram_queue b @ [p],
                   bufferedBytes := bufferedBytes b + int (length p),
                   notify := True\<rparr>))"

text \<open>One pass of the loop of \<^verbatim>\<open>read\<close> under the lock: the payload, end of file, or nothing yet
  (\<open>None\<close>), in which case the reader waits for a token or for its context.\<close>

definition datagramReceiveBuffer_poll ::
  "datagramReceiveBuffer \<Rightarrow> (go_err + bytes) option \<times> datagramReceiveBuffer" where
  "datagramReceiveBuffer_poll b =
     (case dgram_queue b of
        payload # rest \<Rightarrow>
          (Some (Inr payload),
           b\<lparr>dgram_queue := rest, bufferedBytes := bufferedBytes b - int (length payload)\<rparr>)
      | [] \<Rightarrow> if dgram_closed b then (Some (Inl EOF), b) else (None, b))"

definition datagramReceiveBuffer_close :: "datagramReceiveBuffer \<Rightarrow> datagramReceiveBuffer" where
  "datagramReceiveBuffer_close b =
     (if dgram_closed b then b else b\<lparr>dgram_closed := True, notify := True\<rparr>)"

section \<open>Invariant and interface\<close>

definition dgram_invar :: "datagramReceiveBuffer \<Rightarrow> bool" where
  "dgram_invar b \<longleftrightarrow>
     bufferedBytes b = int (length (concat (dgram_queue b))) \<and>
     (0 < dgram_maxBytes b \<longrightarrow> bufferedBytes b \<le> dgram_maxBytes b)"

lemma dgram_invar_new [simp]: "dgram_invar (newDatagramReceiveBuffer n)"
  by (simp add: dgram_invar_def newDatagramReceiveBuffer_def)

lemma dgram_invar_write: "dgram_invar b \<Longrightarrow> dgram_invar (snd (datagramReceiveBuffer_write b p))"
  by (auto simp: dgram_invar_def datagramReceiveBuffer_write_def)

lemma dgram_invar_poll: "dgram_invar b \<Longrightarrow> dgram_invar (snd (datagramReceiveBuffer_poll b))"
  by (auto simp: dgram_invar_def datagramReceiveBuffer_poll_def split: list.splits)

lemma dgram_invar_close: "dgram_invar b \<Longrightarrow> dgram_invar (datagramReceiveBuffer_close b)"
  by (auto simp: dgram_invar_def datagramReceiveBuffer_close_def)

interpretation dgram: receive_buffer
  datagramReceiveBuffer_write datagramReceiveBuffer_close bufferedBytes dgram_maxBytes
  dgram_closed dgram_invar
  by unfold_locales
    (auto simp: datagramReceiveBuffer_write_def datagramReceiveBuffer_close_def dgram_invar_def)

section \<open>Readers and wake-ups\<close>

text \<open>
  A reader is idle, about to take the lock (\<open>RLoop\<close>), or waiting for the token (\<open>RWait\<close>).
  \<open>delivered\<close> lists the payloads handed to readers, \<open>written\<close> the payloads the buffer accepted.
\<close>

datatype rpc = RIdle | RLoop | RWait

record dgram_sys =
  dbuf :: datagramReceiveBuffer
  readers :: "nat \<Rightarrow> rpc"
  accepted :: "bytes list"
  delivered :: "bytes list"

definition dgram_start :: "int \<Rightarrow> dgram_sys" where
  "dgram_start n =
    \<lparr>dbuf = newDatagramReceiveBuffer n, readers = (\<lambda>_. RIdle), accepted = [], delivered = []\<rparr>"

text \<open>The steps of a system with \<open>n\<close> readers: the read loop of the session writes or closes, a
  reader calls \<^verbatim>\<open>read\<close>, makes a pass under the lock, takes the token, or gives up because its
  context is done.\<close>

inductive dgram_step :: "nat \<Rightarrow> dgram_sys \<Rightarrow> dgram_sys \<Rightarrow> bool" for n where
  d_write: "datagramReceiveBuffer_write (dbuf s) p = (ok, b) \<Longrightarrow>
    dgram_step n s (s\<lparr>dbuf := b, accepted := (if ok then accepted s @ [p] else accepted s)\<rparr>)"
| d_close: "dgram_step n s (s\<lparr>dbuf := datagramReceiveBuffer_close (dbuf s)\<rparr>)"
| d_call: "i < n \<Longrightarrow> readers s i = RIdle \<Longrightarrow>
    dgram_step n s (s\<lparr>readers := (readers s)(i := RLoop)\<rparr>)"
| d_got: "i < n \<Longrightarrow> readers s i = RLoop \<Longrightarrow>
    datagramReceiveBuffer_poll (dbuf s) = (Some (Inr p), b) \<Longrightarrow>
    dgram_step n s (s\<lparr>dbuf := b, readers := (readers s)(i := RIdle),
                     delivered := delivered s @ [p]\<rparr>)"
| d_eof: "i < n \<Longrightarrow> readers s i = RLoop \<Longrightarrow>
    datagramReceiveBuffer_poll (dbuf s) = (Some (Inl e), b) \<Longrightarrow>
    dgram_step n s (s\<lparr>dbuf := b, readers := (readers s)(i := RIdle)\<rparr>)"
| d_wait: "i < n \<Longrightarrow> readers s i = RLoop \<Longrightarrow>
    datagramReceiveBuffer_poll (dbuf s) = (None, b) \<Longrightarrow>
    dgram_step n s (s\<lparr>dbuf := b, readers := (readers s)(i := RWait)\<rparr>)"
| d_wake: "i < n \<Longrightarrow> readers s i = RWait \<Longrightarrow> notify (dbuf s) \<Longrightarrow>
    dgram_step n s (s\<lparr>dbuf := (dbuf s)\<lparr>notify := False\<rparr>,
                     readers := (readers s)(i := RLoop)\<rparr>)"
| d_ctx_done: "i < n \<Longrightarrow> readers s i = RWait \<Longrightarrow>
    dgram_step n s (s\<lparr>readers := (readers s)(i := RIdle)\<rparr>)"

inductive dgram_reach :: "nat \<Rightarrow> int \<Rightarrow> dgram_sys \<Rightarrow> bool" for n m where
  start: "dgram_reach n m (dgram_start m)"
| step: "dgram_reach n m s \<Longrightarrow> dgram_step n s t \<Longrightarrow> dgram_reach n m t"

text \<open>The order and the accounting of the queue, kept by every step.\<close>

definition dgram_sys_inv :: "dgram_sys \<Rightarrow> bool" where
  "dgram_sys_inv s \<longleftrightarrow>
     dgram_invar (dbuf s) \<and> accepted s = delivered s @ dgram_queue (dbuf s)"

lemma dgram_sys_inv_step: "dgram_step n s t \<Longrightarrow> dgram_sys_inv s \<Longrightarrow> dgram_sys_inv t"
proof (induction rule: dgram_step.induct)
  case (d_write s p ok b)
  then show ?case
    using dgram_invar_write [of "dbuf s" p]
    by (auto simp: dgram_sys_inv_def datagramReceiveBuffer_write_def split: if_splits)
next
  case (d_close s)
  then show ?case
    using dgram_invar_close [of "dbuf s"]
    by (auto simp: dgram_sys_inv_def datagramReceiveBuffer_close_def)
next
  case (d_got i s p b)
  then show ?case
    using dgram_invar_poll [of "dbuf s"]
    by (auto simp: dgram_sys_inv_def datagramReceiveBuffer_poll_def split: list.splits if_splits)
next
  case (d_eof i s e b)
  then show ?case
    by (auto simp: dgram_sys_inv_def datagramReceiveBuffer_poll_def split: list.splits if_splits)
next
  case (d_wait i s b)
  then show ?case
    by (auto simp: dgram_sys_inv_def datagramReceiveBuffer_poll_def split: list.splits if_splits)
qed (auto simp: dgram_sys_inv_def dgram_invar_def)

lemma dgram_reach_inv: "dgram_reach n m s \<Longrightarrow> dgram_sys_inv s"
proof (induction rule: dgram_reach.induct)
  case start
  show ?case by (simp add: dgram_sys_inv_def dgram_start_def newDatagramReceiveBuffer_def
        dgram_invar_def)
next
  case (step s t)
  then show ?case by (blast intro: dgram_sys_inv_step)
qed

text \<open>With one reader, a reader that waits while there is something to read has a token.\<close>

definition dgram_awake :: "dgram_sys \<Rightarrow> bool" where
  "dgram_awake s \<longleftrightarrow>
     (readers s 0 = RWait \<and> (dgram_queue (dbuf s) \<noteq> [] \<or> dgram_closed (dbuf s)) \<longrightarrow>
      notify (dbuf s))"

lemma dgram_awake_step: "dgram_step 1 s t \<Longrightarrow> dgram_awake s \<Longrightarrow> dgram_awake t"
  by (induction rule: dgram_step.induct)
    (auto simp: dgram_awake_def datagramReceiveBuffer_write_def datagramReceiveBuffer_close_def
      datagramReceiveBuffer_poll_def split: list.splits if_splits)

lemma dgram_reach_awake: "dgram_reach 1 m s \<Longrightarrow> dgram_awake s"
proof (induction rule: dgram_reach.induct)
  case start
  show ?case by (simp add: dgram_awake_def dgram_start_def)
next
  case (step s t)
  then show ?case by (blast intro: dgram_awake_step)
qed

lemma dgram_step_maxBytes:
  "dgram_step n s t \<Longrightarrow> dgram_maxBytes (dbuf t) = dgram_maxBytes (dbuf s)"
  by (induction rule: dgram_step.induct)
    (auto simp: datagramReceiveBuffer_write_def datagramReceiveBuffer_close_def
      datagramReceiveBuffer_poll_def split: list.splits if_splits)

lemma dgram_reach_maxBytes: "dgram_reach n m s \<Longrightarrow> dgram_maxBytes (dbuf s) = m"
  by (induction rule: dgram_reach.induct)
    (auto simp: dgram_start_def newDatagramReceiveBuffer_def dgram_step_maxBytes)

text \<open>A reader that waits at a closed buffer without a token is left only by its context: no
  further token is ever sent.\<close>

lemma dgram_abandoned_step:
  assumes "dgram_step n s t" and "dgram_closed (dbuf s)" and "\<not> notify (dbuf s)"
    and "readers s i = RWait"
  shows "dgram_closed (dbuf t) \<and> \<not> notify (dbuf t) \<and>
         (readers t i = RWait \<or> t = s\<lparr>readers := (readers s)(i := RIdle)\<rparr>)"
  using assms
  by (induction rule: dgram_step.induct)
    (auto simp: datagramReceiveBuffer_write_def datagramReceiveBuffer_close_def
      datagramReceiveBuffer_poll_def split: list.splits if_splits)

section \<open>Properties\<close>

text \<open>C21: whatever the interleaving of the session's writes, its close and any number of readers,
  datagrams are delivered in the order they were accepted, each at most once, and the bytes
  buffered are those of the datagrams still queued and never exceed a positive limit.\<close>

theorem datagram_fifo:
  assumes "dgram_reach n m s"
  shows "accepted s = delivered s @ dgram_queue (dbuf s) \<and>
         bufferedBytes (dbuf s) = int (length (concat (dgram_queue (dbuf s)))) \<and>
         (0 < m \<longrightarrow> bufferedBytes (dbuf s) \<le> m)"
  using dgram_reach_inv [OF assms] dgram_reach_maxBytes [OF assms]
  by (auto simp: dgram_sys_inv_def dgram_invar_def)

definition dgram_example :: dgram_sys where
  "dgram_example =
    \<lparr>dbuf = \<lparr>dgram_queue = [[1, 2]], bufferedBytes = 2, dgram_closed = False,
             dgram_maxBytes = 3, notify = True\<rparr>,
     readers = (\<lambda>_. RIdle), accepted = [[1, 2]], delivered = []\<rparr>"

lemma dgram_example_reach: "dgram_reach n 3 dgram_example"
proof -
  have w: "datagramReceiveBuffer_write (dbuf (dgram_start 3)) [1, 2] =
        (True, dbuf dgram_example)"
    by (simp add: dgram_start_def newDatagramReceiveBuffer_def dgram_example_def
        datagramReceiveBuffer_write_def)
  have "dgram_step n (dgram_start 3) dgram_example"
    using dgram_step.d_write [OF w, of n] by (simp add: dgram_start_def dgram_example_def)
  then show ?thesis by (rule dgram_reach.step [OF dgram_reach.start])
qed

theorem datagram_fifo_witness:
  "dgram_reach 1 3 dgram_example \<and>
   accepted dgram_example = delivered dgram_example @ dgram_queue (dbuf dgram_example) \<and>
   bufferedBytes (dbuf dgram_example) = 2"
  using dgram_example_reach [of 1] datagram_fifo [OF dgram_example_reach [of 1]]
  by (simp add: dgram_example_def)


text \<open>A run to a state where a reader waits, for any number of readers; reader \<open>i\<close> calls, finds
  nothing and waits.\<close>

lemma dgram_reader_waits:
  assumes "dgram_reach n m s" and "i < n" and "readers s i = RIdle"
    and "dgram_queue (dbuf s) = []" and "\<not> dgram_closed (dbuf s)"
  shows "dgram_reach n m (s\<lparr>readers := (readers s)(i := RWait)\<rparr>)"
proof -
  let ?t = "s\<lparr>readers := (readers s)(i := RLoop)\<rparr>"
  have t: "dgram_reach n m ?t"
    using assms(1) dgram_step.d_call [OF assms(2,3)] by (rule dgram_reach.step)
  have "datagramReceiveBuffer_poll (dbuf ?t) = (None, dbuf ?t)"
    using assms(4,5) by (simp add: datagramReceiveBuffer_poll_def)
  from dgram_step.d_wait [of i n ?t, OF assms(2) _ this]
  have "dgram_step n ?t (s\<lparr>readers := (readers s)(i := RWait)\<rparr>)" by simp
  with t show ?thesis by (rule dgram_reach.step)
qed

definition dgram_waiting :: dgram_sys where
  "dgram_waiting = (dgram_start 3)\<lparr>readers := (\<lambda>_. RIdle)(0 := RWait)\<rparr>"

lemma dgram_waiting_reach: "dgram_reach 1 3 dgram_waiting"
  using dgram_reader_waits [OF dgram_reach.start [of 1 3], of 0]
  by (simp add: dgram_waiting_def dgram_start_def newDatagramReceiveBuffer_def)

definition dgram_waiting_closed :: dgram_sys where
  "dgram_waiting_closed =
    dgram_waiting\<lparr>dbuf := datagramReceiveBuffer_close (dbuf dgram_waiting)\<rparr>"

lemma dgram_waiting_closed_reach: "dgram_reach 1 3 dgram_waiting_closed"
  unfolding dgram_waiting_closed_def
  using dgram_waiting_reach dgram_step.d_close by (rule dgram_reach.step)


text \<open>with two readers close wakes only one of them: a state is reachable in which the buffer
  is closed, one reader has returned and the other waits with no token left. By
  \<open>dgram_abandoned_step\<close> only the second reader's own context can release it.\<close>

theorem datagram_close_wakes_one_reader:
  "\<exists>s. dgram_reach 2 m s \<and> dgram_closed (dbuf s) \<and> readers s 0 = RIdle \<and>
       readers s 1 = RWait \<and> \<not> notify (dbuf s)"
proof -
  let ?r0 = "(dgram_start m)\<lparr>readers := (\<lambda>_. RIdle)(0 := RWait)\<rparr>"
  let ?r1 = "(dgram_start m)\<lparr>readers := (\<lambda>_. RIdle)(0 := RWait, 1 := RWait)\<rparr>"
  let ?c = "?r1\<lparr>dbuf := datagramReceiveBuffer_close (dbuf ?r1)\<rparr>"
  let ?w = "?c\<lparr>dbuf := (dbuf ?c)\<lparr>notify := False\<rparr>, readers := (readers ?c)(0 := RLoop)\<rparr>"
  let ?e = "?w\<lparr>dbuf := dbuf ?w, readers := (readers ?w)(0 := RIdle)\<rparr>"
  note defs = dgram_start_def newDatagramReceiveBuffer_def datagramReceiveBuffer_close_def
  have r0: "dgram_reach 2 m ?r0"
    using dgram_reader_waits [OF dgram_reach.start [of 2 m], of 0] by (simp add: defs)
  have r1: "dgram_reach 2 m ?r1"
    using dgram_reader_waits [OF r0, of 1] by (simp add: defs)
  have c: "dgram_reach 2 m ?c"
    using r1 dgram_step.d_close by (rule dgram_reach.step)
  have "dgram_step 2 ?c ?w" by (rule dgram_step.d_wake) (simp_all add: defs)
  with c have w: "dgram_reach 2 m ?w" by (rule dgram_reach.step)
  have "datagramReceiveBuffer_poll (dbuf ?w) = (Some (Inl EOF), dbuf ?w)"
    by (simp add: defs datagramReceiveBuffer_poll_def)
  then have "dgram_step 2 ?w ?e" by (intro dgram_step.d_eof) simp_all
  with w have "dgram_reach 2 m ?e" by (rule dgram_reach.step)
  moreover have "dgram_closed (dbuf ?e)" "readers ?e 0 = RIdle" "readers ?e 1 = RWait"
    "\<not> notify (dbuf ?e)"
    by (simp_all add: defs)
  ultimately show ?thesis by blast
qed

end
