(* ===== verification/Session.thy ===== *)
theory Session
  imports Send_Limits Capsule Stream_Buffer Datagram_Buffer
begin

text \<open>
  session.go and stream.go: the state of a session, its streams, and the operations an
  application calls. Streams are shared objects in the source (a \<^verbatim>\<open>*ReceiveStream\<close> is at once in
  the session's map, in the queue of incoming streams and in the hands of the application), so
  the session owns two stores, \<open>recvs\<close> and \<open>sends\<close>, and a pointer is an index into one of them.

  The writer and the clock are outside: an operation that writes a capsule takes the error the
  writer returned (\<open>None\<close> for success), one that selects takes a number that picks among the
  ready cases. \<open>written\<close> is the list of capsules that went to the writer, \<open>flushed\<close> how many of them the last
  \<^verbatim>\<open>Flush\<close> pushed to the peer (a writer that is no \<^verbatim>\<open>http.Flusher\<close> has no buffer to push), \<open>ends\<close> the lines
  \<^verbatim>\<open>logSessionEnd\<close> logged. A result \<open>None\<close> is a goroutine that waits, or (for the writes) the
  panic of \<^verbatim>\<open>quicvarint.Append\<close> on a value that has no encoding.
\<close>

section \<open>State\<close>

record ReceiveStream =
  rs_ID :: stream_id
  rs_closed :: bool
  recvBuffer :: streamReceiveBuffer

record SendStream =
  ss_ID :: stream_id
  ss_closed :: bool

record Stream =
  st_ID :: stream_id
  st_recv :: nat
  st_send :: nat

datatype session_end =
    EndWTClose bool u32 string
  | EndError go_err
  | EndReason string

record Session =
  Protocol :: string
  StreamReceiveBufferSize :: int
  DatagramReceiveBufferSize :: int
  isServer :: bool
  stop :: bool
  closeOnce :: bool
  done_ch :: bool
  closeDatagramDeliveryOnce :: bool
  incomingStreams :: "Stream list"
  incomingUnidirectionalStreams :: "nat list"
  datagramBuffer :: datagramReceiveBuffer
  closeErr :: "go_err option"
  closeReason :: string
  streams :: "stream_id \<rightharpoonup> Stream"
  receiveStreams :: "stream_id \<rightharpoonup> nat"
  sendStreams :: "stream_id \<rightharpoonup> nat"
  createdStreamCounter :: u64
  limits :: sendLimits
  recvs :: "ReceiveStream list"
  sends :: "SendStream list"
  written :: "(CapsuleType \<times> bytes) list"
  flushed :: nat
  ends :: "session_end list"

definition defaultReceiveBufferSize :: int where "defaultReceiveBufferSize = 64 * 1024"

text \<open>The capacity of the two channels of incoming streams.\<close>

definition incoming_capacity :: nat where "incoming_capacity = 16"

record sessionMeta =
  peerAddr :: string
  meta_path :: string

definition logPrefix :: "bool \<Rightarrow> sessionMeta \<Rightarrow> string" where
  "logPrefix srv meta =
     (let peer = (if peerAddr meta = '''' then (if srv then ''server'' else ''client'')
                  else peerAddr meta)
      in ''['' @ peer @ ''] '')"

definition newSessionConfigured :: "string \<Rightarrow> bool \<Rightarrow> peerInitialLimits option \<Rightarrow> Session" where
  "newSessionConfigured protocol srv peer =
    \<lparr>Protocol = protocol,
     StreamReceiveBufferSize = defaultReceiveBufferSize,
     DatagramReceiveBufferSize = defaultReceiveBufferSize,
     isServer = srv,
     stop = False, closeOnce = False, done_ch = False, closeDatagramDeliveryOnce = False,
     incomingStreams = [], incomingUnidirectionalStreams = [],
     datagramBuffer = newDatagramReceiveBuffer defaultReceiveBufferSize,
     closeErr = None, closeReason = '''',
     streams = Map.empty, receiveStreams = Map.empty, sendStreams = Map.empty,
     createdStreamCounter = 0,
     limits = (case peer of None \<Rightarrow> zero_sendLimits
               | Some p \<Rightarrow> adoptPeerSendLimits zero_sendLimits p),
     recvs = [], sends = [], written = [], flushed = 0, ends = []\<rparr>"

definition newSessionWithPeerLimits :: "string \<Rightarrow> bool \<Rightarrow> peerInitialLimits option \<Rightarrow> Session" where
  "newSessionWithPeerLimits protocol srv peer = newSessionConfigured protocol srv peer"

definition newSession :: "string \<Rightarrow> bool \<Rightarrow> Session" where
  "newSession protocol srv = newSessionWithPeerLimits protocol srv None"

text \<open>A \<^verbatim>\<open>select\<close>: one of the ready cases, or a wait when there is none.\<close>

definition select_ready :: "nat \<Rightarrow> 'a list \<Rightarrow> 'a option" where
  "select_ready k ready = (if ready = [] then None else Some (ready ! (k mod length ready)))"

section \<open>Closing\<close>

definition closeDatagramDelivery :: "Session \<Rightarrow> Session" where
  "closeDatagramDelivery s =
     (if closeDatagramDeliveryOnce s then s
      else s\<lparr>closeDatagramDeliveryOnce := True,
             datagramBuffer := datagramReceiveBuffer_close (datagramBuffer s)\<rparr>)"

definition setCloseErr :: "Session \<Rightarrow> go_err \<Rightarrow> Session" where
  "setCloseErr s err = (if closeErr s = None then s\<lparr>closeErr := Some err\<rparr> else s)"

definition setCloseReason :: "Session \<Rightarrow> string \<Rightarrow> Session" where
  "setCloseReason s reason = (if closeReason s = '''' then s\<lparr>closeReason := reason\<rparr> else s)"

definition session_end_of :: "Session \<Rightarrow> session_end" where
  "session_end_of s =
     (case closeErr s of
        Some (SessionCloseError code message remote) \<Rightarrow> EndWTClose remote code message
      | Some err \<Rightarrow> EndError err
      | None \<Rightarrow> EndReason (if closeReason s = '''' then ''local_close'' else closeReason s))"

definition logSessionEnd :: "Session \<Rightarrow> Session" where
  "logSessionEnd s = s\<lparr>ends := ends s @ [session_end_of s]\<rparr>"

definition Session_Close :: "Session \<Rightarrow> Session" where
  "Session_Close s =
     (if closeOnce s then s
      else
        let s1 = s\<lparr>closeOnce := True, stop := True\<rparr>;
            s2 = closeDatagramDelivery s1;
            s3 = logSessionEnd s2
        in s3\<lparr>done_ch := True\<rparr>)"

definition writeCapsule ::
  "Session \<Rightarrow> CapsuleType \<Rightarrow> bytes \<Rightarrow> go_err option \<Rightarrow> go_err option \<times> Session" where
  "writeCapsule s typ data werr =
     (case werr of
        None \<Rightarrow> (None, s\<lparr>written := written s @ [(typ, data)]\<rparr>)
      | Some e \<Rightarrow> (Some e, s))"

definition Session_Flush :: "Session \<Rightarrow> Session" where
  "Session_Flush s = s\<lparr>flushed := length (written s)\<rparr>"

definition Session_Done :: "Session \<Rightarrow> bool" where
  "Session_Done s = done_ch s"

definition CloseErr :: "Session \<Rightarrow> go_err option" where
  "CloseErr s = closeErr s"

definition CloseWithError ::
  "Session \<Rightarrow> u32 \<Rightarrow> string \<Rightarrow> go_err option \<Rightarrow> go_err option \<times> Session" where
  "CloseWithError s code message werr =
     (if length message > 1024 then
        (Some (ErrorsNew ''close error message exceeds 1024 bytes''), s)
      else if stop s then (Some ErrSessionClosed, s)
      else
        let payload = be_put32 code @ go_bytes message
        in case writeCapsule s CapsuleWTCloseSession payload werr of
             (Some e, s1) \<Rightarrow> (Some e, s1)
           | (None, s1) \<Rightarrow>
               (None, Session_Close (setCloseErr (Session_Flush s1) (SessionCloseError code message False))))"

definition parseWTCloseSession :: "bytes \<Rightarrow> go_err + u32 \<times> string" where
  "parseWTCloseSession payload =
     (if length payload < 4 then Inl (ErrorsNew ''WT_CLOSE_SESSION payload too short'')
      else
        let code = be_get32 (take 4 payload); message = go_string (drop 4 payload)
        in if length message > 1024
           then Inl (ErrorsNew ''WT_CLOSE_SESSION message exceeds 1024 bytes'')
           else Inr (code, message))"

section \<open>Streams\<close>

definition newReceiveStream :: "Session \<Rightarrow> stream_id \<Rightarrow> nat \<times> Session" where
  "newReceiveStream s sid =
     (length (recvs s),
      s\<lparr>recvs := recvs s @ [\<lparr>rs_ID = sid, rs_closed = False,
          recvBuffer = newStreamReceiveBuffer (StreamReceiveBufferSize s)\<rparr>]\<rparr>)"

definition newSendStream :: "Session \<Rightarrow> stream_id \<Rightarrow> nat \<times> Session" where
  "newSendStream s sid =
     (length (sends s), s\<lparr>sends := sends s @ [\<lparr>ss_ID = sid, ss_closed = False\<rparr>]\<rparr>)"

definition newStream :: "Session \<Rightarrow> stream_id \<Rightarrow> Stream \<times> Session" where
  "newStream s sid =
     (let (r, s1) = newReceiveStream s sid; (w, s2) = newSendStream s1 sid
      in (\<lparr>st_ID = sid, st_recv = r, st_send = w\<rparr>, s2))"

text \<open>Updating an object of a store.\<close>

definition upd_recv :: "Session \<Rightarrow> nat \<Rightarrow> (ReceiveStream \<Rightarrow> ReceiveStream) \<Rightarrow> Session" where
  "upd_recv s r f = s\<lparr>recvs := (recvs s)[r := f (recvs s ! r)]\<rparr>"

definition upd_send :: "Session \<Rightarrow> nat \<Rightarrow> (SendStream \<Rightarrow> SendStream) \<Rightarrow> Session" where
  "upd_send s w f = s\<lparr>sends := (sends s)[w := f (sends s ! w)]\<rparr>"

definition SendStream_Write ::
  "varint_ops \<Rightarrow> Session \<Rightarrow> nat \<Rightarrow> bytes \<Rightarrow> go_err option \<Rightarrow>
   ((nat \<times> go_err option) \<times> Session) option" where
  "SendStream_Write V s w p werr =
     (let st = sends s ! w
      in if ss_closed st then Some ((0, Some ErrClosedPipe), s)
         else
           case reserveSendData (limits s) (ss_ID st) (length p) of
             (Some e, l) \<Rightarrow> Some ((0, Some e), s\<lparr>limits := l\<rparr>)
           | (None, l) \<Rightarrow>
               (case vappend V (ss_ID st) of
                  None \<Rightarrow> None
                | Some hdr \<Rightarrow>
                    (case writeCapsule (s\<lparr>limits := l\<rparr>) CapsuleWTStream (hdr @ p) werr of
                       (Some e, s1) \<Rightarrow>
                         Some ((0, Some e),
                               s1\<lparr>limits := refundSendData (limits s1) (ss_ID st) (length p)\<rparr>)
                     | (None, s1) \<Rightarrow> Some ((length p, None), s1))))"

definition WritePadding ::
  "Session \<Rightarrow> nat \<Rightarrow> int \<Rightarrow> go_err option \<Rightarrow> go_err option \<times> Session" where
  "WritePadding s w n werr =
     (if ss_closed (sends s ! w) then (Some ErrClosedPipe, s)
      else if n < 0 then (Some (ErrorsNew ''padding length must be non-negative''), s)
      else writeCapsule s CapsulePadding (replicate (nat n) 0) werr)"

definition SendStream_Close ::
  "varint_ops \<Rightarrow> Session \<Rightarrow> nat \<Rightarrow> go_err option \<Rightarrow> (go_err option \<times> Session) option" where
  "SendStream_Close V s w werr =
     (let st = sends s ! w
      in if ss_closed st then Some (None, s)
         else
           let s1 = upd_send s w (\<lambda>st. st\<lparr>ss_closed := True\<rparr>)
           in case vappend V (ss_ID st) of
                None \<Rightarrow> None
              | Some hdr \<Rightarrow> Some (writeCapsule s1 CapsuleWTStreamFin hdr werr))"

text \<open>\<^verbatim>\<open>receiveStreamData\<close>; its argument is a \<^verbatim>\<open>bytes.Reader\<close>, which yields its payload and then
  end of file, so \<^verbatim>\<open>io.ReadAll\<close> on it does not fail.\<close>

definition receiveStreamData :: "Session \<Rightarrow> nat \<Rightarrow> bytes \<Rightarrow> go_err option \<times> Session" where
  "receiveStreamData s r payload =
     (if rs_closed (recvs s ! r) then (None, s)
      else case streamReceiveBuffer_write (recvBuffer (recvs s ! r)) payload of
        (n, err, b) \<Rightarrow> (err, upd_recv s r (\<lambda>st. st\<lparr>recvBuffer := b\<rparr>)))"

definition ReceiveStream_Read ::
  "Session \<Rightarrow> nat \<Rightarrow> nat \<Rightarrow> ((go_err + bytes) \<times> Session) option" where
  "ReceiveStream_Read s r n =
     (case streamReceiveBuffer_read (recvBuffer (recvs s ! r)) n of
        None \<Rightarrow> None
      | Some (res, b) \<Rightarrow> Some (res, upd_recv s r (\<lambda>st. st\<lparr>recvBuffer := b\<rparr>)))"

definition ReceiveStream_Close :: "Session \<Rightarrow> nat \<Rightarrow> Session" where
  "ReceiveStream_Close s r =
     (if rs_closed (recvs s ! r) then s
      else upd_recv s r (\<lambda>st. st\<lparr>rs_closed := True,
                                 recvBuffer := streamReceiveBuffer_close (recvBuffer st)\<rparr>))"

definition finishReceive :: "Session \<Rightarrow> nat \<Rightarrow> Session" where
  "finishReceive s r =
     upd_recv s r (\<lambda>st. st\<lparr>recvBuffer := streamReceiveBuffer_close (recvBuffer st)\<rparr>)"

definition Stream_Close ::
  "varint_ops \<Rightarrow> Session \<Rightarrow> Stream \<Rightarrow> go_err option \<Rightarrow> (go_err option \<times> Session) option" where
  "Stream_Close V s st werr = SendStream_Close V (ReceiveStream_Close s (st_recv st)) (st_send st) werr"

section \<open>Opening and accepting\<close>

definition OpenStream :: "Session \<Rightarrow> (go_err + Stream) \<times> Session" where
  "OpenStream s =
     (if stop s then (Inl ErrSessionClosed, s)
      else case allocLocalStream (isServer s) (createdStreamCounter s) (limits s) True of
        (Inl e, c, l) \<Rightarrow> (Inl e, s\<lparr>createdStreamCounter := c, limits := l\<rparr>)
      | (Inr sid, c, l) \<Rightarrow>
          let (st, s1) = newStream (s\<lparr>createdStreamCounter := c, limits := l\<rparr>) sid
          in (Inr st, s1\<lparr>streams := (streams s1)(sid \<mapsto> st)\<rparr>))"

definition OpenUnidirectionalStream :: "Session \<Rightarrow> (go_err + nat) \<times> Session" where
  "OpenUnidirectionalStream s =
     (if stop s then (Inl ErrSessionClosed, s)
      else case allocLocalStream (isServer s) (createdStreamCounter s) (limits s) False of
        (Inl e, c, l) \<Rightarrow> (Inl e, s\<lparr>createdStreamCounter := c, limits := l\<rparr>)
      | (Inr sid, c, l) \<Rightarrow>
          let (w, s1) = newSendStream (s\<lparr>createdStreamCounter := c, limits := l\<rparr>) sid
          in (Inr w, s1\<lparr>sendStreams := (sendStreams s1)(sid \<mapsto> w)\<rparr>))"

text \<open>The accepting calls; \<open>ctx\<close> is the error of the context once it is done.\<close>

definition AcceptStream ::
  "nat \<Rightarrow> go_err option \<Rightarrow> Session \<Rightarrow> ((go_err + Stream) \<times> Session) option" where
  "AcceptStream k ctx s =
     select_ready k
       ((case incomingStreams s of [] \<Rightarrow> []
         | st # rest \<Rightarrow> [(Inr st, s\<lparr>incomingStreams := rest\<rparr>)]) @
        (if done_ch s then [(Inl ErrSessionClosed, s)] else []) @
        (case ctx of None \<Rightarrow> [] | Some e \<Rightarrow> [(Inl e, s)]))"

definition AcceptUnidirectionalStream ::
  "nat \<Rightarrow> go_err option \<Rightarrow> Session \<Rightarrow> ((go_err + nat) \<times> Session) option" where
  "AcceptUnidirectionalStream k ctx s =
     select_ready k
       ((case incomingUnidirectionalStreams s of [] \<Rightarrow> []
         | r # rest \<Rightarrow> [(Inr r, s\<lparr>incomingUnidirectionalStreams := rest\<rparr>)]) @
        (if done_ch s then [(Inl ErrSessionClosed, s)] else []) @
        (case ctx of None \<Rightarrow> [] | Some e \<Rightarrow> [(Inl e, s)]))"

text \<open>The sending side of the queues: true if the stream was queued.\<close>

definition enqueueIncomingStream :: "nat \<Rightarrow> Session \<Rightarrow> Stream \<Rightarrow> (bool \<times> Session) option" where
  "enqueueIncomingStream k s st =
     select_ready k
       ((if length (incomingStreams s) < incoming_capacity
         then [(True, s\<lparr>incomingStreams := incomingStreams s @ [st]\<rparr>)] else []) @
        (if done_ch s then [(False, s)] else []))"

definition enqueueIncomingUniStream :: "nat \<Rightarrow> Session \<Rightarrow> nat \<Rightarrow> (bool \<times> Session) option" where
  "enqueueIncomingUniStream k s r =
     select_ready k
       ((if length (incomingUnidirectionalStreams s) < incoming_capacity
         then [(True, s\<lparr>incomingUnidirectionalStreams := incomingUnidirectionalStreams s @ [r]\<rparr>)]
         else []) @
        (if done_ch s then [(False, s)] else []))"

section \<open>Datagrams\<close>

definition deliverDatagram :: "Session \<Rightarrow> bytes \<Rightarrow> Session" where
  "deliverDatagram s payload =
     s\<lparr>datagramBuffer := snd (datagramReceiveBuffer_write (datagramBuffer s) payload)\<rparr>"

definition SendDatagram :: "Session \<Rightarrow> bytes \<Rightarrow> go_err option \<Rightarrow> go_err option \<times> Session" where
  "SendDatagram s payload werr =
     (if stop s then (Some ErrSessionClosed, s)
      else writeCapsule s CapsuleDatagram payload werr)"

text \<open>One pass of the loop of \<^verbatim>\<open>ReceiveDatagram\<close>; the waits between passes are those of
  \<open>dgram_step\<close>.\<close>

definition ReceiveDatagram_poll :: "Session \<Rightarrow> (go_err + bytes) option \<times> Session" where
  "ReceiveDatagram_poll s =
     (case datagramReceiveBuffer_poll (datagramBuffer s) of
        (res, b) \<Rightarrow> (res, s\<lparr>datagramBuffer := b\<rparr>))"

text \<open>\<^verbatim>\<open>ReceiveDatagram\<close> as its caller sees it: it waits (\<open>None\<close>) while there is neither a datagram nor an end,
  unless its context is done.\<close>

definition ReceiveDatagram :: "go_err option \<Rightarrow> Session \<Rightarrow> ((go_err + bytes) \<times> Session) option" where
  "ReceiveDatagram ctx s =
     (case ReceiveDatagram_poll s of
        (Some res, s1) \<Rightarrow> Some (res, s1)
      | (None, s1) \<Rightarrow> map_option (\<lambda>err. (Inl err, s1)) ctx)"

end
