(* ===== verification/Read_Loop.thy ===== *)
theory Read_Loop
  imports Session
begin

text \<open>
  The read loop of session.go and the limit capsules of flow.go it dispatches to. The reader of
  the CONNECT stream is the bytes it will still deliver and the error it ends with; parsing a
  capsule is the parameter \<open>K\<close>, reading a varint the parameter \<open>V\<close>. One iteration of the loop is
  a function; the loop itself runs on fuel, and that one unit per byte of input is enough is a
  theorem. An iteration that has to queue an incoming stream may wait for room in the queue, so
  it has a third outcome besides going on and returning.
\<close>

section \<open>Limit capsules\<close>

text \<open>\<^verbatim>\<open>io.ReadAll\<close> on the content reader of a capsule.\<close>

definition ReadAll :: "bytes \<Rightarrow> go_err \<Rightarrow> go_err + bytes" where
  "ReadAll c ce = (if ce = EOF then Inr c else Inl ce)"

fun read_varints :: "varint_ops \<Rightarrow> nat \<Rightarrow> bytes \<Rightarrow> go_err \<Rightarrow> go_err + u64 list \<times> bytes" where
  "read_varints V 0 c ce = Inr ([], c)"
| "read_varints V (Suc n) c ce =
     (case vread V c ce of
        Inl e \<Rightarrow> Inl e
      | Inr (v, c') \<Rightarrow>
          (case read_varints V n c' ce of
             Inl e \<Rightarrow> Inl e
           | Inr (vs, c'') \<Rightarrow> Inr (v # vs, c'')))"

definition readCapsuleVarints :: "varint_ops \<Rightarrow> bytes \<Rightarrow> go_err \<Rightarrow> nat \<Rightarrow> go_err + u64 list" where
  "readCapsuleVarints V c ce n =
     (case read_varints V n c ce of
        Inl e \<Rightarrow> Inl e
      | Inr (vs, c') \<Rightarrow> if ce = EOF then Inr vs else Inl ce)"

definition handleSendLimitCapsule ::
  "varint_ops \<Rightarrow> bool \<Rightarrow> sendLimits \<Rightarrow> CapsuleType \<Rightarrow> bytes \<Rightarrow> go_err \<Rightarrow>
   go_err option \<times> sendLimits" where
  "handleSendLimitCapsule V srv l typ c ce =
     (if typ = CapsuleWTMaxData then
        (case readCapsuleVarints V c ce 1 of
           Inl e \<Rightarrow> (Some e, l)
         | Inr mx \<Rightarrow> raiseMaxData l (mx ! 0))
      else if typ = CapsuleWTMaxStreamData then
        (case readCapsuleVarints V c ce 2 of
           Inl e \<Rightarrow> (Some e, l)
         | Inr vs \<Rightarrow> raiseMaxStreamData srv l (vs ! 0) (vs ! 1))
      else if typ = CapsuleWTMaxStreamsBidi \<or> typ = CapsuleWTMaxStreamsUni then
        (case readCapsuleVarints V c ce 1 of
           Inl e \<Rightarrow> (Some e, l)
         | Inr mx \<Rightarrow> raiseMaxStreams l (typ = CapsuleWTMaxStreamsBidi) (mx ! 0))
      else (None, l))"

section \<open>One iteration\<close>

text \<open>What is left to do once an incoming stream has been queued: the stream, the payload that
  opened it, whether it carried FIN, and the input that follows.\<close>

datatype pending =
    PendBidi Stream bytes bool bytes
  | PendUni stream_id nat bytes bool bytes

datatype loop_out =
    Next Session bytes
  | Exit Session
  | Wait Session pending

definition deliver_bidi :: "Session \<Rightarrow> Stream \<Rightarrow> bytes \<Rightarrow> bool \<Rightarrow> bytes \<Rightarrow> loop_out" where
  "deliver_bidi s st payload fin rest =
     (case receiveStreamData s (st_recv st) payload of
        (Some e, s1) \<Rightarrow> Exit s1
      | (None, s1) \<Rightarrow> Next (if fin then finishReceive s1 (st_recv st) else s1) rest)"

definition deliver_uni :: "Session \<Rightarrow> stream_id \<Rightarrow> nat \<Rightarrow> bytes \<Rightarrow> bool \<Rightarrow> bytes \<Rightarrow> loop_out" where
  "deliver_uni s sid r payload fin rest =
     (case receiveStreamData s r payload of
        (Some e, s1) \<Rightarrow> Exit s1
      | (None, s1) \<Rightarrow>
          Next (if fin then
                  (let s2 = finishReceive s1 r
                   in s2\<lparr>receiveStreams := (receiveStreams s2)(sid := None)\<rparr>)
                else s1) rest)"

definition accept_bidi :: "nat \<Rightarrow> Session \<Rightarrow> Stream \<Rightarrow> bytes \<Rightarrow> bool \<Rightarrow> bytes \<Rightarrow> loop_out" where
  "accept_bidi k s st payload fin rest =
     (case enqueueIncomingStream k s st of
        None \<Rightarrow> Wait s (PendBidi st payload fin rest)
      | Some (False, s1) \<Rightarrow> Exit s1
      | Some (True, s1) \<Rightarrow> deliver_bidi s1 st payload fin rest)"

definition accept_uni ::
  "nat \<Rightarrow> Session \<Rightarrow> stream_id \<Rightarrow> nat \<Rightarrow> bytes \<Rightarrow> bool \<Rightarrow> bytes \<Rightarrow> loop_out" where
  "accept_uni k s sid r payload fin rest =
     (case enqueueIncomingUniStream k s r of
        None \<Rightarrow> Wait s (PendUni sid r payload fin rest)
      | Some (False, s1) \<Rightarrow> Exit s1
      | Some (True, s1) \<Rightarrow> deliver_uni s1 sid r payload fin rest)"

definition readLoop_stream ::
  "nat \<Rightarrow> Session \<Rightarrow> stream_id \<Rightarrow> bytes \<Rightarrow> bool \<Rightarrow> bytes \<Rightarrow> loop_out" where
  "readLoop_stream k s sid payload fin rest =
     (if isBidirectionalStream sid then
        (case streams s sid of
           Some st \<Rightarrow> deliver_bidi s st payload fin rest
         | None \<Rightarrow>
             if \<not> isOurStream (isServer s) sid then
               let (st, s1) = newStream s sid;
                   s2 = s1\<lparr>streams := (streams s1)(sid \<mapsto> st)\<rparr>;
                   s3 = s2\<lparr>limits := trackSendStream (isServer s2) (limits s2) sid\<rparr>
               in accept_bidi k s3 st payload fin rest
             else Next s rest)
      else
        (case receiveStreams s sid of
           Some r \<Rightarrow> deliver_uni s sid r payload fin rest
         | None \<Rightarrow>
             if \<not> isOurStream (isServer s) sid then
               let (r, s1) = newReceiveStream s sid;
                   s2 = s1\<lparr>receiveStreams := (receiveStreams s1)(sid \<mapsto> r)\<rparr>
               in accept_uni k s2 sid r payload fin rest
             else Next s rest))"

text \<open>The block every case has for an error of the content reader.\<close>

definition content_error :: "Session \<Rightarrow> go_err \<Rightarrow> loop_out" where
  "content_error s err =
     Exit (if isCleanConnectTeardown err then setCloseReason s ''connect_fin'' else s)"

definition readLoop_close :: "Session \<Rightarrow> bytes \<Rightarrow> loop_out" where
  "readLoop_close s payload =
     (case parseWTCloseSession payload of
        Inl e \<Rightarrow> Exit (setCloseReason s ''error'')
      | Inr (code, message) \<Rightarrow> Exit (setCloseErr s (SessionCloseError code message True)))"

definition readLoop_limit ::
  "varint_ops \<Rightarrow> Session \<Rightarrow> CapsuleType \<Rightarrow> bytes \<Rightarrow> go_err \<Rightarrow> bytes \<Rightarrow> loop_out" where
  "readLoop_limit V s typ c ce rest =
     (case handleSendLimitCapsule V (isServer s) (limits s) typ c ce of
        (None, l) \<Rightarrow> Next (s\<lparr>limits := l\<rparr>) rest
      | (Some err, l) \<Rightarrow>
          (case flowControlError err of
             Some fc \<Rightarrow> Exit (setCloseErr (s\<lparr>limits := l\<rparr>) fc)
           | None \<Rightarrow> content_error (s\<lparr>limits := l\<rparr>) err))"

text \<open>A capsule that is read and ignored: padding, and any type without a case of its own.\<close>

definition readLoop_discard :: "Session \<Rightarrow> bytes \<Rightarrow> go_err \<Rightarrow> bytes \<Rightarrow> loop_out" where
  "readLoop_discard s c ce rest = (case ReadAll c ce of Inl err \<Rightarrow> content_error s err | Inr _ \<Rightarrow> Next s rest)"

declare readLoop_discard_def [simp]

definition readLoop_capsule ::
  "varint_ops \<Rightarrow> nat \<Rightarrow> Session \<Rightarrow> CapsuleType \<Rightarrow> bytes \<Rightarrow> go_err \<Rightarrow> bytes \<Rightarrow> loop_out" where
  "readLoop_capsule V k s typ c ce rest =
     (if typ = CapsulePadding then readLoop_discard s c ce rest
      else if typ = CapsuleWTStream \<or> typ = CapsuleWTStreamFin then
        (case vread V c ce of
           Inl err \<Rightarrow> Exit s
         | Inr (sid, c') \<Rightarrow>
             (case ReadAll c' ce of
                Inl err \<Rightarrow> content_error s err
              | Inr payload \<Rightarrow>
                  readLoop_stream k s sid payload (typ = CapsuleWTStreamFin) rest))
      else if typ = CapsuleDatagram then
        (case ReadAll c ce of
           Inl err \<Rightarrow> content_error s err
         | Inr payload \<Rightarrow> Next (deliverDatagram s payload) rest)
      else if typ = CapsuleWTCloseSession then
        (case ReadAll c ce of
           Inl err \<Rightarrow> content_error s err
         | Inr payload \<Rightarrow> readLoop_close s payload)
      else if typ = CapsuleWTDrainSession then Next s rest
      else if typ = CapsuleWTMaxData \<or> typ = CapsuleWTMaxStreamData \<or>
              typ = CapsuleWTMaxStreamsBidi \<or> typ = CapsuleWTMaxStreamsUni then
        readLoop_limit V s typ c ce rest
      else readLoop_discard s c ce rest)"

definition readLoop_iter ::
  "varint_ops \<Rightarrow> capsule_ops \<Rightarrow> nat \<Rightarrow> Session \<Rightarrow> bytes \<Rightarrow> go_err \<Rightarrow> loop_out" where
  "readLoop_iter V K k s b e =
     (if stop s then Exit s
      else case cap_parse K b e of
        Inl err \<Rightarrow>
          Exit (setCloseReason s
            (if isCleanConnectTeardown err then ''connect_fin'' else ''error''))
      | Inr (typ, c, ce, rest) \<Rightarrow> readLoop_capsule V k s typ c ce rest)"

text \<open>Going on after a wait.\<close>

fun resume :: "nat \<Rightarrow> Session \<Rightarrow> pending \<Rightarrow> loop_out" where
  "resume k s (PendBidi st payload fin rest) = accept_bidi k s st payload fin rest"
| "resume k s (PendUni sid r payload fin rest) = accept_uni k s sid r payload fin rest"

section \<open>The loop\<close>

datatype loop_end =
    Returned Session
  | Blocked Session pending
  | OutOfFuel

text \<open>The loop alone, with nobody accepting: \<open>ks\<close> picks in the selects. On return the deferred
  \<^verbatim>\<open>Close\<close> runs.\<close>

fun readLoop ::
  "varint_ops \<Rightarrow> capsule_ops \<Rightarrow> (nat \<Rightarrow> nat) \<Rightarrow> nat \<Rightarrow> Session \<Rightarrow> bytes \<Rightarrow> go_err \<Rightarrow> loop_end" where
  "readLoop V K ks 0 s b e = OutOfFuel"
| "readLoop V K ks (Suc fuel) s b e =
     (case readLoop_iter V K (ks fuel) s b e of
        Next s' rest \<Rightarrow> readLoop V K ks fuel s' rest e
      | Exit s' \<Rightarrow> Returned (Session_Close s')
      | Wait s' p \<Rightarrow> Blocked s' p)"

declare readLoop.simps(2) [simp del]

section \<open>A session at work\<close>

text \<open>The application and the read loop interleave; every operation is one step. \<open>e\<close> is the error
  the reader ends with.\<close>

datatype loop_pc = Running bytes | Waiting pending | Stopped

definition after_iter :: "loop_out \<Rightarrow> Session \<times> loop_pc" where
  "after_iter out =
     (case out of
        Next s rest \<Rightarrow> (s, Running rest)
      | Exit s \<Rightarrow> (Session_Close s, Stopped)
      | Wait s p \<Rightarrow> (s, Waiting p))"

inductive session_step ::
  "varint_ops \<Rightarrow> capsule_ops \<Rightarrow> go_err \<Rightarrow> Session \<times> loop_pc \<Rightarrow> Session \<times> loop_pc \<Rightarrow> bool"
  for V K e where
  loop: "session_step V K e (s, Running b) (after_iter (readLoop_iter V K k s b e))"
| woken: "session_step V K e (s, Waiting p) (after_iter (resume k s p))"
| app_close: "session_step V K e (s, pc) (Session_Close s, pc)"
| app_close_with: "CloseWithError s code msg werr = (r, s') \<Longrightarrow> session_step V K e (s, pc) (s', pc)"
| app_open: "OpenStream s = (r, s') \<Longrightarrow> session_step V K e (s, pc) (s', pc)"
| app_open_uni: "OpenUnidirectionalStream s = (r, s') \<Longrightarrow> session_step V K e (s, pc) (s', pc)"
| app_accept: "AcceptStream k ctx s = Some (r, s') \<Longrightarrow> session_step V K e (s, pc) (s', pc)"
| app_accept_uni: "AcceptUnidirectionalStream k ctx s = Some (r, s') \<Longrightarrow>
    session_step V K e (s, pc) (s', pc)"
| app_write: "w < length (sends s) \<Longrightarrow> length p < 2 ^ 63 \<Longrightarrow>
    SendStream_Write V s w p werr = Some (r, s') \<Longrightarrow> session_step V K e (s, pc) (s', pc)"
| app_padding: "w < length (sends s) \<Longrightarrow> WritePadding s w n werr = (r, s') \<Longrightarrow>
    session_step V K e (s, pc) (s', pc)"
| app_close_send: "w < length (sends s) \<Longrightarrow> SendStream_Close V s w werr = Some (r, s') \<Longrightarrow>
    session_step V K e (s, pc) (s', pc)"
| app_close_stream: "st_recv st < length (recvs s) \<Longrightarrow> st_send st < length (sends s) \<Longrightarrow>
    Stream_Close V s st werr = Some (r, s') \<Longrightarrow> session_step V K e (s, pc) (s', pc)"
| app_read: "r < length (recvs s) \<Longrightarrow> ReceiveStream_Read s r n = Some (x, s') \<Longrightarrow>
    session_step V K e (s, pc) (s', pc)"
| app_close_recv: "r < length (recvs s) \<Longrightarrow>
    session_step V K e (s, pc) (ReceiveStream_Close s r, pc)"
| app_send_dgram: "SendDatagram s p werr = (r, s') \<Longrightarrow> session_step V K e (s, pc) (s', pc)"
| app_recv_dgram: "ReceiveDatagram_poll s = (r, s') \<Longrightarrow> session_step V K e (s, pc) (s', pc)"
| app_flush: "session_step V K e (s, pc) (Session_Flush s, pc)"

inductive session_reach ::
  "varint_ops \<Rightarrow> capsule_ops \<Rightarrow> go_err \<Rightarrow> Session \<times> loop_pc \<Rightarrow> Session \<times> loop_pc \<Rightarrow> bool"
  for V K e c where
  start: "session_reach V K e c c"
| step: "session_reach V K e c d \<Longrightarrow> session_step V K e d d' \<Longrightarrow> session_reach V K e c d'"

end
