(* ===== verification/Session_Safety.thy ===== *)
theory Session_Safety
  imports Read_Loop
begin

text \<open>
  What holds of a session at every moment, whatever the peer sends and the application does:
  every pointer in the session's maps and queues leads to an object with the identifier it is
  filed under and of the right kind, the queues and buffers stay within their bounds, the limits
  hold, and the flags of a closed session agree. The invariant is split by what it depends on;
  every operation and every iteration of the read loop keeps it, and so every reachable state
  has it. No assumption on the codecs is needed: the invariant holds for any input bytes.
\<close>

section \<open>The invariant\<close>

definition points :: "'a list \<Rightarrow> nat \<Rightarrow> 'a \<Rightarrow> bool" where
  "points xs i x \<longleftrightarrow> i < length xs \<and> xs ! i = x"

lemma points_append: "points xs i x \<Longrightarrow> points (xs @ ys) i x"
  by (simp add: points_def nth_append)

lemma points_snoc [simp]: "points (xs @ [x]) (length xs) x"
  by (simp add: points_def)

text \<open>The identifiers of the objects in the stores.\<close>

abbreviation recv_ids :: "Session \<Rightarrow> stream_id list" where
  "recv_ids s \<equiv> map rs_ID (recvs s)"

abbreviation send_ids :: "Session \<Rightarrow> stream_id list" where
  "send_ids s \<equiv> map ss_ID (sends s)"

definition stream_ok :: "Session \<Rightarrow> stream_id \<Rightarrow> Stream \<Rightarrow> bool" where
  "stream_ok s sid st \<longleftrightarrow> isBidirectionalStream sid \<and> st_ID st = sid \<and>
     points (recv_ids s) (st_recv st) sid \<and> points (send_ids s) (st_send st) sid"

definition recv_ok :: "Session \<Rightarrow> stream_id \<Rightarrow> nat \<Rightarrow> bool" where
  "recv_ok s sid r \<longleftrightarrow> \<not> isBidirectionalStream sid \<and> \<not> isOurStream (isServer s) sid \<and>
     points (recv_ids s) r sid"

definition send_ok :: "Session \<Rightarrow> stream_id \<Rightarrow> nat \<Rightarrow> bool" where
  "send_ok s sid w \<longleftrightarrow> \<not> isBidirectionalStream sid \<and> isOurStream (isServer s) sid \<and>
     points (send_ids s) w sid"

definition maps_ok :: "Session \<Rightarrow> bool" where
  "maps_ok s \<longleftrightarrow>
     (\<forall>sid st. streams s sid = Some st \<longrightarrow> stream_ok s sid st) \<and>
     (\<forall>sid r. receiveStreams s sid = Some r \<longrightarrow> recv_ok s sid r) \<and>
     (\<forall>sid w. sendStreams s sid = Some w \<longrightarrow> send_ok s sid w)"

definition incoming_stream_ok :: "Session \<Rightarrow> Stream \<Rightarrow> bool" where
  "incoming_stream_ok s st \<longleftrightarrow>
     stream_ok s (st_ID st) st \<and> \<not> isOurStream (isServer s) (st_ID st)"

definition queues_ok :: "Session \<Rightarrow> bool" where
  "queues_ok s \<longleftrightarrow>
     (\<forall>st \<in> set (incomingStreams s). incoming_stream_ok s st) \<and>
     (\<forall>r \<in> set (incomingUnidirectionalStreams s). \<exists>sid. recv_ok s sid r) \<and>
     length (incomingStreams s) \<le> incoming_capacity \<and>
     length (incomingUnidirectionalStreams s) \<le> incoming_capacity"

definition buffers_ok :: "Session \<Rightarrow> bool" where
  "buffers_ok s \<longleftrightarrow> dgram_invar (datagramBuffer s) \<and>
     (\<forall>st \<in> set (recvs s). srb_invar (recvBuffer st) \<and> (rs_closed st \<longrightarrow> srb_closed (recvBuffer st)))"

definition lifecycle_ok :: "Session \<Rightarrow> bool" where
  "lifecycle_ok s \<longleftrightarrow> stop s = closeOnce s \<and> done_ch s = closeOnce s \<and>
     closeDatagramDeliveryOnce s = closeOnce s \<and> dgram_closed (datagramBuffer s) = closeOnce s \<and>
     length (ends s) = (if closeOnce s then 1 else 0)"

definition flow_ok :: "Session \<Rightarrow> bool" where
  "flow_ok s \<longleftrightarrow> limits_ok (limits s) \<and> counter_ok (createdStreamCounter s)"

definition session_ok :: "Session \<Rightarrow> bool" where
  "session_ok s \<longleftrightarrow> maps_ok s \<and> queues_ok s \<and> buffers_ok s \<and> lifecycle_ok s \<and> flow_ok s"

lemmas session_parts = maps_ok_def queues_ok_def incoming_stream_ok_def
  buffers_ok_def lifecycle_ok_def flow_ok_def

lemma session_ok_new: "session_ok (newSessionConfigured protocol srv peer)"
  by (simp add: session_ok_def session_parts newSessionConfigured_def incoming_capacity_def
      counter_ok_def limits_ok_adopt limits_ok_zero newDatagramReceiveBuffer_def dgram_invar_def
      split: option.splits)

subsection \<open>What the parts depend on\<close>

text \<open>The stores only grow, and an object keeps its identifier.\<close>

definition grows :: "Session \<Rightarrow> Session \<Rightarrow> bool" where
  "grows s s' \<longleftrightarrow> isServer s' = isServer s \<and>
     (\<exists>xs. recv_ids s' = recv_ids s @ xs) \<and> (\<exists>ys. send_ids s' = send_ids s @ ys)"

lemma grows_refl [simp]: "grows s s" by (simp add: grows_def)

lemma growsI: "isServer s' = isServer s \<Longrightarrow> recv_ids s' = recv_ids s @ xs \<Longrightarrow>
    send_ids s' = send_ids s @ ys \<Longrightarrow> grows s s'"
  by (auto simp: grows_def)

lemma grows_ok:
  assumes "grows s s'"
  shows "stream_ok s sid st \<Longrightarrow> stream_ok s' sid st" "recv_ok s sid r \<Longrightarrow> recv_ok s' sid r"
    "send_ok s sid w \<Longrightarrow> send_ok s' sid w" "incoming_stream_ok s st \<Longrightarrow> incoming_stream_ok s' st"
  using assms
  by (auto simp: grows_def stream_ok_def recv_ok_def send_ok_def incoming_stream_ok_def points_append)

lemma maps_ok_grows:
  assumes "grows s s'" and "maps_ok s" and "streams s' = streams s"
    and "receiveStreams s' = receiveStreams s" and "sendStreams s' = sendStreams s"
  shows "maps_ok s'"
  using assms(2-) grows_ok [OF assms(1)] by (simp add: maps_ok_def)

lemma queues_ok_grows:
  assumes "grows s s'" and "queues_ok s"
    and "incomingStreams s' = incomingStreams s"
    and "incomingUnidirectionalStreams s' = incomingUnidirectionalStreams s"
  shows "queues_ok s'"
  using assms(2-) grows_ok [OF assms(1)] unfolding queues_ok_def by metis

lemma recv_ids_upd [simp]:
  "(\<And>st. rs_ID (f st) = rs_ID st) \<Longrightarrow> recv_ids (upd_recv s r f) = recv_ids s"
  by (cases "r < length (recvs s)") (simp_all add: upd_recv_def map_update list_update_same_conv list_update_beyond)

lemma send_ids_upd [simp]:
  "(\<And>st. ss_ID (f st) = ss_ID st) \<Longrightarrow> send_ids (upd_send s w f) = send_ids s"
  by (cases "w < length (sends s)") (simp_all add: upd_send_def map_update list_update_same_conv list_update_beyond)

lemma upd_recv_frame [simp]:
  "streams (upd_recv s r f) = streams s" "receiveStreams (upd_recv s r f) = receiveStreams s"
  "sendStreams (upd_recv s r f) = sendStreams s" "sends (upd_recv s r f) = sends s"
  "incomingStreams (upd_recv s r f) = incomingStreams s"
  "incomingUnidirectionalStreams (upd_recv s r f) = incomingUnidirectionalStreams s"
  "isServer (upd_recv s r f) = isServer s" "limits (upd_recv s r f) = limits s"
  "createdStreamCounter (upd_recv s r f) = createdStreamCounter s"
  "datagramBuffer (upd_recv s r f) = datagramBuffer s" "written (upd_recv s r f) = written s"
  "stop (upd_recv s r f) = stop s" "closeOnce (upd_recv s r f) = closeOnce s"
  "done_ch (upd_recv s r f) = done_ch s" "ends (upd_recv s r f) = ends s"
  "closeDatagramDeliveryOnce (upd_recv s r f) = closeDatagramDeliveryOnce s"
  "closeErr (upd_recv s r f) = closeErr s"
  by (simp_all add: upd_recv_def)

lemma upd_send_frame [simp]:
  "streams (upd_send s r f) = streams s" "receiveStreams (upd_send s r f) = receiveStreams s"
  "sendStreams (upd_send s r f) = sendStreams s" "recvs (upd_send s r f) = recvs s"
  "incomingStreams (upd_send s r f) = incomingStreams s"
  "incomingUnidirectionalStreams (upd_send s r f) = incomingUnidirectionalStreams s"
  "isServer (upd_send s r f) = isServer s" "limits (upd_send s r f) = limits s"
  "createdStreamCounter (upd_send s r f) = createdStreamCounter s"
  "datagramBuffer (upd_send s r f) = datagramBuffer s" "written (upd_send s r f) = written s"
  "stop (upd_send s r f) = stop s" "closeOnce (upd_send s r f) = closeOnce s"
  "done_ch (upd_send s r f) = done_ch s" "ends (upd_send s r f) = ends s"
  "closeDatagramDeliveryOnce (upd_send s r f) = closeDatagramDeliveryOnce s"
  "closeErr (upd_send s r f) = closeErr s"
  by (simp_all add: upd_send_def)

lemma Session_Flush_frame [simp]:
  "streams (Session_Flush s) = streams s" "receiveStreams (Session_Flush s) = receiveStreams s"
  "sendStreams (Session_Flush s) = sendStreams s" "recvs (Session_Flush s) = recvs s" "sends (Session_Flush s) = sends s"
  "incomingStreams (Session_Flush s) = incomingStreams s"
  "incomingUnidirectionalStreams (Session_Flush s) = incomingUnidirectionalStreams s"
  "isServer (Session_Flush s) = isServer s" "limits (Session_Flush s) = limits s"
  "createdStreamCounter (Session_Flush s) = createdStreamCounter s"
  "datagramBuffer (Session_Flush s) = datagramBuffer s" "written (Session_Flush s) = written s"
  "stop (Session_Flush s) = stop s" "closeOnce (Session_Flush s) = closeOnce s"
  "done_ch (Session_Flush s) = done_ch s" "ends (Session_Flush s) = ends s"
  "closeDatagramDeliveryOnce (Session_Flush s) = closeDatagramDeliveryOnce s"
  "closeErr (Session_Flush s) = closeErr s" "closeReason (Session_Flush s) = closeReason s"
  "flushed (Session_Flush s) = length (written s)"
  by (simp_all add: Session_Flush_def)

definition buffer_ok :: "ReceiveStream \<Rightarrow> bool" where
  "buffer_ok st \<longleftrightarrow> srb_invar (recvBuffer st) \<and> (rs_closed st \<longrightarrow> srb_closed (recvBuffer st))"

lemma session_ok_upd_recv:
  assumes "session_ok s" and "r < length (recvs s)" and "\<And>st. rs_ID (f st) = rs_ID st"
    and "buffer_ok (recvs s ! r) \<Longrightarrow> buffer_ok (f (recvs s ! r))"
  shows "session_ok (upd_recv s r f)"
proof -
  have g: "grows s (upd_recv s r f)" by (rule growsI [of _ _ "[]" "[]"]) (simp_all add: assms(3))
  have "maps_ok (upd_recv s r f)" "queues_ok (upd_recv s r f)"
    using assms(1) maps_ok_grows [OF g] queues_ok_grows [OF g] by (simp_all add: session_ok_def)
  moreover have "buffers_ok (upd_recv s r f)"
    using assms set_update_subset_insert [of "recvs s" r "f (recvs s ! r)"]
    by (auto simp: session_ok_def buffers_ok_def buffer_ok_def upd_recv_def)
  ultimately show ?thesis
    using assms(1) by (simp add: session_ok_def lifecycle_ok_def flow_ok_def)
qed

lemmas session_all_defs = session_ok_def session_parts stream_ok_def recv_ok_def send_ok_def

lemma session_ok_irrelevant [simp]:
  "session_ok (s\<lparr>written := x\<rparr>) = session_ok s" "session_ok (s\<lparr>flushed := n\<rparr>) = session_ok s"
  "session_ok (s\<lparr>closeErr := y\<rparr>) = session_ok s"
  "session_ok (s\<lparr>closeReason := z\<rparr>) = session_ok s"
  by (simp_all add: session_all_defs)

lemma session_ok_limits: "session_ok s \<Longrightarrow> limits_ok l \<Longrightarrow> session_ok (s\<lparr>limits := l\<rparr>)"
  by (simp add: session_all_defs)

lemma session_ok_counter:
  "session_ok s \<Longrightarrow> counter_ok c \<Longrightarrow> session_ok (s\<lparr>createdStreamCounter := c\<rparr>)"
  by (simp add: session_all_defs)

lemma session_ok_limitsD: "session_ok s \<Longrightarrow> limits_ok (limits s)"
  by (simp add: session_ok_def flow_ok_def)

lemma session_ok_setCloseErr [simp]: "session_ok (setCloseErr s e) = session_ok s"
  by (simp add: setCloseErr_def)

lemma session_ok_setCloseReason [simp]: "session_ok (setCloseReason s r) = session_ok s"
  by (simp add: setCloseReason_def)

lemma session_ok_Flush [simp]: "session_ok (Session_Flush s) = session_ok s"
  by (simp add: Session_Flush_def)

lemma session_ok_writeCapsule: "writeCapsule s typ d werr = (r, s') \<Longrightarrow> session_ok s' = session_ok s"
  by (auto simp: writeCapsule_def split: option.splits)

lemma session_ok_datagramBuffer:
  "session_ok s \<Longrightarrow> dgram_invar b \<Longrightarrow> dgram_closed b = dgram_closed (datagramBuffer s) \<Longrightarrow>
   session_ok (s\<lparr>datagramBuffer := b\<rparr>)"
  by (simp add: session_all_defs)

subsection \<open>The operations keep it\<close>

lemma session_ok_Close:
  assumes "session_ok s"
  shows "session_ok (Session_Close s)"
proof -
  have "dgram_invar (datagramReceiveBuffer_close (datagramBuffer s))"
    using assms dgram_invar_close by (simp add: session_ok_def buffers_ok_def)
  moreover have "dgram_closed (datagramReceiveBuffer_close (datagramBuffer s))"
    by (simp add: datagramReceiveBuffer_close_def)
  ultimately show ?thesis
    using assms
    by (simp add: Session_Close_def logSessionEnd_def closeDatagramDelivery_def Let_def session_all_defs)
qed

lemma session_ok_CloseWithError:
  "session_ok s \<Longrightarrow> CloseWithError s code msg werr = (r, s') \<Longrightarrow> session_ok s'"
  by (auto simp: CloseWithError_def Let_def session_ok_Close writeCapsule_def
      split: if_splits prod.splits option.splits)

lemma session_ok_newReceiveStream:
  assumes "session_ok s" and "newReceiveStream s sid = (r, s')"
  shows "session_ok s'" "points (recv_ids s') r sid" "grows s s'"
    "streams s' = streams s" "receiveStreams s' = receiveStreams s" "isServer s' = isServer s"
    "sends s' = sends s"
proof -
  have s': "s' = s\<lparr>recvs := recvs s @ [\<lparr>rs_ID = sid, rs_closed = False,
      recvBuffer = newStreamReceiveBuffer (StreamReceiveBufferSize s)\<rparr>]\<rparr>" and r: "r = length (recvs s)"
    using assms(2) by (simp_all add: newReceiveStream_def)
  show "points (recv_ids s') r sid" by (simp add: points_def r s' nth_append)
  show g: "grows s s'" by (rule growsI [of _ _ "[sid]" "[]"]) (simp_all add: s')
  have "maps_ok s'" using maps_ok_grows [OF g] assms(1) by (simp add: s' session_ok_def)
  moreover have "queues_ok s'" using queues_ok_grows [OF g] assms(1) by (simp add: s' session_ok_def)
  ultimately show "session_ok s'"
    using assms(1) by (auto simp: s' session_ok_def buffers_ok_def lifecycle_ok_def flow_ok_def)
qed (use assms(2) in \<open>auto simp: newReceiveStream_def\<close>)

lemma session_ok_newSendStream:
  assumes "session_ok s" and "newSendStream s sid = (w, s')"
  shows "session_ok s'" "points (send_ids s') w sid" "grows s s'"
    "streams s' = streams s" "sendStreams s' = sendStreams s" "isServer s' = isServer s"
    "recvs s' = recvs s"
proof -
  have s': "s' = s\<lparr>sends := sends s @ [\<lparr>ss_ID = sid, ss_closed = False\<rparr>]\<rparr>" and w: "w = length (sends s)"
    using assms(2) by (simp_all add: newSendStream_def)
  show "points (send_ids s') w sid" by (simp add: points_def w s' nth_append)
  show g: "grows s s'" by (rule growsI [of _ _ "[]" "[sid]"]) (simp_all add: s')
  have "maps_ok s'" using maps_ok_grows [OF g] assms(1) by (simp add: s' session_ok_def)
  moreover have "queues_ok s'" using queues_ok_grows [OF g] assms(1) by (simp add: s' session_ok_def)
  ultimately show "session_ok s'"
    using assms(1) by (auto simp: s' session_ok_def buffers_ok_def lifecycle_ok_def flow_ok_def)
qed (use assms(2) in \<open>auto simp: newSendStream_def\<close>)

lemma session_ok_newStream:
  assumes "session_ok s" and "isBidirectionalStream sid" and "newStream s sid = (st, s')"
  shows "session_ok s'" "stream_ok s' sid st" "st_ID st = sid" "streams s' = streams s"
    "isServer s' = isServer s"
proof -
  obtain r s1 w where a: "newReceiveStream s sid = (r, s1)" and b: "newSendStream s1 sid = (w, s')"
    and st: "st = \<lparr>st_ID = sid, st_recv = r, st_send = w\<rparr>"
    using assms(3) by (auto simp: newStream_def Let_def split: prod.splits)
  note r = session_ok_newReceiveStream [OF assms(1) a]
  note w = session_ok_newSendStream [OF r(1) b]
  show "session_ok s'" by (rule w(1))
  show "stream_ok s' sid st" using r(2) w(2,7) assms(2) by (simp add: stream_ok_def st)
  show "st_ID st = sid" "streams s' = streams s" "isServer s' = isServer s"
    using r w by (simp_all add: st)
qed

lemma session_ok_map_stream:
  "session_ok s \<Longrightarrow> stream_ok s sid st \<Longrightarrow> session_ok (s\<lparr>streams := (streams s)(sid \<mapsto> st)\<rparr>)"
  by (auto simp: session_all_defs)

lemma session_ok_map_recv:
  "session_ok s \<Longrightarrow> recv_ok s sid r \<Longrightarrow> session_ok (s\<lparr>receiveStreams := (receiveStreams s)(sid \<mapsto> r)\<rparr>)"
  by (auto simp: session_all_defs)

lemma session_ok_unmap_recv:
  "session_ok s \<Longrightarrow> session_ok (s\<lparr>receiveStreams := (receiveStreams s)(sid := None)\<rparr>)"
  by (auto simp: session_all_defs)

lemma session_ok_map_send:
  "session_ok s \<Longrightarrow> send_ok s sid w \<Longrightarrow> session_ok (s\<lparr>sendStreams := (sendStreams s)(sid \<mapsto> w)\<rparr>)"
  by (auto simp: session_all_defs)

lemma alloc_result:
  assumes "counter_ok c" and "allocLocalStream srv c l bidi = (r, c', l')"
  shows "counter_ok c'"
    "\<And>sid. r = Inr sid \<Longrightarrow> isOurStream srv sid \<and> (isBidirectionalStream sid \<longleftrightarrow> bidi)"
  using assms nextStreamID_spec [OF assms(1)]
  by (auto simp: allocLocalStream_def Let_def split: if_splits prod.splits)

lemma session_ok_alloc:
  assumes "session_ok s"
    and "allocLocalStream (isServer s) (createdStreamCounter s) (limits s) bidi = (r, c, l)"
  shows "session_ok (s\<lparr>createdStreamCounter := c, limits := l\<rparr>)"
proof -
  have "counter_ok (createdStreamCounter s)" "limits_ok (limits s)"
    using assms(1) by (simp_all add: session_ok_def flow_ok_def)
  with alloc_result(1) [OF _ assms(2)] limits_ok_alloc [OF _ assms(2)] assms(1) show ?thesis
    by (simp add: session_ok_limits session_ok_counter)
qed

lemma session_ok_OpenStream:
  assumes "session_ok s" and "OpenStream s = (r, s')"
  shows "session_ok s'"
proof (cases "stop s")
  case True
  with assms show ?thesis by (simp add: OpenStream_def)
next
  case False
  obtain x c l where a: "allocLocalStream (isServer s) (createdStreamCounter s) (limits s) True = (x, c, l)"
    by (metis prod_cases3)
  note ok = session_ok_alloc [OF assms(1) a]
  have cnt: "counter_ok (createdStreamCounter s)" using assms(1) by (simp add: session_ok_def flow_ok_def)
  show ?thesis
  proof (cases x)
    case (Inl e)
    with a assms(2) False ok show ?thesis by (simp add: OpenStream_def)
  next
    case (Inr sid)
    obtain st s1 where n: "newStream (s\<lparr>createdStreamCounter := c, limits := l\<rparr>) sid = (st, s1)"
      by fastforce
    have "isBidirectionalStream sid" using alloc_result(2) [OF cnt a Inr] by simp
    note new = session_ok_newStream [OF ok this n]
    from a Inr n False assms(2) have "s' = s1\<lparr>streams := (streams s1)(sid \<mapsto> st)\<rparr>"
      by (simp add: OpenStream_def)
    with session_ok_map_stream [OF new(1,2)] show ?thesis by simp
  qed
qed

lemma session_ok_OpenUnidirectionalStream:
  assumes "session_ok s" and "OpenUnidirectionalStream s = (r, s')"
  shows "session_ok s'"
proof (cases "stop s")
  case True
  with assms show ?thesis by (simp add: OpenUnidirectionalStream_def)
next
  case False
  obtain x c l where a: "allocLocalStream (isServer s) (createdStreamCounter s) (limits s) False = (x, c, l)"
    by (metis prod_cases3)
  note ok = session_ok_alloc [OF assms(1) a]
  have cnt: "counter_ok (createdStreamCounter s)" using assms(1) by (simp add: session_ok_def flow_ok_def)
  show ?thesis
  proof (cases x)
    case (Inl e)
    with a assms(2) False ok show ?thesis by (simp add: OpenUnidirectionalStream_def)
  next
    case (Inr sid)
    obtain w s1 where n: "newSendStream (s\<lparr>createdStreamCounter := c, limits := l\<rparr>) sid = (w, s1)"
      by fastforce
    note new = session_ok_newSendStream [OF ok n]
    have "send_ok s1 sid w"
      using alloc_result(2) [OF cnt a Inr] new(2,6) by (simp add: send_ok_def)
    from session_ok_map_send [OF new(1) this] a Inr n False assms(2) show ?thesis
      by (simp add: OpenUnidirectionalStream_def)
  qed
qed

lemma select_ready_in: "select_ready k xs = Some x \<Longrightarrow> x \<in> set xs"
  by (auto simp: select_ready_def split: if_splits)

lemma session_ok_dequeue:
  "session_ok s \<Longrightarrow> incomingStreams s = st # rest \<Longrightarrow> session_ok (s\<lparr>incomingStreams := rest\<rparr>)"
  "session_ok s \<Longrightarrow> incomingUnidirectionalStreams s = r # rs \<Longrightarrow>
   session_ok (s\<lparr>incomingUnidirectionalStreams := rs\<rparr>)"
  by (auto simp: session_all_defs)

lemma session_ok_AcceptStream:
  "session_ok s \<Longrightarrow> AcceptStream k ctx s = Some (r, s') \<Longrightarrow> session_ok s'"
  unfolding AcceptStream_def
  by (drule select_ready_in) (auto intro: session_ok_dequeue [OF _ sym] split: list.splits option.splits if_splits)

lemma session_ok_AcceptUnidirectionalStream:
  "session_ok s \<Longrightarrow> AcceptUnidirectionalStream k ctx s = Some (r, s') \<Longrightarrow> session_ok s'"
  unfolding AcceptUnidirectionalStream_def
  by (drule select_ready_in) (auto intro: session_ok_dequeue [OF _ sym] split: list.splits option.splits if_splits)

lemma reserve_keeps_ok:
  assumes "limits_ok l" and "n < 2 ^ 63" and "reserveSendData l sid n = (r, l')"
  shows "limits_ok l'"
proof (cases r)
  case None
  show ?thesis
  proof (cases "active l")
    case True
    with reserve_ok_effect [OF assms(1) True assms(2)] assms(3) None show ?thesis by blast
  next
    case False
    with assms(1,3) show ?thesis by (auto simp: reserveSendData_def split: if_splits)
  qed
next
  case (Some e)
  with reserve_fail_same assms show ?thesis by blast
qed

lemma session_ok_Write:
  assumes "session_ok s" and "length p < 2 ^ 63" and "SendStream_Write V s w p werr = Some (r, s')"
  shows "session_ok s'"
proof (cases "ss_closed (sends s ! w)")
  case True
  with assms show ?thesis by (simp add: SendStream_Write_def)
next
  case False
  let ?id = "ss_ID (sends s ! w)"
  obtain e l where a: "reserveSendData (limits s) ?id (length p) = (e, l)" by fastforce
  have l: "limits_ok l"
    using reserve_keeps_ok [OF session_ok_limitsD [OF assms(1)] assms(2) a] .
  then have "limits_ok (refundSendData l ?id (length p))" by (rule limits_ok_refund)
  with assms(1,3) l a False show ?thesis
    by (auto simp: SendStream_Write_def Let_def writeCapsule_def session_ok_limits
        split: option.splits prod.splits)
qed

lemma session_ok_WritePadding:
  "session_ok s \<Longrightarrow> WritePadding s w n werr = (r, s') \<Longrightarrow> session_ok s'"
  by (auto simp: WritePadding_def session_ok_writeCapsule split: if_splits)

lemma session_ok_upd_send:
  assumes "session_ok s" and "\<And>st. ss_ID (f st) = ss_ID st"
  shows "session_ok (upd_send s w f)"
proof -
  have g: "grows s (upd_send s w f)" by (rule growsI [of _ _ "[]" "[]"]) (simp_all add: assms(2))
  have "maps_ok (upd_send s w f)" "queues_ok (upd_send s w f)"
    using assms(1) maps_ok_grows [OF g] queues_ok_grows [OF g] by (simp_all add: session_ok_def)
  then show ?thesis
    using assms(1) by (simp add: session_ok_def buffers_ok_def lifecycle_ok_def flow_ok_def)
qed

lemma session_ok_SendStream_Close:
  assumes "session_ok s" and "SendStream_Close V s w werr = Some (r, s')"
  shows "session_ok s'"
proof -
  have "session_ok (upd_send s w (\<lambda>st. st\<lparr>ss_closed := True\<rparr>))"
    by (rule session_ok_upd_send [OF assms(1)]) simp
  with assms show ?thesis
    by (auto simp: SendStream_Close_def Let_def writeCapsule_def split: if_splits option.splits)
qed

lemma srb_close_ok [simp]:
  "srb_closed (streamReceiveBuffer_close b)" "srb_invar (streamReceiveBuffer_close b) = srb_invar b"
  by (simp_all add: streamReceiveBuffer_close_def srb_invar_def)

lemma session_ok_ReceiveStream_Close:
  "session_ok s \<Longrightarrow> r < length (recvs s) \<Longrightarrow> session_ok (ReceiveStream_Close s r)"
  by (auto simp: ReceiveStream_Close_def buffer_ok_def intro!: session_ok_upd_recv)

lemma session_ok_finishReceive:
  "session_ok s \<Longrightarrow> r < length (recvs s) \<Longrightarrow> session_ok (finishReceive s r)"
  by (auto simp: finishReceive_def buffer_ok_def intro!: session_ok_upd_recv)

lemma session_ok_Stream_Close:
  "session_ok s \<Longrightarrow> st_recv st < length (recvs s) \<Longrightarrow> Stream_Close V s st werr = Some (r, s') \<Longrightarrow>
   session_ok s'"
  unfolding Stream_Close_def
  using session_ok_ReceiveStream_Close session_ok_SendStream_Close by blast

lemma srb_read_closed:
  "streamReceiveBuffer_read b n = Some (x, b') \<Longrightarrow> srb_closed b' = srb_closed b"
  by (auto simp: streamReceiveBuffer_read_def split: if_splits)

lemma session_ok_Read:
  assumes "session_ok s" and "r < length (recvs s)" and "ReceiveStream_Read s r n = Some (x, s')"
  shows "session_ok s'"
proof -
  obtain b where b: "streamReceiveBuffer_read (recvBuffer (recvs s ! r)) n = Some (x, b)"
    and s': "s' = upd_recv s r (\<lambda>st. st\<lparr>recvBuffer := b\<rparr>)"
    using assms(3) by (auto simp: ReceiveStream_Read_def split: option.splits prod.splits)
  show ?thesis
    unfolding s'
    by (rule session_ok_upd_recv [OF assms(1,2)])
       (use srb_invar_read [OF _ b] srb_read_closed [OF b] in \<open>auto simp: buffer_ok_def\<close>)
qed

lemma session_ok_receiveStreamData:
  assumes "session_ok s" and "r < length (recvs s)" and "receiveStreamData s r p = (e, s')"
  shows "session_ok s'" "grows s s'" "recv_ids s' = recv_ids s"
proof -
  have "session_ok s' \<and> recv_ids s' = recv_ids s \<and> sends s' = sends s \<and> isServer s' = isServer s"
  proof (cases "rs_closed (recvs s ! r)")
    case True
    with assms show ?thesis by (simp add: receiveStreamData_def)
  next
    case False
    obtain n b where b: "streamReceiveBuffer_write (recvBuffer (recvs s ! r)) p = (n, e, b)"
      and s': "s' = upd_recv s r (\<lambda>st. st\<lparr>recvBuffer := b\<rparr>)"
      using assms(3) False by (auto simp: receiveStreamData_def split: prod.splits)
    have "session_ok s'"
      unfolding s' by (rule session_ok_upd_recv [OF assms(1,2)])
        (use srb_invar_write [OF _ b] False in \<open>auto simp: buffer_ok_def\<close>)
    then show ?thesis by (simp add: s')
  qed
  then show "session_ok s'" "grows s s'" "recv_ids s' = recv_ids s"
    by (auto intro!: growsI [of _ _ "[]" "[]"])
qed

lemma session_ok_datagrams:
  "session_ok s \<Longrightarrow> session_ok (deliverDatagram s p)"
  "session_ok s \<Longrightarrow> SendDatagram s p werr = (r, s') \<Longrightarrow> session_ok s'"
  "session_ok s \<Longrightarrow> ReceiveDatagram_poll s = (x, s') \<Longrightarrow> session_ok s'"
proof -
  assume ok: "session_ok s"
  have b: "dgram_invar (datagramBuffer s)" using ok by (simp add: session_ok_def buffers_ok_def)
  show "session_ok (deliverDatagram s p)"
    unfolding deliverDatagram_def
    by (rule session_ok_datagramBuffer [OF ok dgram_invar_write [OF b]])
       (simp add: datagramReceiveBuffer_write_def)
  show "session_ok s'" if "SendDatagram s p werr = (r, s')"
    using that ok by (auto simp: SendDatagram_def session_ok_writeCapsule split: if_splits)
  show "session_ok s'" if h: "ReceiveDatagram_poll s = (x, s')"
  proof -
    obtain c where c: "datagramReceiveBuffer_poll (datagramBuffer s) = (x, c)"
      and s': "s' = s\<lparr>datagramBuffer := c\<rparr>"
      using h by (auto simp: ReceiveDatagram_poll_def split: prod.splits)
    from dgram_invar_poll [OF b] c have "dgram_invar c" by simp
    moreover have "dgram_closed c = dgram_closed (datagramBuffer s)"
      using c by (auto simp: datagramReceiveBuffer_poll_def split: list.splits if_splits)
    ultimately show ?thesis unfolding s' by (rule session_ok_datagramBuffer [OF ok])
  qed
qed

subsection \<open>The read loop keeps it\<close>

fun pending_ok :: "Session \<Rightarrow> pending \<Rightarrow> bool" where
  "pending_ok s (PendBidi st payload fin rest) = incoming_stream_ok s st"
| "pending_ok s (PendUni sid r payload fin rest) = recv_ok s sid r"

fun out_ok :: "loop_out \<Rightarrow> bool" where
  "out_ok (Next s rest) = session_ok s"
| "out_ok (Exit s) = session_ok s"
| "out_ok (Wait s p) = (session_ok s \<and> pending_ok s p)"

lemma points_less: "points (recv_ids s) r sid \<Longrightarrow> r < length (recvs s)"
  by (simp add: points_def)

lemma out_ok_deliver_bidi:
  assumes "session_ok s" and "stream_ok s sid st"
  shows "out_ok (deliver_bidi s st payload fin rest)"
proof -
  obtain e s1 where d: "receiveStreamData s (st_recv st) payload = (e, s1)" by fastforce
  have r: "st_recv st < length (recvs s)" using assms(2) points_less by (auto simp: stream_ok_def)
  note ok = session_ok_receiveStreamData [OF assms(1) r d]
  have "st_recv st < length (recvs s1)" using r ok(3) by (metis length_map)
  with ok(1) d session_ok_finishReceive show ?thesis
    by (auto simp: deliver_bidi_def split: option.splits)
qed

lemma out_ok_deliver_uni:
  assumes "session_ok s" and "recv_ok s sid r"
  shows "out_ok (deliver_uni s sid r payload fin rest)"
proof -
  obtain e s1 where d: "receiveStreamData s r payload = (e, s1)" by fastforce
  have r: "r < length (recvs s)" using assms(2) points_less by (auto simp: recv_ok_def)
  note ok = session_ok_receiveStreamData [OF assms(1) r d]
  have "r < length (recvs s1)" using r ok(3) by (metis length_map)
  with ok(1) d session_ok_finishReceive show ?thesis
    by (auto simp: deliver_uni_def Let_def session_ok_unmap_recv split: option.splits)
qed

lemma session_ok_enqueue:
  assumes "session_ok s"
  shows "incoming_stream_ok s st \<Longrightarrow> length (incomingStreams s) < incoming_capacity \<Longrightarrow>
      session_ok (s\<lparr>incomingStreams := incomingStreams s @ [st]\<rparr>)"
    "recv_ok s sid r \<Longrightarrow> length (incomingUnidirectionalStreams s) < incoming_capacity \<Longrightarrow>
      session_ok (s\<lparr>incomingUnidirectionalStreams := incomingUnidirectionalStreams s @ [r]\<rparr>)"
  using assms by (auto simp: session_all_defs)

lemma out_ok_accept_bidi:
  assumes "session_ok s" and "incoming_stream_ok s st"
  shows "out_ok (accept_bidi k s st payload fin rest)"
proof (cases "enqueueIncomingStream k s st")
  case None
  with assms show ?thesis by (simp add: accept_bidi_def)
next
  case (Some x)
  then consider "x = (True, s\<lparr>incomingStreams := incomingStreams s @ [st]\<rparr>)"
      "length (incomingStreams s) < incoming_capacity" | "x = (False, s)"
    unfolding enqueueIncomingStream_def
    by (auto dest!: select_ready_in split: if_splits)
  then show ?thesis
  proof cases
    case 1
    let ?s = "s\<lparr>incomingStreams := incomingStreams s @ [st]\<rparr>"
    have "session_ok ?s" using session_ok_enqueue(1) [OF assms] 1 by simp
    moreover have "stream_ok ?s (st_ID st) st"
      using assms(2) by (simp add: incoming_stream_ok_def stream_ok_def)
    ultimately show ?thesis using Some 1 out_ok_deliver_bidi by (simp add: accept_bidi_def)
  next
    case 2
    with Some assms show ?thesis by (simp add: accept_bidi_def)
  qed
qed

lemma out_ok_accept_uni:
  assumes "session_ok s" and "recv_ok s sid r"
  shows "out_ok (accept_uni k s sid r payload fin rest)"
proof (cases "enqueueIncomingUniStream k s r")
  case None
  with assms show ?thesis by (simp add: accept_uni_def)
next
  case (Some x)
  then consider "x = (True, s\<lparr>incomingUnidirectionalStreams := incomingUnidirectionalStreams s @ [r]\<rparr>)"
      "length (incomingUnidirectionalStreams s) < incoming_capacity" | "x = (False, s)"
    unfolding enqueueIncomingUniStream_def
    by (auto dest!: select_ready_in split: if_splits)
  then show ?thesis
  proof cases
    case 1
    let ?s = "s\<lparr>incomingUnidirectionalStreams := incomingUnidirectionalStreams s @ [r]\<rparr>"
    have "session_ok ?s" using session_ok_enqueue(2) [OF assms] 1 by simp
    moreover have "recv_ok ?s sid r" using assms(2) by (simp add: recv_ok_def)
    ultimately show ?thesis using Some 1 out_ok_deliver_uni by (simp add: accept_uni_def)
  next
    case 2
    with Some assms show ?thesis by (simp add: accept_uni_def)
  qed
qed

lemma out_ok_new_bidi:
  assumes "session_ok s" and "isBidirectionalStream sid" and "\<not> isOurStream (isServer s) sid"
    and "newStream s sid = (st, s1)"
  shows "out_ok (accept_bidi k (s1\<lparr>streams := (streams s1)(sid \<mapsto> st),
     limits := trackSendStream (isServer s1) (limits s1) sid\<rparr>) st payload fin rest)"
proof (rule out_ok_accept_bidi)
  note n = session_ok_newStream [OF assms(1,2,4)]
  have "session_ok (s1\<lparr>streams := (streams s1)(sid \<mapsto> st)\<rparr>)" using session_ok_map_stream [OF n(1,2)] .
  moreover have "limits_ok (trackSendStream (isServer s1) (limits s1) sid)"
    using limits_ok_track [OF session_ok_limitsD [OF n(1)]] .
  ultimately show "session_ok (s1\<lparr>streams := (streams s1)(sid \<mapsto> st),
      limits := trackSendStream (isServer s1) (limits s1) sid\<rparr>)"
    by (rule session_ok_limits)
  show "incoming_stream_ok (s1\<lparr>streams := (streams s1)(sid \<mapsto> st),
      limits := trackSendStream (isServer s1) (limits s1) sid\<rparr>) st"
    using n(2,3,5) assms(3) by (simp add: incoming_stream_ok_def stream_ok_def)
qed

lemma out_ok_new_uni:
  assumes "session_ok s" and "\<not> isBidirectionalStream sid" and "\<not> isOurStream (isServer s) sid"
    and "newReceiveStream s sid = (r, s1)"
  shows "out_ok (accept_uni k (s1\<lparr>receiveStreams := (receiveStreams s1)(sid \<mapsto> r)\<rparr>) sid r payload fin rest)"
proof (rule out_ok_accept_uni)
  note n = session_ok_newReceiveStream [OF assms(1,4)]
  have "recv_ok s1 sid r" using n(2,6) assms(2,3) by (simp add: recv_ok_def)
  then show "session_ok (s1\<lparr>receiveStreams := (receiveStreams s1)(sid \<mapsto> r)\<rparr>)"
    and "recv_ok (s1\<lparr>receiveStreams := (receiveStreams s1)(sid \<mapsto> r)\<rparr>) sid r"
    using session_ok_map_recv [OF n(1)] by (simp_all add: recv_ok_def)
qed

lemma out_ok_stream:
  assumes "session_ok s"
  shows "out_ok (readLoop_stream k s sid payload fin rest)"
proof -
  have m: "maps_ok s" using assms by (simp add: session_ok_def)
  show ?thesis
  proof (cases "isBidirectionalStream sid")
    case True
    with m assms show ?thesis
      by (cases "newStream s sid")
         (auto simp: readLoop_stream_def Let_def maps_ok_def out_ok_new_bidi
           intro: out_ok_deliver_bidi split: option.splits)
  next
    case False
    with m assms show ?thesis
      by (cases "newReceiveStream s sid")
         (auto simp: readLoop_stream_def Let_def maps_ok_def out_ok_new_uni
           intro: out_ok_deliver_uni split: option.splits)
  qed
qed

lemma handle_limits_ok:
  assumes "limits_ok l" and "handleSendLimitCapsule V srv l typ c ce = (r, l')"
  shows "limits_ok l'"
proof -
  have "limits_ok (snd (raiseMaxData l x))" "limits_ok (snd (raiseMaxStreamData srv l sid x))"
    "limits_ok (snd (raiseMaxStreams l bidi x))" for x sid bidi
    using assms(1) raiseMaxData_cases raiseMaxStreamData_cases raiseMaxStreams_cases
    by (metis prod.collapse)+
  with assms show ?thesis
    unfolding handleSendLimitCapsule_def
    by (metis (no_types, lifting) old.sum.exhaust snd_conv sum.simps(5,6))
qed

lemma out_ok_limit: "session_ok s \<Longrightarrow> out_ok (readLoop_limit V s typ c ce rest)"
proof -
  assume ok: "session_ok s"
  obtain r l where h: "handleSendLimitCapsule V (isServer s) (limits s) typ c ce = (r, l)" by fastforce
  have "session_ok (s\<lparr>limits := l\<rparr>)"
    using session_ok_limits [OF ok] handle_limits_ok [OF session_ok_limitsD [OF ok] h] .
  with h show ?thesis by (auto simp: readLoop_limit_def content_error_def split: option.splits)
qed

lemma out_ok_capsule: "session_ok s \<Longrightarrow> out_ok (readLoop_capsule V k s typ c ce rest)"
  by (auto simp: readLoop_capsule_def content_error_def readLoop_close_def out_ok_stream out_ok_limit
      session_ok_datagrams(1) split: sum.splits prod.splits)

lemma out_ok_iter: "session_ok s \<Longrightarrow> out_ok (readLoop_iter V K k s b e)"
  by (auto simp: readLoop_iter_def out_ok_capsule split: sum.splits)

lemma out_ok_resume: "session_ok s \<Longrightarrow> pending_ok s p \<Longrightarrow> out_ok (resume k s p)"
  by (cases p) (simp_all add: out_ok_accept_bidi out_ok_accept_uni)

section \<open>What no operation undoes\<close>

text \<open>The stores grow, what was written or logged stays, a closed session stays closed and its
  close error is the first one set.\<close>

definition evolves :: "Session \<Rightarrow> Session \<Rightarrow> bool" where
  "evolves s s' \<longleftrightarrow> grows s s' \<and> (done_ch s \<longrightarrow> done_ch s') \<and>
     (\<forall>e. closeErr s = Some e \<longrightarrow> closeErr s' = Some e) \<and>
     (\<exists>ws. written s' = written s @ ws) \<and> (\<exists>es. ends s' = ends s @ es)"

lemma evolves_refl [simp]: "evolves s s" by (simp add: evolves_def)

lemma evolves_trans: "evolves s t \<Longrightarrow> evolves t u \<Longrightarrow> evolves s u"
  by (force simp: evolves_def grows_def)

lemma evolves_same:
  assumes "isServer s' = isServer s" "recvs s' = recvs s" "sends s' = sends s" "done_ch s' = done_ch s"
    "closeErr s' = closeErr s" "written s' = written s" "ends s' = ends s"
  shows "evolves s s'"
  using assms by (simp add: evolves_def grows_def)

lemma evolves_upd [intro]:
  "(\<And>st. rs_ID (f st) = rs_ID st) \<Longrightarrow> evolves s (upd_recv s r f)"
  "(\<And>st. ss_ID (g st) = ss_ID st) \<Longrightarrow> evolves s (upd_send s w g)"
  by (simp_all add: evolves_def grows_def)

lemma evolves_close_marks:
  "evolves s (setCloseErr s e)" "evolves s (setCloseReason s r)"
  by (auto simp: setCloseErr_def setCloseReason_def evolves_def grows_def)

lemma evolves_Close: "evolves s (Session_Close s)"
  by (simp add: Session_Close_def Let_def logSessionEnd_def closeDatagramDelivery_def evolves_def grows_def)

lemma evolves_writeCapsule: "writeCapsule s typ d werr = (r, s') \<Longrightarrow> evolves s s'"
  by (auto simp: writeCapsule_def evolves_def grows_def split: option.splits)

lemma evolves_Flush: "evolves s (Session_Flush s)"
  by (rule evolves_same) simp_all

lemma evolves_CloseWithError: "CloseWithError s code msg werr = (r, s') \<Longrightarrow> evolves s s'"
  by (auto simp: CloseWithError_def Let_def split: if_splits prod.splits option.splits
      intro: evolves_writeCapsule evolves_trans [OF evolves_writeCapsule evolves_trans [OF evolves_Flush
        evolves_trans [OF evolves_close_marks(1) evolves_Close]]])

lemma evolves_new:
  "newReceiveStream s sid = (r, s') \<Longrightarrow> evolves s s'"
  "newSendStream s sid = (w, s') \<Longrightarrow> evolves s s'"
  by (auto simp: newReceiveStream_def newSendStream_def evolves_def grows_def)

lemma evolves_newStream: "newStream s sid = (st, s') \<Longrightarrow> evolves s s'"
  by (auto simp: newStream_def split: prod.splits intro: evolves_new evolves_trans [OF evolves_new(1) evolves_new(2)])

lemma evolves_Open:
  "OpenStream s = (r, s') \<Longrightarrow> evolves s s'"
  "OpenUnidirectionalStream s = (q, s') \<Longrightarrow> evolves s s'"
proof -
  have base: "evolves s (s\<lparr>createdStreamCounter := c, limits := l\<rparr>)" for c l
    by (rule evolves_same) simp_all
  have add: "evolves t (t\<lparr>streams := m\<rparr>)" "evolves t (t\<lparr>sendStreams := m'\<rparr>)" for t m m'
    by (rule evolves_same; simp)+
  show "evolves s s'" if "OpenStream s = (r, s')"
    using that by (auto simp: OpenStream_def base split: if_splits sum.splits prod.splits
        intro: evolves_trans [OF evolves_trans [OF base evolves_newStream] add(1)])
  show "evolves s s'" if "OpenUnidirectionalStream s = (q, s')"
    using that by (auto simp: OpenUnidirectionalStream_def base split: if_splits sum.splits prod.splits
        intro: evolves_trans [OF evolves_trans [OF base evolves_new(2)] add(2)])
qed

lemma evolves_Accept:
  "AcceptStream k ctx s = Some (r, s') \<Longrightarrow> evolves s s'"
  "AcceptUnidirectionalStream k ctx s = Some (q, s') \<Longrightarrow> evolves s s'"
  unfolding AcceptStream_def AcceptUnidirectionalStream_def
  by (drule select_ready_in, auto split: list.splits option.splits if_splits intro: evolves_same)+

lemma evolves_Write: "SendStream_Write V s w p werr = Some (r, s') \<Longrightarrow> evolves s s'"
  by (auto simp: SendStream_Write_def Let_def writeCapsule_def evolves_def grows_def
      split: if_splits prod.splits option.splits)

lemma evolves_streams:
  "WritePadding s w n werr = (a, s') \<Longrightarrow> evolves s s'"
  "SendStream_Close V s w werr = Some (b, s') \<Longrightarrow> evolves s s'"
  "ReceiveStream_Read s r m = Some (x, s') \<Longrightarrow> evolves s s'"
  "evolves s (ReceiveStream_Close s r)"
  "evolves s (finishReceive s r)"
  "receiveStreamData s r p = (e, s') \<Longrightarrow> evolves s s'"
  by (auto simp: WritePadding_def SendStream_Close_def ReceiveStream_Read_def ReceiveStream_Close_def
      finishReceive_def receiveStreamData_def Let_def
      intro: evolves_writeCapsule
        evolves_trans [OF evolves_upd(2) [of "ss_closed_update (\<lambda>_. True)", simplified] evolves_writeCapsule]
      split: if_splits option.splits prod.splits)

lemma evolves_Stream_Close: "Stream_Close V s st werr = Some (b, s') \<Longrightarrow> evolves s s'"
  unfolding Stream_Close_def using evolves_trans [OF evolves_streams(4) evolves_streams(2)] .

lemma evolves_datagrams:
  "evolves s (deliverDatagram s p)"
  "SendDatagram s p werr = (a, s') \<Longrightarrow> evolves s s'"
  "ReceiveDatagram_poll s = (x, s') \<Longrightarrow> evolves s s'"
  by (auto simp: deliverDatagram_def SendDatagram_def ReceiveDatagram_poll_def
      intro: evolves_same evolves_writeCapsule split: if_splits prod.splits)

fun out_state :: "loop_out \<Rightarrow> Session" where
  "out_state (Next s rest) = s"
| "out_state (Exit s) = s"
| "out_state (Wait s p) = s"

lemma evolves_unmap: "evolves s (s\<lparr>receiveStreams := m\<rparr>)" "evolves s (s\<lparr>streams := m'\<rparr>)"
    "evolves s (s\<lparr>streams := m', limits := l\<rparr>)" "evolves s (s\<lparr>limits := l\<rparr>)"
  by (rule evolves_same; simp)+

lemma evolves_deliver:
  "evolves s (out_state (deliver_bidi s st payload fin rest))"
  "evolves s (out_state (deliver_uni s sid r payload fin rest))"
  by (auto simp: deliver_bidi_def deliver_uni_def Let_def split: prod.splits option.splits
      intro: evolves_streams evolves_trans [OF evolves_streams(6) evolves_streams(5)]
        evolves_trans [OF evolves_trans [OF evolves_streams(6) evolves_streams(5)] evolves_unmap(1)])

lemma evolves_enqueue:
  "enqueueIncomingStream k s st = Some (b, s') \<Longrightarrow> evolves s s'"
  "enqueueIncomingUniStream k s r = Some (b, s') \<Longrightarrow> evolves s s'"
  unfolding enqueueIncomingStream_def enqueueIncomingUniStream_def
  by (drule select_ready_in, auto split: if_splits intro: evolves_same)+

lemma evolves_accept_loop:
  "evolves s (out_state (accept_bidi k s st payload fin rest))"
  "evolves s (out_state (accept_uni k s sid r payload fin rest))"
  by (auto simp: accept_bidi_def accept_uni_def split: option.splits bool.splits
      intro: evolves_enqueue evolves_trans [OF evolves_enqueue(1) evolves_deliver(1)]
        evolves_trans [OF evolves_enqueue(2) evolves_deliver(2)])

lemma evolves_stream: "evolves s (out_state (readLoop_stream k s sid payload fin rest))"
proof -
  have b: "evolves s (out_state (accept_bidi k (s1\<lparr>streams := m, limits := l\<rparr>) st payload fin rest))"
    if "newStream s sid = (st, s1)" for st s1 m l
    using evolves_trans [OF evolves_newStream [OF that] evolves_trans [OF evolves_unmap(3) evolves_accept_loop(1)]] .
  have u: "evolves s (out_state (accept_uni k (s1\<lparr>receiveStreams := m\<rparr>) sid r payload fin rest))"
    if "newReceiveStream s sid = (r, s1)" for r s1 m
    using evolves_trans [OF evolves_new(1) [OF that] evolves_trans [OF evolves_unmap(1) evolves_accept_loop(2)]] .
  show ?thesis
    by (auto simp: readLoop_stream_def Let_def evolves_deliver b u split: option.splits prod.splits)
qed

lemma evolves_limit: "evolves s (out_state (readLoop_limit V s typ c ce rest))"
  by (auto simp: readLoop_limit_def content_error_def split: option.splits prod.splits
      intro: evolves_unmap(4) evolves_trans [OF evolves_unmap(4) evolves_close_marks(1)]
        evolves_trans [OF evolves_unmap(4) evolves_close_marks(2)])

lemma evolves_iter: "evolves s (out_state (readLoop_iter V K k s b e))"
  by (auto simp: readLoop_iter_def readLoop_capsule_def content_error_def readLoop_close_def
      evolves_stream evolves_limit evolves_datagrams(1) evolves_close_marks split: sum.splits prod.splits)

lemma evolves_resume: "evolves s (out_state (resume k s p))"
  by (cases p) (simp_all add: evolves_accept_loop)

section \<open>Reachable states\<close>

fun pc_ok :: "Session \<Rightarrow> loop_pc \<Rightarrow> bool" where
  "pc_ok s (Running b) = True"
| "pc_ok s (Waiting p) = pending_ok s p"
| "pc_ok s Stopped = done_ch s"

lemma pending_ok_grows: "grows s s' \<Longrightarrow> pending_ok s p \<Longrightarrow> pending_ok s' p"
  by (cases p) (auto simp: grows_ok)

lemma pc_ok_evolves: "evolves s s' \<Longrightarrow> pc_ok s pc \<Longrightarrow> pc_ok s' pc"
  by (cases pc) (auto simp: evolves_def pending_ok_grows)

lemma done_after_Close: "session_ok s \<Longrightarrow> done_ch (Session_Close s)"
  by (auto simp: Session_Close_def Let_def logSessionEnd_def closeDatagramDelivery_def session_ok_def
      lifecycle_ok_def)

lemma after_iter_ok:
  assumes "out_ok out" and "after_iter out = (s', pc')"
  shows "session_ok s' \<and> pc_ok s' pc'"
  using assms by (cases out) (auto simp: after_iter_def session_ok_Close done_after_Close)

lemma after_iter_evolves:
  "evolves s (out_state out) \<Longrightarrow> evolves s (fst (after_iter out))"
  by (cases out) (auto simp: after_iter_def intro: evolves_trans evolves_Close)

lemmas session_ok_ops = session_ok_Close session_ok_CloseWithError session_ok_OpenStream
  session_ok_OpenUnidirectionalStream session_ok_AcceptStream session_ok_AcceptUnidirectionalStream
  session_ok_Write session_ok_WritePadding session_ok_SendStream_Close session_ok_Stream_Close
  session_ok_Read session_ok_ReceiveStream_Close session_ok_datagrams(2,3) session_ok_Flush [THEN iffD2]

lemmas evolves_ops = evolves_Close evolves_CloseWithError evolves_Open evolves_Accept evolves_Write
  evolves_streams(1-4) evolves_Stream_Close evolves_datagrams(2,3) evolves_Flush

lemma step_evolves: "session_step V K e (s, pc) (s', pc') \<Longrightarrow> evolves s s'"
proof (induction "(s, pc)" "(s', pc')" rule: session_step.induct)
  case (loop b k)
  then show ?case using after_iter_evolves [OF evolves_iter, of s V K k b e] by (metis fst_conv)
next
  case (woken p k)
  then show ?case using after_iter_evolves [OF evolves_resume, of s k p] by (metis fst_conv)
qed (blast intro: evolves_ops)+

lemma step_session_ok:
  "session_step V K e (s, pc) (s', pc') \<Longrightarrow> session_ok s \<Longrightarrow> pc_ok s pc \<Longrightarrow> session_ok s'"
proof (induction "(s, pc)" "(s', pc')" rule: session_step.induct)
  case (loop b k)
  then show ?case using after_iter_ok [OF out_ok_iter] by metis
next
  case (woken p k)
  then show ?case using after_iter_ok [OF out_ok_resume] by (metis pc_ok.simps(2))
qed (blast intro: session_ok_ops)+

lemma step_pc_ok:
  assumes "session_step V K e (s, pc) (s', pc')" and "session_ok s" and "pc_ok s pc"
  shows "pc_ok s' pc'"
  using assms(1)
proof (cases rule: session_step.cases)
  case (loop b k)
  then show ?thesis using after_iter_ok [OF out_ok_iter [OF assms(2)]] by metis
next
  case (woken p k)
  then show ?thesis using after_iter_ok [OF out_ok_resume [OF assms(2)]] assms(3) by (metis pc_ok.simps(2))
qed (use pc_ok_evolves [OF step_evolves [OF assms(1)] assms(3)] in simp_all)

lemma reach_ok:
  assumes "session_reach V K e c d" and "session_ok (fst c)" and "pc_ok (fst c) (snd c)"
  shows "session_ok (fst d) \<and> pc_ok (fst d) (snd d) \<and> evolves (fst c) (fst d)"
  using assms
proof (induction rule: session_reach.induct)
  case (step d d')
  obtain s pc s' pc' where [simp]: "d = (s, pc)" "d' = (s', pc')" by fastforce
  from step have "session_step V K e (s, pc) (s', pc')" and IH: "session_ok s" "pc_ok s pc"
    "evolves (fst c) s" by simp_all
  with step_session_ok step_pc_ok evolves_trans [OF IH(3) step_evolves] show ?case by auto
qed simp
section \<open>Properties\<close>

text \<open>C2: Whatever bytes the peer sends and whatever the application calls, in any interleaving, a
  session keeps its invariant: its maps and queues point to streams of the identifier and the
  kind they are filed under, at most 16 streams wait to be accepted in either direction, every
  receive buffer is within its limit, the send counters are within the peer's grant, and
  the flags of closing agree.\<close>
theorem session_invariant:
  assumes "session_reach V K e (newSessionConfigured protocol srv peer, Running b) (s, pc)"
  shows "session_ok s"
  using reach_ok [OF assms] session_ok_new by simp

definition witness_bytes :: bytes where
  "witness_bytes = [0x99, 0x0B, 0x4D, 0x3C, 3, 1, 104, 105]"

text \<open>The server-opened stream 1 with the payload \<open>hi\<close> reaches a client.\<close>

lemma witness_step:
  "session_step quicwire_varint quicwire_capsule EOF
     (newSession ''p'' False, Running witness_bytes)
     (after_iter (readLoop_iter quicwire_varint quicwire_capsule 0 (newSession ''p'' False) witness_bytes EOF))"
  by (rule session_step.loop)

definition witness_state :: "Session \<times> loop_pc" where
  "witness_state = after_iter (readLoop_iter quicwire_varint quicwire_capsule 0 (newSession ''p'' False) witness_bytes EOF)"

theorem session_invariant_witness:
  "session_ok (fst witness_state) \<and> map st_ID (incomingStreams (fst witness_state)) = [1] \<and>
   map (srb_data \<circ> recvBuffer) (recvs (fst witness_state)) = [[104, 105]]"
proof -
  have "session_reach quicwire_varint quicwire_capsule EOF
      (newSessionConfigured ''p'' False None, Running witness_bytes) (fst witness_state, snd witness_state)"
    using session_reach.step [OF session_reach.start witness_step]
    by (simp add: witness_state_def newSession_def newSessionWithPeerLimits_def)
  moreover have "map st_ID (incomingStreams (fst witness_state)) = [1]"
    "map (srb_data \<circ> recvBuffer) (recvs (fst witness_state)) = [[104, 105]]"
    by code_simp+
  ultimately show ?thesis using session_invariant by blast
qed

text \<open>C19: A session ends once: from the moment it is done, no call and no input changes that it is
  done, what it logged as its end, or a close error that was set; and the log holds exactly
  one end.\<close>
theorem session_ends_once:
  assumes "session_reach V K e (newSessionConfigured protocol srv peer, Running b) d"
    and "session_reach V K e d d'" and "done_ch (fst d)"
  shows "done_ch (fst d') \<and> stop (fst d') \<and> length (ends (fst d')) = 1 \<and> ends (fst d') = ends (fst d) \<and>
    (\<forall>err. closeErr (fst d) = Some err \<longrightarrow> closeErr (fst d') = Some err)"
proof -
  have d: "session_ok (fst d) \<and> pc_ok (fst d) (snd d)"
    using reach_ok [OF assms(1)] session_ok_new by simp
  then have d': "session_ok (fst d')" "evolves (fst d) (fst d')"
    using reach_ok [OF assms(2)] by simp_all
  then have "done_ch (fst d')" "\<exists>es. ends (fst d') = ends (fst d) @ es"
    "\<forall>err. closeErr (fst d) = Some err \<longrightarrow> closeErr (fst d') = Some err"
    using assms(3) by (simp_all add: evolves_def)
  with d d' assms(3) show ?thesis by (auto simp: session_ok_def lifecycle_ok_def)
qed

theorem session_ends_once_witness:
  "length (ends (Session_Close (Session_Close (newSession ''p'' True)))) = 1"
proof -
  let ?s = "newSessionConfigured ''p'' True None" and ?V = quicwire_varint and ?K = quicwire_capsule
  have 1: "session_reach ?V ?K EOF (?s, Running []) (Session_Close ?s, Running [])"
    by (blast intro: session_reach.intros session_step.app_close)
  have 2: "session_reach ?V ?K EOF (Session_Close ?s, Running []) (Session_Close (Session_Close ?s), Running [])"
    by (blast intro: session_reach.intros session_step.app_close)
  have "done_ch (Session_Close ?s)" by (rule done_after_Close [OF session_ok_new])
  with session_ends_once [OF 1 2] show ?thesis by (auto simp: newSession_def newSessionWithPeerLimits_def)
qed

end
