(* ===== verification/Session_Delivery.thy ===== *)
theory Session_Delivery
  imports Session_Safety
begin

text \<open>
  What the read loop does with well-formed input: it always comes to an end, stream data reaches
  the buffer of its stream in order, a close error reaches the peer, and a limit capsule that
  lowers a limit ends the session. Two of the theorems record what happens to a stream after it
  was finished. The facts about capsules are proved once in the context of the locale \<open>wire\<close>.
\<close>

section \<open>What a session has received\<close>

definition recv_ref :: "Session \<Rightarrow> stream_id \<Rightarrow> nat option" where
  "recv_ref s sid =
     (if isBidirectionalStream sid then map_option st_recv (streams s sid) else receiveStreams s sid)"

definition received :: "Session \<Rightarrow> stream_id \<Rightarrow> bytes" where
  "received s sid =
     (case recv_ref s sid of None \<Rightarrow> [] | Some r \<Rightarrow> srb_data (recvBuffer (recvs s ! r)))"

text \<open>The session reads, and the streams it has on file are open.\<close>

definition open_recv :: "int \<Rightarrow> ReceiveStream \<Rightarrow> bool" where
  "open_recv n st \<longleftrightarrow> \<not> rs_closed st \<and> \<not> srb_closed (recvBuffer st) \<and> srb_maxBytes (recvBuffer st) = n"

definition listening :: "Session \<Rightarrow> bool" where
  "listening s \<longleftrightarrow> session_ok s \<and> \<not> stop s \<and>
     (\<forall>sid r. recv_ref s sid = Some r \<longrightarrow> open_recv (StreamReceiveBufferSize s) (recvs s ! r))"

lemma recv_ref_points:
  assumes "session_ok s" and "recv_ref s sid = Some r"
  shows "points (recv_ids s) r sid"
  using assms
  by (auto simp: recv_ref_def session_ok_def maps_ok_def stream_ok_def recv_ok_def split: if_splits)

lemma recv_ref_inj:
  assumes "session_ok s" and "recv_ref s sid = Some r" and "recv_ref s sid' = Some r"
  shows "sid = sid'"
  using recv_ref_points [OF assms(1,2)] recv_ref_points [OF assms(1,3)] by (simp add: points_def)

definition has_room :: "Session \<Rightarrow> stream_id \<Rightarrow> nat \<Rightarrow> bool" where
  "has_room s sid n \<longleftrightarrow>
     (0 < StreamReceiveBufferSize s \<longrightarrow> int (length (received s sid) + n) \<le> StreamReceiveBufferSize s)"

text \<open>What one data capsule does: the buffer of its stream gains the payload and nothing else
  that a reader can see changes.\<close>

definition gained :: "Session \<Rightarrow> Session \<Rightarrow> stream_id \<Rightarrow> bytes \<Rightarrow> bool" where
  "gained s s' sid p \<longleftrightarrow> listening s' \<and> received s' = (received s)(sid := received s sid @ p) \<and>
     StreamReceiveBufferSize s' = StreamReceiveBufferSize s \<and> isServer s' = isServer s \<and>
     closeErr s' = closeErr s \<and> closeReason s' = closeReason s \<and>
     (\<forall>x. (recv_ref s' x \<noteq> None) = (recv_ref s x \<noteq> None \<or> x = sid))"

lemma receive_existing:
  assumes "listening s" and "recv_ref s sid = Some r" and "has_room s sid (length p)"
    and "receiveStreamData s r p = (e, s')"
  shows "e = None \<and> gained s s' sid p \<and> incomingStreams s' = incomingStreams s \<and>
    incomingUnidirectionalStreams s' = incomingUnidirectionalStreams s \<and> recv_ids s' = recv_ids s"
proof -
  have ok: "session_ok s" using assms(1) by (simp add: listening_def)
  have r: "r < length (recvs s)" using recv_ref_points [OF ok assms(2)] by (simp add: points_def)
  let ?st = "recvs s ! r"
  have st: "\<not> rs_closed ?st" "\<not> srb_closed (recvBuffer ?st)"
    "srb_maxBytes (recvBuffer ?st) = StreamReceiveBufferSize s"
    using assms(1,2) by (auto simp: listening_def open_recv_def)
  have rec: "received s sid = srb_data (recvBuffer ?st)" by (simp add: received_def assms(2))
  let ?b = "(recvBuffer ?st)\<lparr>srb_data := srb_data (recvBuffer ?st) @ p\<rparr>"
  let ?s = "upd_recv s r (\<lambda>st. st\<lparr>recvBuffer := ?b\<rparr>)"
  have e: "e = None" and s': "s' = ?s"
    using assms(3,4) st rec
    by (auto simp: receiveStreamData_def streamReceiveBuffer_write_def has_room_def split: if_splits)
  have ok': "session_ok s'" using session_ok_receiveStreamData(1) [OF ok r assms(4)] .
  have ref: "recv_ref s' = recv_ref s" by (simp add: s' fun_eq_iff recv_ref_def)
  have rv: "recvs s' = (recvs s)[r := ?st\<lparr>recvBuffer := ?b\<rparr>]" by (simp add: s' upd_recv_def)
  have "received s' x = ((received s)(sid := received s sid @ p)) x" for x
  proof (cases "x = sid")
    case True
    with r assms(2) show ?thesis by (simp add: received_def ref rv)
  next
    case False
    with recv_ref_inj [OF ok assms(2), of x] have "recv_ref s x \<noteq> Some r" by blast
    with False show ?thesis by (auto simp: received_def ref rv nth_list_update split: option.splits)
  qed
  moreover have "listening s'"
  proof -
    have "stop s' = stop s" "StreamReceiveBufferSize s' = StreamReceiveBufferSize s"
      by (simp_all add: s' upd_recv_def)
    with assms(1) ok' st r show ?thesis
      by (auto simp: listening_def open_recv_def ref rv nth_list_update)
  qed
  moreover have "StreamReceiveBufferSize s' = StreamReceiveBufferSize s" "isServer s' = isServer s"
    "closeErr s' = closeErr s" "closeReason s' = closeReason s"
    "incomingStreams s' = incomingStreams s"
    "incomingUnidirectionalStreams s' = incomingUnidirectionalStreams s"
    by (simp_all add: s' upd_recv_def)
  moreover have "recv_ids s' = recv_ids s"
    using session_ok_receiveStreamData(3) [OF ok r assms(4)] .
  ultimately show ?thesis
    using assms(2) e by (simp add: gained_def ref fun_eq_iff) blast
qed

text \<open>A new stream, before its first payload.\<close>

definition enrolled :: "Session \<Rightarrow> Session \<Rightarrow> stream_id \<Rightarrow> bool" where
  "enrolled s s' sid \<longleftrightarrow> listening s' \<and> received s' = received s \<and>
     StreamReceiveBufferSize s' = StreamReceiveBufferSize s \<and> isServer s' = isServer s \<and>
     closeErr s' = closeErr s \<and> closeReason s' = closeReason s \<and>
     (\<forall>x. (recv_ref s' x \<noteq> None) = (recv_ref s x \<noteq> None \<or> x = sid))"

lemma enroll:
  assumes "listening s" and "recv_ref s sid = None" and "session_ok s'"
    and "recvs s' = recvs s @ [\<lparr>rs_ID = sid, rs_closed = False,
           recvBuffer = newStreamReceiveBuffer (StreamReceiveBufferSize s)\<rparr>]"
    and "recv_ref s' = (recv_ref s)(sid \<mapsto> length (recvs s))"
    and "StreamReceiveBufferSize s' = StreamReceiveBufferSize s" "isServer s' = isServer s"
    "closeErr s' = closeErr s" "closeReason s' = closeReason s" "stop s' = stop s"
  shows "enrolled s s' sid"
proof -
  have ok: "session_ok s" using assms(1) by (simp add: listening_def)
  have "received s' x = received s x" for x
  proof (cases "x = sid")
    case True
    with assms(2,4,5) show ?thesis by (simp add: received_def newStreamReceiveBuffer_def)
  next
    case False
    have "r < length (recvs s)" if "recv_ref s x = Some r" for r
      using recv_ref_points [OF ok that] by (simp add: points_def)
    with False assms(4,5) show ?thesis by (simp add: received_def nth_append split: option.splits)
  qed
  moreover have "listening s'"
    using assms recv_ref_points [OF ok]
    by (auto simp: listening_def open_recv_def newStreamReceiveBuffer_def points_def nth_append
        split: if_splits)
  ultimately show ?thesis using assms by (auto simp: enrolled_def fun_eq_iff)
qed

text \<open>The identifiers of the streams that wait to be accepted, in order.\<close>

definition waiting_ids :: "Session \<Rightarrow> bool \<Rightarrow> stream_id list" where
  "waiting_ids s bidi =
     (if bidi then map st_ID (incomingStreams s)
      else map (\<lambda>r. rs_ID (recvs s ! r)) (incomingUnidirectionalStreams s))"

lemma waiting_uni: "map (\<lambda>r. rs_ID (recvs s ! r)) rs = map (\<lambda>r. recv_ids s ! r) rs"
  if "\<And>r. r \<in> set rs \<Longrightarrow> r < length (recvs s)"
  using that by (simp add: map_eq_conv nth_map)

lemma queued_uni_refs:
  "session_ok s \<Longrightarrow> r \<in> set (incomingUnidirectionalStreams s) \<Longrightarrow> r < length (recvs s)"
  by (auto simp: session_ok_def queues_ok_def recv_ok_def points_def)

definition opens :: "Session \<Rightarrow> stream_id \<Rightarrow> bool \<Rightarrow> stream_id list" where
  "opens s sid bidi = (if recv_ref s sid = None \<and> isBidirectionalStream sid = bidi then [sid] else [])"

lemma gained_after_enroll:
  assumes "enrolled s s1 sid" and "gained s1 s2 sid p"
  shows "gained s s2 sid p"
  using assms by (auto simp: enrolled_def gained_def)

lemma data_on_known:
  assumes "listening s" and "recv_ref s sid = Some r" and "has_room s sid (length p)"
  shows "\<exists>s'. (\<forall>k rest. readLoop_stream k s sid p False rest = Next s' rest) \<and> gained s s' sid p \<and>
    (\<forall>bidi. waiting_ids s' bidi = waiting_ids s bidi)"
proof -
  obtain e s' where d: "receiveStreamData s r p = (e, s')" by fastforce
  note rx = receive_existing [OF assms d]
  have ok: "session_ok s" using assms(1) by (simp add: listening_def)
  have "map (\<lambda>r. rs_ID (recvs s' ! r)) (incomingUnidirectionalStreams s) =
      map (\<lambda>r. rs_ID (recvs s ! r)) (incomingUnidirectionalStreams s)"
  proof (rule map_cong [OF refl])
    fix x assume "x \<in> set (incomingUnidirectionalStreams s)"
    then have "x < length (recvs s)" using queued_uni_refs [OF ok] by blast
    moreover have "recv_ids s' = recv_ids s" using rx by blast
    ultimately show "rs_ID (recvs s' ! x) = rs_ID (recvs s ! x)"
      by (metis length_map nth_map)
  qed
  with rx have "\<forall>bidi. waiting_ids s' bidi = waiting_ids s bidi" by (simp add: waiting_ids_def)
  moreover have "readLoop_stream k s sid p False rest = Next s' rest" for k rest
    using assms(2) d rx
    by (auto simp: readLoop_stream_def recv_ref_def deliver_bidi_def deliver_uni_def split: if_splits)
  ultimately show ?thesis using rx by blast
qed

definition room_to_accept :: "Session \<Rightarrow> bool \<Rightarrow> bool" where
  "room_to_accept s bidi \<longleftrightarrow> length (waiting_ids s bidi) < incoming_capacity"

lemma listening_not_done: "listening s \<Longrightarrow> \<not> done_ch s \<and> \<not> stop s"
  by (auto simp: listening_def session_ok_def lifecycle_ok_def)

lemma enqueue_now:
  "\<not> done_ch s \<Longrightarrow> length (incomingStreams s) < incoming_capacity \<Longrightarrow>
   enqueueIncomingStream k s st = Some (True, s\<lparr>incomingStreams := incomingStreams s @ [st]\<rparr>)"
  "\<not> done_ch s \<Longrightarrow> length (incomingUnidirectionalStreams s) < incoming_capacity \<Longrightarrow>
   enqueueIncomingUniStream k s r =
     Some (True, s\<lparr>incomingUnidirectionalStreams := incomingUnidirectionalStreams s @ [r]\<rparr>)"
  by (simp_all add: enqueueIncomingStream_def enqueueIncomingUniStream_def select_ready_def)

lemma has_room_enrolled: "enrolled s s' sid \<Longrightarrow> has_room s' x n = has_room s x n"
  by (simp add: enrolled_def has_room_def)

lemma data_on_new_uni:
  assumes "listening s" and "recv_ref s sid = None" and "\<not> isBidirectionalStream sid"
    and "\<not> isOurStream (isServer s) sid" and "has_room s sid (length p)" and "room_to_accept s False"
  shows "\<exists>s'. (\<forall>k rest. readLoop_stream k s sid p False rest = Next s' rest) \<and> gained s s' sid p \<and>
    waiting_ids s' False = waiting_ids s False @ [sid] \<and> waiting_ids s' True = waiting_ids s True"
proof -
  have ok: "session_ok s" using assms(1) by (simp add: listening_def)
  let ?r = "length (recvs s)"
  obtain s1 where n: "newReceiveStream s sid = (?r, s1)" by (simp add: newReceiveStream_def)
  note new = session_ok_newReceiveStream [OF ok n]
  let ?s2 = "s1\<lparr>receiveStreams := (receiveStreams s1)(sid \<mapsto> ?r)\<rparr>"
  let ?s3 = "?s2\<lparr>incomingUnidirectionalStreams := incomingUnidirectionalStreams s1 @ [?r]\<rparr>"
  have s1: "s1 = s\<lparr>recvs := recvs s1\<rparr>" "recvs s1 = recvs s @ [\<lparr>rs_ID = sid, rs_closed = False,
      recvBuffer = newStreamReceiveBuffer (StreamReceiveBufferSize s)\<rparr>]"
    using n by (auto simp: newReceiveStream_def)
  have fr: "incomingUnidirectionalStreams s1 = incomingUnidirectionalStreams s"
    "incomingStreams s1 = incomingStreams s" "done_ch s1 = done_ch s" "isServer s1 = isServer s"
    "StreamReceiveBufferSize s1 = StreamReceiveBufferSize s" "closeErr s1 = closeErr s"
    "closeReason s1 = closeReason s" "stop s1 = stop s" "streams s1 = streams s"
    "receiveStreams s1 = receiveStreams s"
    by (subst s1(1), simp)+
  have len: "length (incomingUnidirectionalStreams s) < incoming_capacity"
    using assms(6) by (simp add: room_to_accept_def waiting_ids_def)
  have "recv_ok s1 sid ?r" using new(2,6) assms(3,4) by (simp add: recv_ok_def)
  from session_ok_map_recv [OF new(1) this] this have ok2: "session_ok ?s2" "recv_ok ?s2 sid ?r"
    by (simp_all add: recv_ok_def)
  have ok3: "session_ok ?s3" using session_ok_enqueue(2) [OF ok2] len fr(1) by simp
  have ref3: "recv_ref ?s3 = (recv_ref s)(sid \<mapsto> ?r)"
    using assms(3) by (auto simp: recv_ref_def fun_eq_iff fr)
  have en: "enrolled s ?s3 sid"
    by (rule enroll [OF assms(1,2) ok3 _ ref3]) (simp_all add: fr s1(2))
  obtain e s' where d: "receiveStreamData ?s3 ?r p = (e, s')" by fastforce
  have l3: "listening ?s3" using en unfolding enrolled_def by blast
  have room3: "has_room ?s3 sid (length p)" using has_room_enrolled [OF en] assms(5) by simp
  note rx = receive_existing [OF l3 _ room3 d]
  have ref3': "recv_ref ?s3 sid = Some ?r" by (simp add: ref3)
  have "\<not> done_ch s" using listening_not_done [OF assms(1)] by simp
  then have "readLoop_stream k s sid p False rest = Next s' rest" for k rest
    using assms(2-4) n d rx [OF ref3'] len
    by (simp add: readLoop_stream_def recv_ref_def accept_uni_def deliver_uni_def enqueue_now fr)
  moreover have "gained s s' sid p" using gained_after_enroll [OF en] rx [OF ref3'] by blast
  moreover have "waiting_ids s' False = waiting_ids s False @ [sid]"
  proof -
    have q: "incomingUnidirectionalStreams s' = incomingUnidirectionalStreams s @ [?r]"
      and ids: "recv_ids s' = recv_ids s @ [sid]"
      using rx [OF ref3'] by (simp_all add: fr s1(2))
    have at: "rs_ID (recvs s' ! x) = (recv_ids s @ [sid]) ! x" if "x \<le> ?r" for x
      using that ids by (metis length_append_singleton length_map less_Suc_eq_le nth_map)
    have "map (\<lambda>r. rs_ID (recvs s' ! r)) (incomingUnidirectionalStreams s) =
        map (\<lambda>r. rs_ID (recvs s ! r)) (incomingUnidirectionalStreams s)"
      using queued_uni_refs [OF ok] at by (simp add: nth_append less_imp_le)
    with at [of ?r] show ?thesis by (simp add: waiting_ids_def q nth_append)
  qed
  moreover have "waiting_ids s' True = waiting_ids s True"
    using rx [OF ref3'] by (simp add: waiting_ids_def fr)
  ultimately show ?thesis by blast
qed

lemma data_on_new_bidi:
  assumes "listening s" and "recv_ref s sid = None" and "isBidirectionalStream sid"
    and "\<not> isOurStream (isServer s) sid" and "has_room s sid (length p)" and "room_to_accept s True"
  shows "\<exists>s'. (\<forall>k rest. readLoop_stream k s sid p False rest = Next s' rest) \<and> gained s s' sid p \<and>
    waiting_ids s' True = waiting_ids s True @ [sid] \<and> waiting_ids s' False = waiting_ids s False"
proof -
  have ok: "session_ok s" using assms(1) by (simp add: listening_def)
  let ?r = "length (recvs s)"
  let ?st = "\<lparr>st_ID = sid, st_recv = ?r, st_send = length (sends s)\<rparr>"
  obtain s1 where n: "newStream s sid = (?st, s1)"
    by (simp add: newStream_def newReceiveStream_def newSendStream_def)
  note new = session_ok_newStream [OF ok assms(3) n]
  let ?s2 = "s1\<lparr>streams := (streams s1)(sid \<mapsto> ?st),
    limits := trackSendStream (isServer s1) (limits s1) sid\<rparr>"
  let ?s3 = "?s2\<lparr>incomingStreams := incomingStreams s1 @ [?st]\<rparr>"
  have s1: "s1 = s\<lparr>recvs := recvs s1, sends := sends s1\<rparr>"
    "recvs s1 = recvs s @ [\<lparr>rs_ID = sid, rs_closed = False,
      recvBuffer = newStreamReceiveBuffer (StreamReceiveBufferSize s)\<rparr>]"
    using n by (auto simp: newStream_def newReceiveStream_def newSendStream_def)
  have fr: "incomingUnidirectionalStreams s1 = incomingUnidirectionalStreams s"
    "incomingStreams s1 = incomingStreams s" "done_ch s1 = done_ch s" "isServer s1 = isServer s"
    "StreamReceiveBufferSize s1 = StreamReceiveBufferSize s" "closeErr s1 = closeErr s"
    "closeReason s1 = closeReason s" "stop s1 = stop s" "streams s1 = streams s"
    "receiveStreams s1 = receiveStreams s"
    by (subst s1(1), simp)+
  have len: "length (incomingStreams s) < incoming_capacity"
    using assms(6) by (simp add: room_to_accept_def waiting_ids_def)
  have "session_ok ?s2"
    using session_ok_limits [OF session_ok_map_stream [OF new(1,2)]
      limits_ok_track [OF session_ok_limitsD [OF new(1)]]] .
  moreover have "incoming_stream_ok ?s2 ?st"
    using new(2) assms(4) by (simp add: incoming_stream_ok_def stream_ok_def fr)
  ultimately have ok3: "session_ok ?s3"
    using session_ok_enqueue(1) [of ?s2 ?st] len fr(2) by simp
  have ref3: "recv_ref ?s3 = (recv_ref s)(sid \<mapsto> ?r)"
    using assms(3) by (auto simp: recv_ref_def fun_eq_iff fr)
  have en: "enrolled s ?s3 sid"
    by (rule enroll [OF assms(1,2) ok3 _ ref3]) (simp_all add: fr s1(2))
  obtain e s' where d: "receiveStreamData ?s3 ?r p = (e, s')" by fastforce
  have l3: "listening ?s3" using en unfolding enrolled_def by blast
  have room3: "has_room ?s3 sid (length p)" using has_room_enrolled [OF en] assms(5) by simp
  have ref3': "recv_ref ?s3 sid = Some ?r" by (simp add: ref3)
  note rx = receive_existing [OF l3 ref3' room3 d]
  have "\<not> done_ch s" using listening_not_done [OF assms(1)] by simp
  then have "readLoop_stream k s sid p False rest = Next s' rest" for k rest
    using assms(2-4) n d rx len
    by (simp add: readLoop_stream_def recv_ref_def accept_bidi_def deliver_bidi_def enqueue_now fr)
  moreover have "gained s s' sid p" using gained_after_enroll [OF en] rx by blast
  moreover have "waiting_ids s' True = waiting_ids s True @ [sid]"
    using rx by (simp add: waiting_ids_def fr)
  moreover have "waiting_ids s' False = waiting_ids s False"
  proof -
    have ids: "recv_ids s' = recv_ids s @ [sid]" using rx by (simp add: s1(2))
    have "rs_ID (recvs s' ! x) = rs_ID (recvs s ! x)" if "x < ?r" for x
      using that ids by (metis length_append_singleton length_map less_SucI nth_append nth_map)
    then show ?thesis using rx queued_uni_refs [OF ok] by (simp add: waiting_ids_def fr)
  qed
  ultimately show ?thesis by blast
qed

text \<open>One data capsule, in the three cases together.\<close>

lemma data_capsule:
  assumes "listening s" and "\<not> isOurStream (isServer s) sid" and "has_room s sid (length p)"
    and "recv_ref s sid = None \<Longrightarrow> room_to_accept s (isBidirectionalStream sid)"
  shows "\<exists>s'. (\<forall>k rest. readLoop_stream k s sid p False rest = Next s' rest) \<and> gained s s' sid p \<and>
    (\<forall>bidi. waiting_ids s' bidi = waiting_ids s bidi @ opens s sid bidi)"
proof (cases "recv_ref s sid")
  case None
  show ?thesis
  proof (cases "isBidirectionalStream sid")
    case True
    with data_on_new_bidi [OF assms(1) None True assms(2,3)] assms(4) None obtain s' where
      "\<forall>k rest. readLoop_stream k s sid p False rest = Next s' rest" "gained s s' sid p"
      "waiting_ids s' True = waiting_ids s True @ [sid]" "waiting_ids s' False = waiting_ids s False"
      by auto
    then show ?thesis using None True by (intro exI [of _ s']) (simp add: opens_def)
  next
    case False
    with data_on_new_uni [OF assms(1) None False assms(2,3)] assms(4) None obtain s' where
      "\<forall>k rest. readLoop_stream k s sid p False rest = Next s' rest" "gained s s' sid p"
      "waiting_ids s' False = waiting_ids s False @ [sid]" "waiting_ids s' True = waiting_ids s True"
      by auto
    then show ?thesis using None False by (intro exI [of _ s']) (simp add: opens_def)
  qed
next
  case (Some r)
  with data_on_known [OF assms(1) Some assms(3)] show ?thesis by (simp add: opens_def)
qed

lemma close_frame [simp]:
  "recvs (Session_Close s) = recvs s" "streams (Session_Close s) = streams s"
  "receiveStreams (Session_Close s) = receiveStreams s" "closeErr (Session_Close s) = closeErr s"
  "incomingStreams (Session_Close s) = incomingStreams s"
  "incomingUnidirectionalStreams (Session_Close s) = incomingUnidirectionalStreams s"
  by (simp_all add: Session_Close_def Let_def logSessionEnd_def closeDatagramDelivery_def)

lemma reason_frame [simp]:
  "recvs (setCloseReason s x) = recvs s" "streams (setCloseReason s x) = streams s"
  "receiveStreams (setCloseReason s x) = receiveStreams s" "closeErr (setCloseReason s x) = closeErr s"
  "incomingStreams (setCloseReason s x) = incomingStreams s"
  "incomingUnidirectionalStreams (setCloseReason s x) = incomingUnidirectionalStreams s"
  by (simp_all add: setCloseReason_def)

lemma received_cong:
  assumes "recvs s' = recvs s" "streams s' = streams s" "receiveStreams s' = receiveStreams s"
    "incomingStreams s' = incomingStreams s"
    "incomingUnidirectionalStreams s' = incomingUnidirectionalStreams s"
  shows "received s' = received s" "waiting_ids s' = waiting_ids s"
  unfolding received_def [abs_def] recv_ref_def [abs_def] waiting_ids_def [abs_def] assms by (rule refl)+

section \<open>From writer to reader\<close>

type_synonym chunk = "stream_id \<times> bytes"

definition payload_of :: "stream_id \<Rightarrow> chunk list \<Rightarrow> bytes" where
  "payload_of sid cs = concat (map snd (filter (\<lambda>c. fst c = sid) cs))"

lemma payload_of_simps [simp]:
  "payload_of sid [] = []"
  "payload_of sid (c # cs) = (if fst c = sid then snd c else []) @ payload_of sid cs"
  by (simp_all add: payload_of_def)

text \<open>The streams a list of chunks opens, in the order of their first chunks.\<close>

fun fresh_ids :: "(stream_id \<Rightarrow> bool) \<Rightarrow> bool \<Rightarrow> chunk list \<Rightarrow> stream_id list" where
  "fresh_ids known bidi [] = []"
| "fresh_ids known bidi (c # cs) =
     (if \<not> known (fst c) \<and> isBidirectionalStream (fst c) = bidi then [fst c] else []) @
     fresh_ids (known(fst c := True)) bidi cs"

definition chunk_capsule :: "varint_ops \<Rightarrow> chunk \<Rightarrow> CapsuleType \<times> bytes" where
  "chunk_capsule V c = (CapsuleWTStream, the (vappend V (fst c)) @ snd c)"

definition chunk_ok :: "bool \<Rightarrow> chunk \<Rightarrow> bool" where
  "chunk_ok srv c \<longleftrightarrow> \<not> isOurStream srv (fst c) \<and> unat (fst c) < 2 ^ 62 \<and> length (snd c) < 2 ^ 62 - 8"

text \<open>The receiver has room for the chunks: in the buffer of every stream and in the two queues.\<close>

definition chunks_fit :: "Session \<Rightarrow> chunk list \<Rightarrow> bool" where
  "chunks_fit s cs \<longleftrightarrow> (\<forall>sid. has_room s sid (length (payload_of sid cs))) \<and>
     (\<forall>bidi. length (waiting_ids s bidi) +
        length (fresh_ids (\<lambda>x. recv_ref s x \<noteq> None) bidi cs) \<le> incoming_capacity)"

lemma chunks_fit_head:
  assumes "chunks_fit s (c # cs)"
  shows "has_room s (fst c) (length (snd c))"
    "recv_ref s (fst c) = None \<Longrightarrow> room_to_accept s (isBidirectionalStream (fst c))"
proof -
  have "has_room s (fst c) (length (payload_of (fst c) (c # cs)))"
    using assms by (simp only: chunks_fit_def)
  then show "has_room s (fst c) (length (snd c))" by (auto simp: has_room_def)
  have "length (waiting_ids s (isBidirectionalStream (fst c))) + length (fresh_ids
      (\<lambda>x. recv_ref s x \<noteq> None) (isBidirectionalStream (fst c)) (c # cs)) \<le> incoming_capacity"
    using assms unfolding chunks_fit_def by blast
  then show "room_to_accept s (isBidirectionalStream (fst c))" if "recv_ref s (fst c) = None"
    using that by (simp add: room_to_accept_def)
qed

lemma gained_known:
  "gained s s' sid p \<Longrightarrow> (\<lambda>x. recv_ref s' x \<noteq> None) = (\<lambda>x. recv_ref s x \<noteq> None)(sid := True)"
  by (auto simp: gained_def fun_eq_iff)

lemma opens_fresh:
  "opens s sid bidi = (if \<not> (recv_ref s sid \<noteq> None) \<and> isBidirectionalStream sid = bidi then [sid] else [])"
  by (simp add: opens_def)

lemma chunks_fit_tail:
  assumes "chunks_fit s (c # cs)" and g: "gained s s' (fst c) (snd c)"
    and w: "\<And>bidi. waiting_ids s' bidi = waiting_ids s bidi @ opens s (fst c) bidi"
  shows "chunks_fit s' cs"
proof -
  have "has_room s' sid (length (payload_of sid cs))" for sid
  proof -
    have "has_room s sid (length (payload_of sid (c # cs)))"
      using assms(1) by (simp only: chunks_fit_def)
    with g show ?thesis by (auto simp: has_room_def gained_def)
  qed
  moreover have "length (waiting_ids s' bidi) +
      length (fresh_ids (\<lambda>x. recv_ref s' x \<noteq> None) bidi cs) \<le> incoming_capacity" for bidi
  proof -
    have "length (waiting_ids s bidi) +
        length (fresh_ids (\<lambda>x. recv_ref s x \<noteq> None) bidi (c # cs)) \<le> incoming_capacity"
      using assms(1) unfolding chunks_fit_def by blast
    then show ?thesis
      unfolding gained_known [OF g] w opens_fresh by (simp split: if_splits)
  qed
  ultimately show ?thesis by (simp add: chunks_fit_def)
qed

context wire
begin

lemma iter_capsule:
  "\<not> stop s \<Longrightarrow> cap_write K t d = Some bs \<Longrightarrow> length d < 2 ^ 62 \<Longrightarrow>
   readLoop_iter V K k s (bs @ rest) e = readLoop_capsule V k s t d EOF rest"
  by (simp add: readLoop_iter_def parse_write)

lemma data_capsule_dispatch:
  "vappend V sid = Some h \<Longrightarrow>
   readLoop_capsule V k s CapsuleWTStream (h @ p) EOF rest = readLoop_stream k s sid p False rest"
  "vappend V sid = Some h \<Longrightarrow>
   readLoop_capsule V k s CapsuleWTStreamFin (h @ p) EOF rest = readLoop_stream k s sid p True rest"
  by (simp_all add: readLoop_capsule_def capsule_types read_append ReadAll_def)

lemma loop_chunks:
  assumes "listening s" and "list_all (chunk_ok (isServer s)) cs" and "chunks_fit s cs"
    and "write_all (map (chunk_capsule V) cs) = Some bs"
  shows "\<exists>s'. (\<forall>fuel. readLoop V K ks (length cs + fuel) s (bs @ rest) e = readLoop V K ks fuel s' rest e) \<and>
    listening s' \<and> closeErr s' = closeErr s \<and> closeReason s' = closeReason s \<and>
    (\<forall>sid. received s' sid = received s sid @ payload_of sid cs) \<and>
    (\<forall>bidi. waiting_ids s' bidi = waiting_ids s bidi @ fresh_ids (\<lambda>x. recv_ref s x \<noteq> None) bidi cs)"
  using assms
proof (induction cs arbitrary: s bs)
  case Nil
  then show ?case by auto
next
  case (Cons c cs)
  obtain sid p where c: "c = (sid, p)" by (cases c)
  have ok: "\<not> isOurStream (isServer s) sid" "unat sid < 2 ^ 62" "length p < 2 ^ 62 - 8"
    using Cons.prems(2) by (simp_all add: c chunk_ok_def)
  obtain h where h: "vappend V sid = Some h" using append_small [OF ok(2)] by blast
  obtain b bs' where b: "cap_write K CapsuleWTStream (h @ p) = Some b"
    and bs': "write_all (map (chunk_capsule V) cs) = Some bs'" and bs: "bs = b @ bs'"
    using Cons.prems(4) by (auto simp: c chunk_capsule_def [of V "(sid, p)"] h split: option.splits)
  have len: "length (h @ p) < 2 ^ 62" using append_nonempty [OF h] ok(3) by simp
  note head = chunks_fit_head [OF Cons.prems(3), simplified c fst_conv snd_conv]
  obtain s1 where s1: "\<And>k rest. readLoop_stream k s sid p False rest = Next s1 rest" and g: "gained s s1 sid p"
    and w: "\<And>bidi. waiting_ids s1 bidi = waiting_ids s bidi @ opens s sid bidi"
    using data_capsule [OF Cons.prems(1) ok(1) head] by blast
  have ns: "\<not> stop s" using Cons.prems(1) by (simp add: listening_def)
  have step: "readLoop V K ks (Suc n) s (b @ x) e = readLoop V K ks n s1 x e" for n x
    by (simp add: readLoop.simps(2) iter_capsule [OF ns b len] data_capsule_dispatch(1) [OF h] s1)
  have "isServer s1 = isServer s" "listening s1" and m: "closeErr s1 = closeErr s" "closeReason s1 = closeReason s"
    using g by (simp_all add: gained_def)
  moreover have "chunks_fit s1 cs" using chunks_fit_tail [OF Cons.prems(3)] g w by (simp add: c)
  ultimately obtain s2 where
    run: "\<And>fuel. readLoop V K ks (length cs + fuel) s1 (bs' @ rest) e = readLoop V K ks fuel s2 rest e"
    and l2: "listening s2" "closeErr s2 = closeErr s1" "closeReason s2 = closeReason s1"
    and rec: "\<And>x. received s2 x = received s1 x @ payload_of x cs"
    and wait: "\<And>bidi. waiting_ids s2 bidi = waiting_ids s1 bidi @ fresh_ids (\<lambda>x. recv_ref s1 x \<noteq> None) bidi cs"
    using Cons.IH [of s1 bs'] Cons.prems(2) bs' by auto
  have "readLoop V K ks (length (c # cs) + fuel) s (bs @ rest) e = readLoop V K ks fuel s2 rest e" for fuel
    using step [of "length cs + fuel" "bs' @ rest"] run by (simp add: bs)
  moreover have "received s2 x = received s x @ payload_of x (c # cs)" for x
    using g rec by (simp add: gained_def c)
  moreover have "waiting_ids s2 bidi = waiting_ids s bidi @ fresh_ids (\<lambda>x. recv_ref s x \<noteq> None) bidi (c # cs)" for bidi
    unfolding wait w gained_known [OF g] opens_fresh by (simp add: c)
  ultimately show ?case using l2 m by (intro exI [of _ s2]) simp
qed

text \<open>The end of the input after the chunks.\<close>

lemma loop_chunks_then_end:
  assumes "listening s" and "list_all (chunk_ok (isServer s)) cs" and "chunks_fit s cs"
    and "write_all (map (chunk_capsule V) cs) = Some bs" and "length cs < fuel"
  shows "\<exists>s'. readLoop V K ks fuel s bs e = Returned s' \<and> done_ch s' \<and> closeErr s' = closeErr s \<and>
    (\<forall>sid. received s' sid = received s sid @ payload_of sid cs) \<and>
    (\<forall>bidi. waiting_ids s' bidi = waiting_ids s bidi @ fresh_ids (\<lambda>x. recv_ref s x \<noteq> None) bidi cs)"
proof -
  obtain n where n: "fuel = length cs + Suc n" using assms(5) less_iff_Suc_add by auto
  from loop_chunks [OF assms(1-4), of ks "[]" e] obtain s1 where
    run: "\<And>m. readLoop V K ks (length cs + m) s bs e = readLoop V K ks m s1 [] e"
    and l: "listening s1" "closeErr s1 = closeErr s"
    and rec: "\<And>sid. received s1 sid = received s sid @ payload_of sid cs"
    and wait: "\<And>bidi. waiting_ids s1 bidi = waiting_ids s bidi @ fresh_ids (\<lambda>x. recv_ref s x \<noteq> None) bidi cs"
    by auto
  have ns: "\<not> stop s1" "session_ok s1" using l(1) by (simp_all add: listening_def)
  let ?r = "setCloseReason s1 (if isCleanConnectTeardown e then ''connect_fin'' else ''error'')"
  have fin: "readLoop V K ks fuel s bs e = Returned (Session_Close ?r)"
    unfolding n run by (simp add: readLoop.simps(2) readLoop_iter_def ns parse_end)
  have "done_ch (Session_Close ?r)" by (rule done_after_Close) (simp add: ns)
  moreover have "received (Session_Close ?r) = received s1" "waiting_ids (Session_Close ?r) = waiting_ids s1"
    "closeErr (Session_Close ?r) = closeErr s1"
    by (rule received_cong; simp)+ simp
  ultimately show ?thesis using fin l rec wait by auto
qed

end

text \<open>A series of writes that all succeed, and the chunks they carry.\<close>

fun writes :: "varint_ops \<Rightarrow> Session \<Rightarrow> (nat \<times> bytes) list \<Rightarrow> Session option" where
  "writes V s [] = Some s"
| "writes V s (x # ws) =
     (case SendStream_Write V s (fst x) (snd x) None of
        Some ((n, None), s') \<Rightarrow> writes V s' ws
      | _ \<Rightarrow> None)"

definition chunks_of :: "Session \<Rightarrow> (nat \<times> bytes) list \<Rightarrow> chunk list" where
  "chunks_of s ws = map (\<lambda>x. (ss_ID (sends s ! fst x), snd x)) ws"

lemma Write_ok:
  assumes "SendStream_Write V s w p None = Some ((n, None), s')"
  shows "n = length p" "sends s' = sends s" "vappend V (ss_ID (sends s ! w)) \<noteq> None"
    "written s' = written s @ [chunk_capsule V (ss_ID (sends s ! w), p)]"
  using assms
  by (auto simp: SendStream_Write_def Let_def writeCapsule_def chunk_capsule_def
      split: if_splits option.splits prod.splits)

lemma writes_written:
  "writes V s ws = Some s' \<Longrightarrow>
   written s' = written s @ map (chunk_capsule V) (chunks_of s ws)"
proof (induction ws arbitrary: s)
  case (Cons x ws)
  then obtain n s1 where a: "SendStream_Write V s (fst x) (snd x) None = Some ((n, None), s1)"
    and b: "writes V s1 ws = Some s'"
    by (auto split: option.splits)
  note w = Write_ok [OF a]
  from Cons.IH [OF b] w show ?case by (simp add: chunks_of_def)
qed (simp add: chunks_of_def)

lemma listening_new: "listening (newSessionConfigured protocol srv peer)"
  using session_ok_new [of protocol srv peer] by (simp add: listening_def newSessionConfigured_def recv_ref_def)

lemma received_new:
  "received (newSessionConfigured protocol srv peer) sid = []"
  "recv_ref (newSessionConfigured protocol srv peer) sid = None"
  "waiting_ids (newSessionConfigured protocol srv peer) bidi = []"
  "StreamReceiveBufferSize (newSessionConfigured protocol srv peer) = defaultReceiveBufferSize"
  "isServer (newSessionConfigured protocol srv peer) = srv"
  "closeErr (newSessionConfigured protocol srv peer) = None"
  by (simp_all add: newSessionConfigured_def received_def recv_ref_def waiting_ids_def)


definition demo_sender :: Session where
  "demo_sender = snd (OpenUnidirectionalStream (snd (OpenStream (newSession ''p'' False))))"

definition demo_writes :: "(nat \<times> bytes) list" where
  "demo_writes = [(0, [104]), (1, [1]), (0, [105])]"

lemma demo_chunks: "chunks_of demo_sender demo_writes = [(0, [104]), (6, [1]), (0, [105])]"
  by code_simp

section \<open>The loop comes to an end\<close>

fun out_rest :: "loop_out \<Rightarrow> bytes" where
  "out_rest (Next s rest) = rest"
| "out_rest _ = []"

lemma Next_rest:
  "deliver_bidi s st p fin rest = Next s' x \<Longrightarrow> x = rest"
  "deliver_uni s sid r p fin rest = Next s' x \<Longrightarrow> x = rest"
  "accept_bidi k s st p fin rest = Next s' x \<Longrightarrow> x = rest"
  "accept_uni k s sid r p fin rest = Next s' x \<Longrightarrow> x = rest"
  by (auto simp: deliver_bidi_def deliver_uni_def accept_bidi_def accept_uni_def
      split: option.splits prod.splits bool.splits)

lemma Next_rest_stream: "readLoop_stream k s sid p fin rest = Next s' x \<Longrightarrow> x = rest"
  by (auto simp: readLoop_stream_def Let_def dest: Next_rest split: if_splits option.splits prod.splits)

lemma Next_rest_capsule: "readLoop_capsule V k s typ c ce rest = Next s' x \<Longrightarrow> x = rest"
  by (auto simp: readLoop_capsule_def readLoop_close_def readLoop_limit_def content_error_def
      dest: Next_rest_stream split: if_splits sum.splits prod.splits option.splits)

context capsule_codec
begin

lemma iter_consumes: "readLoop_iter V K k s b e = Next s' rest \<Longrightarrow> length rest < length b"
  by (auto simp: readLoop_iter_def split: if_splits sum.splits dest: Next_rest_capsule parse_progress)

lemma enough_fuel: "length b < fuel \<Longrightarrow> readLoop V K ks fuel s b e \<noteq> OutOfFuel"
proof (induction fuel arbitrary: s b)
  case (Suc fuel)
  show ?case
  proof (cases "readLoop_iter V K (ks fuel) s b e")
    case (Next s' rest)
    with iter_consumes Suc show ?thesis by (fastforce simp: readLoop.simps(2))
  qed (simp_all add: readLoop.simps(2))
qed simp

end

fun end_ok :: "Session \<Rightarrow> loop_end \<Rightarrow> bool" where
  "end_ok s (Returned s') = (session_ok s' \<and> done_ch s' \<and> evolves s s')"
| "end_ok s (Blocked s' p) = (session_ok s' \<and> pending_ok s' p \<and> evolves s s')"
| "end_ok s OutOfFuel = True"

lemma end_ok_evolves: "evolves s t \<Longrightarrow> end_ok t r \<Longrightarrow> end_ok s r"
  by (cases r) (auto intro: evolves_trans)

lemma readLoop_keeps: "session_ok s \<Longrightarrow> end_ok s (readLoop V K ks fuel s b e)"
proof (induction fuel arbitrary: s b)
  case (Suc fuel)
  note ok = out_ok_iter [OF Suc.prems, of V K "ks fuel" b e]
  note ev = evolves_iter [of s V K "ks fuel" b e]
  show ?case
  proof (cases "readLoop_iter V K (ks fuel) s b e")
    case (Next s1 rest)
    with ok ev have "session_ok s1" "evolves s s1" by simp_all
    with Suc.IH end_ok_evolves have "end_ok s (readLoop V K ks fuel s1 rest e)" by blast
    with Next show ?thesis by (simp add: readLoop.simps(2))
  next
    case (Exit s1)
    with ok ev have "session_ok s1" "evolves s s1" by simp_all
    with Exit evolves_trans [OF _ evolves_Close] show ?thesis
      by (simp add: readLoop.simps(2) session_ok_Close done_after_Close)
  next
    case (Wait s1 p)
    with ok ev show ?thesis by (simp add: readLoop.simps(2))
  qed
qed simp

text \<open>A loop that waits does so for room in a full queue.\<close>

lemma accept_Wait:
  "accept_bidi k s st p fin rest = Wait s' q \<Longrightarrow> length (incomingStreams s') \<ge> incoming_capacity \<and> \<not> done_ch s'"
  "accept_uni k s sid r p fin rest = Wait s' q \<Longrightarrow>
     length (incomingUnidirectionalStreams s') \<ge> incoming_capacity \<and> \<not> done_ch s'"
  by (auto simp: accept_bidi_def accept_uni_def enqueueIncomingStream_def enqueueIncomingUniStream_def
      deliver_bidi_def deliver_uni_def select_ready_def split: option.splits prod.splits bool.splits if_splits)

lemma stream_Wait:
  "readLoop_stream k s sid p fin rest = Wait s' q \<Longrightarrow> \<not> done_ch s' \<and>
   (length (incomingStreams s') \<ge> incoming_capacity \<or> length (incomingUnidirectionalStreams s') \<ge> incoming_capacity)"
  by (auto simp: readLoop_stream_def Let_def deliver_bidi_def deliver_uni_def dest!: accept_Wait
      split: if_splits option.splits prod.splits)

lemma iter_Wait:
  "readLoop_iter V K k s b e = Wait s' q \<Longrightarrow> \<not> done_ch s' \<and>
   (length (incomingStreams s') \<ge> incoming_capacity \<or> length (incomingUnidirectionalStreams s') \<ge> incoming_capacity)"
  by (auto simp: readLoop_iter_def readLoop_capsule_def readLoop_close_def readLoop_limit_def
      content_error_def dest!: stream_Wait split: if_splits sum.splits prod.splits option.splits)

lemma readLoop_Blocked:
  "readLoop V K ks fuel s b e = Blocked s' q \<Longrightarrow> \<not> done_ch s' \<and>
   (length (incomingStreams s') \<ge> incoming_capacity \<or> length (incomingUnidirectionalStreams s') \<ge> incoming_capacity)"
proof (induction fuel arbitrary: s b)
  case (Suc fuel)
  then show ?case
    by (auto simp: readLoop.simps(2) split: loop_out.splits dest: iter_Wait)
qed simp

text \<open>C8: On finite input the read loop comes to an end, with one unit of fuel per byte and one more:
  either it returns, and then the session is closed, or it waits for the application because
  one of the two queues of incoming streams is full.\<close>
theorem readLoop_returns:
  assumes "capsule_codec K" and "session_ok s" and "length b < fuel"
  shows "(\<exists>s'. readLoop V K ks fuel s b e = Returned s' \<and> done_ch s' \<and> session_ok s') \<or>
    (\<exists>s' p. readLoop V K ks fuel s b e = Blocked s' p \<and> \<not> done_ch s' \<and>
      (length (incomingStreams s') = 16 \<or> length (incomingUnidirectionalStreams s') = 16))"
proof (cases "readLoop V K ks fuel s b e")
  case (Returned s')
  with readLoop_keeps [OF assms(2), of V K ks fuel b e] show ?thesis by simp
next
  case (Blocked s' p)
  with readLoop_keeps [OF assms(2), of V K ks fuel b e] have "queues_ok s'"
    by (simp add: session_ok_def)
  with readLoop_Blocked [OF Blocked] Blocked show ?thesis
    by (auto simp: queues_ok_def incoming_capacity_def)
next
  case OutOfFuel
  with capsule_codec.enough_fuel [OF assms(1,3)] show ?thesis by simp
qed

theorem readLoop_returns_witness:
  "\<exists>s'. readLoop quicwire_varint quicwire_capsule (\<lambda>_. 0) 9 (newSession ''p'' False) witness_bytes EOF = Returned s' \<and>
     done_ch s'"
proof -
  have "length witness_bytes < 9" by (simp add: witness_bytes_def)
  moreover have "(case readLoop quicwire_varint quicwire_capsule (\<lambda>_. 0) 9 (newSession ''p'' False) witness_bytes EOF
      of Blocked _ _ \<Rightarrow> False | _ \<Rightarrow> True)"
    by code_simp
  moreover have "session_ok (newSession ''p'' False)"
    using session_ok_new by (simp add: newSession_def newSessionWithPeerLimits_def)
  ultimately show ?thesis
    using readLoop_returns [OF qk.capsule_codec_axioms, of "newSession ''p'' False" witness_bytes 9
        quicwire_varint "\<lambda>_. 0" EOF]
    by auto
qed

section \<open>Finishing a stream\<close>

lemma waiting_ids_same:
  assumes "session_ok s" and "recv_ids s' = recv_ids s" and "incomingStreams s' = incomingStreams s"
    and "incomingUnidirectionalStreams s' = incomingUnidirectionalStreams s"
  shows "waiting_ids s' bidi = waiting_ids s bidi"
proof -
  have "rs_ID (recvs s' ! x) = rs_ID (recvs s ! x)" if "x \<in> set (incomingUnidirectionalStreams s)" for x
    using queued_uni_refs [OF assms(1) that] assms(2) by (metis length_map nth_map)
  with assms(3,4) show ?thesis by (simp add: waiting_ids_def)
qed

lemma receiveStreamData_maps:
  "receiveStreamData s r p = (e, s') \<Longrightarrow> streams s' = streams s \<and> receiveStreams s' = receiveStreams s \<and> stop s' = stop s"
  by (auto simp: receiveStreamData_def split: if_splits prod.splits)

lemma fin_on_known:
  assumes "listening s" and "recv_ref s sid = Some r" and "has_room s sid (length p)"
  shows "\<exists>s'. (\<forall>k rest. readLoop_stream k s sid p True rest = Next s' rest) \<and>
    srb_data (recvBuffer (recvs s' ! r)) = received s sid @ p \<and> srb_closed (recvBuffer (recvs s' ! r)) \<and>
    \<not> rs_closed (recvs s' ! r) \<and> length (recvs s') = length (recvs s) \<and>
    (if isBidirectionalStream sid then recv_ref s' sid = Some r
     else recv_ref s' sid = None \<and> listening s') \<and>
    (\<forall>bidi. waiting_ids s' bidi = waiting_ids s bidi) \<and> isServer s' = isServer s \<and> stop s' = stop s \<and>
    StreamReceiveBufferSize s' = StreamReceiveBufferSize s"
proof -
  obtain e s1 where d: "receiveStreamData s r p = (e, s1)" by fastforce
  note rx = receive_existing [OF assms d]
  note m = receiveStreamData_maps [OF d]
  have ok: "session_ok s" using assms(1) by (simp add: listening_def)
  have r: "r < length (recvs s)" using recv_ref_points [OF ok assms(2)] by (simp add: points_def)
  have l1: "listening s1" and rec1: "received s1 sid = received s sid @ p"
    and SR: "StreamReceiveBufferSize s1 = StreamReceiveBufferSize s" "isServer s1 = isServer s"
    using rx by (simp_all add: gained_def)
  have ok1: "session_ok s1" using l1 by (simp add: listening_def)
  have len1: "length (recvs s1) = length (recvs s)" using rx by (metis length_map)
  have ref1: "recv_ref s1 = recv_ref s" using m by (simp add: recv_ref_def fun_eq_iff)
  have b1: "srb_data (recvBuffer (recvs s1 ! r)) = received s sid @ p" "open_recv (StreamReceiveBufferSize s1) (recvs s1 ! r)"
    using rec1 l1 assms(2) by (auto simp: received_def ref1 listening_def)
  let ?s2 = "finishReceive s1 r"
  let ?s = "if isBidirectionalStream sid then ?s2 else ?s2\<lparr>receiveStreams := (receiveStreams ?s2)(sid := None)\<rparr>"
  have rv: "recvs ?s = (recvs s1)[r := (recvs s1 ! r)\<lparr>recvBuffer := streamReceiveBuffer_close (recvBuffer (recvs s1 ! r))\<rparr>]"
    by (simp add: finishReceive_def upd_recv_def)
  have ok2: "session_ok ?s2" using session_ok_finishReceive [OF ok1] r len1 by simp
  have "readLoop_stream k s sid p True rest = Next ?s rest" for k rest
    using assms(2) d rx
    by (auto simp: readLoop_stream_def recv_ref_def deliver_bidi_def deliver_uni_def Let_def split: if_splits)
  moreover have "srb_data (recvBuffer (recvs ?s ! r)) = received s sid @ p" "srb_closed (recvBuffer (recvs ?s ! r))"
    "\<not> rs_closed (recvs ?s ! r)" "length (recvs ?s) = length (recvs s)"
    using b1 r by (simp_all add: rv len1 streamReceiveBuffer_close_def open_recv_def)
  moreover have "if isBidirectionalStream sid then recv_ref ?s sid = Some r else recv_ref ?s sid = None \<and> listening ?s"
  proof (cases "isBidirectionalStream sid")
    case True
    then show ?thesis using assms(2) m by (simp add: recv_ref_def finishReceive_def)
  next
    case False
    have ref: "recv_ref ?s = (recv_ref s)(sid := None)"
      using False m by (auto simp: recv_ref_def fun_eq_iff finishReceive_def)
    have "session_ok ?s" using session_ok_unmap_recv [OF ok2] False by simp
    moreover have "open_recv (StreamReceiveBufferSize s) (recvs ?s ! x)" if "recv_ref ?s y = Some x" for x y
    proof -
      have y: "y \<noteq> sid" "recv_ref s y = Some x" using that by (auto simp: ref split: if_splits)
      then have "x \<noteq> r" using recv_ref_inj [OF ok assms(2), of y] by blast
      with y l1 SR show ?thesis by (auto simp: rv listening_def ref1)
    qed
    moreover have "stop ?s = stop s" "StreamReceiveBufferSize ?s = StreamReceiveBufferSize s"
      using m SR False by (simp_all add: finishReceive_def upd_recv_def)
    ultimately have "listening ?s" using assms(1) unfolding listening_def by metis
    moreover have "recv_ref ?s sid = None" unfolding ref by simp
    ultimately show ?thesis using False by metis
  qed
  moreover have "waiting_ids ?s bidi = waiting_ids s bidi" for bidi
    by (rule waiting_ids_same [OF ok]) (use rx in \<open>simp_all add: finishReceive_def\<close>)
  moreover have "isServer ?s = isServer s" "stop ?s = stop s" "StreamReceiveBufferSize ?s = StreamReceiveBufferSize s"
    using m SR by (simp_all add: finishReceive_def upd_recv_def)
  ultimately show ?thesis by (intro exI [of _ ?s]) blast
qed

text \<open>C20: The capsule that finishes a stream appends its payload and closes the buffer, so that a
  reader who reads to the end obtains everything that was received on the stream and then
  end of file, whatever the sizes of its reads.\<close>
theorem fin_completes_stream:
  assumes "listening s" and "recv_ref s sid = Some r" and "has_room s sid (length p)"
  shows "\<exists>s'. readLoop_stream k s sid p True rest = Next s' rest \<and>
    srb_ReadAll sz 0 (recvBuffer (recvs s' ! r)) =
      Some (received s sid @ p, (recvBuffer (recvs s' ! r))\<lparr>srb_data := []\<rparr>)"
  using fin_on_known [OF assms] srb_ReadAll_closed by metis

definition demo_open :: Session where
  "demo_open = (case readLoop_stream 0 (newSession ''p'' False) 3 [104] False [] of Next s _ \<Rightarrow> s)"

lemma demo_open_ok: "listening demo_open \<and> recv_ref demo_open 3 = Some 0 \<and> received demo_open 3 = [104]"
proof -
  have "\<not> isBidirectionalStream 3" "\<not> isOurStream False 3"
    by (simp_all add: isBidirectionalStream_def isOurStream_def)
  moreover have "room_to_accept (newSessionConfigured ''p'' False None) False"
    by (simp add: room_to_accept_def received_new incoming_capacity_def)
  moreover have "has_room (newSessionConfigured ''p'' False None) 3 (length [104 :: byte])"
    by (simp add: has_room_def received_new defaultReceiveBufferSize_def)
  ultimately obtain s' where
    "\<forall>k rest. readLoop_stream k (newSessionConfigured ''p'' False None) 3 [104] False rest = Next s' rest"
    "gained (newSessionConfigured ''p'' False None) s' 3 [104]"
    using data_on_new_uni [OF listening_new received_new(2), of 3 "''p''" False None "[104]"]
    by (auto simp: received_new)
  then have "listening demo_open" "received demo_open 3 = [104]"
    by (simp_all add: demo_open_def newSession_def newSessionWithPeerLimits_def gained_def received_new)
  moreover have "recv_ref demo_open 3 = Some 0" by code_simp
  ultimately show ?thesis by simp
qed

theorem fin_completes_stream_witness:
  "\<exists>s'. readLoop_stream 0 demo_open 3 [105] True [] = Next s' [] \<and>
    srb_ReadAll (\<lambda>_. 0) 0 (recvBuffer (recvs s' ! 0)) =
      Some ([104, 105], (recvBuffer (recvs s' ! 0))\<lparr>srb_data := []\<rparr>)"
proof -
  have "StreamReceiveBufferSize demo_open = 65536" by code_simp
  then have "has_room demo_open 3 (length [105 :: byte])" using demo_open_ok by (simp add: has_room_def)
  with fin_completes_stream [of demo_open 3 0 "[105]" 0 "[]" "\<lambda>_. 0"] demo_open_ok show ?thesis by simp
qed

text \<open>C26: What a finished stream does with more data depends on its direction. A bidirectional stream
  stays on file with its buffer closed, and the next data capsule for it ends the read loop and
  with it the session. A unidirectional stream is taken off file, and the next data capsule for
  it is treated as a new stream: the same identifier is queued for acceptance a second time.\<close>
theorem data_after_fin:
  assumes "listening s" and "recv_ref s sid = Some r" and "has_room s sid (length p)"
    and "\<not> isOurStream (isServer s) sid" and "int (length q) \<le> StreamReceiveBufferSize s"
    and "room_to_accept s False"
  shows "\<exists>s1. readLoop_stream k s sid p True rest = Next s1 rest \<and>
    (if isBidirectionalStream sid then readLoop_stream k' s1 sid q fin rest' = Exit s1
     else \<exists>s2. readLoop_stream k' s1 sid q False rest' = Next s2 rest' \<and>
       waiting_ids s2 False = waiting_ids s False @ [sid] \<and> received s2 sid = q)"
proof -
  obtain s1 where s1: "readLoop_stream k s sid p True rest = Next s1 rest"
    and cl: "srb_closed (recvBuffer (recvs s1 ! r))" "\<not> rs_closed (recvs s1 ! r)"
    and ref: "if isBidirectionalStream sid then recv_ref s1 sid = Some r else recv_ref s1 sid = None \<and> listening s1"
    and w: "waiting_ids s1 False = waiting_ids s False" "isServer s1 = isServer s"
      "StreamReceiveBufferSize s1 = StreamReceiveBufferSize s"
    using fin_on_known [OF assms(1-3)] by blast
  show ?thesis
  proof (cases "isBidirectionalStream sid")
    case True
    have "streamReceiveBuffer_write (recvBuffer (recvs s1 ! r)) q = (0, Some ErrClosedPipe, recvBuffer (recvs s1 ! r))"
      using cl by (simp add: streamReceiveBuffer_write_def)
    then have "receiveStreamData s1 r q = (Some ErrClosedPipe, s1)"
      using cl by (simp add: receiveStreamData_def upd_recv_def)
    with True ref have "readLoop_stream k' s1 sid q fin rest' = Exit s1"
      by (auto simp: readLoop_stream_def recv_ref_def deliver_bidi_def)
    with s1 True show ?thesis by simp
  next
    case False
    have r1: "recv_ref s1 sid = None" "listening s1" using ref False by simp_all
    then have rec: "received s1 sid = []" by (simp add: received_def)
    have "has_room s1 sid (length q)" using assms(5) w by (simp add: has_room_def rec)
    moreover have "room_to_accept s1 False" using assms(6) w by (simp add: room_to_accept_def)
    ultimately obtain s2 where "readLoop_stream k' s1 sid q False rest' = Next s2 rest'" "gained s1 s2 sid q"
      "waiting_ids s2 False = waiting_ids s1 False @ [sid]"
      using data_on_new_uni [OF r1(2,1) False] assms(4) w by metis
    with s1 False w rec show ?thesis by (auto simp: gained_def)
  qed
qed

theorem data_after_fin_witness:
  "\<exists>s1 s2. readLoop_stream 0 demo_open 3 [105] True [] = Next s1 [] \<and>
     readLoop_stream 0 s1 3 [7] False [] = Next s2 [] \<and>
     waiting_ids s2 False = [3, 3] \<and> received s2 3 = [7]"
proof -
  have n: "StreamReceiveBufferSize demo_open = 65536" "\<not> isOurStream (isServer demo_open) 3"
    "waiting_ids demo_open False = [3]" "\<not> isBidirectionalStream 3"
    by code_simp+
  then have "has_room demo_open 3 (length [105 :: byte])" using demo_open_ok by (simp add: has_room_def)
  moreover have "room_to_accept demo_open False" by (simp add: room_to_accept_def n incoming_capacity_def)
  ultimately show ?thesis
    using data_after_fin [of demo_open 3 0 "[105]" "[7]" 0 "[]" 0 False "[]"] demo_open_ok n by auto
qed

section \<open>Ending a session\<close>

lemma close_payload_roundtrip:
  "length msg \<le> 1024 \<Longrightarrow> parseWTCloseSession (be_put32 code @ go_bytes msg) = Inr (code, msg)"
  using be_get32_put32 [of code "[]"] by (simp add: parseWTCloseSession_def)

lemma setCloseErr_fresh: "closeErr s = None \<Longrightarrow> setCloseErr s err = s\<lparr>closeErr := Some err\<rparr>"
  by (simp add: setCloseErr_def)

context wire
begin

lemma exit_on_capsule:
  assumes "\<not> stop s" and "cap_write K t d = Some bs" and "length d < 2 ^ 62"
    and "\<And>k rest. readLoop_capsule V k s t d EOF rest = Exit s'"
  shows "readLoop V K ks (Suc fuel) s (bs @ rest) e = Returned (Session_Close s')"
  by (simp add: readLoop.simps(2) iter_capsule [OF assms(1-3)] assms(4))

lemma close_capsule:
  assumes "length msg \<le> 1024" and "\<not> stop r" and "closeErr r = None"
  shows "\<exists>bs. cap_write K CapsuleWTCloseSession (be_put32 code @ go_bytes msg) = Some bs \<and>
    (\<forall>fuel rest. readLoop V K ks (Suc fuel) r (bs @ rest) e =
       Returned (Session_Close (r\<lparr>closeErr := Some (SessionCloseError code msg True)\<rparr>)))"
proof -
  let ?d = "be_put32 code @ go_bytes msg"
  have len: "length ?d < 2 ^ 62" using assms(1) by simp
  obtain bs where bs: "cap_write K CapsuleWTCloseSession ?d = Some bs"
    using write_ok [of CapsuleWTCloseSession ?d] len by (auto simp: CapsuleWTCloseSession_def)
  have "readLoop_capsule V k r CapsuleWTCloseSession ?d EOF rest =
      Exit (r\<lparr>closeErr := Some (SessionCloseError code msg True)\<rparr>)" for k rest
    using close_payload_roundtrip [OF assms(1)] assms(3)
    by (simp add: readLoop_capsule_def capsule_types ReadAll_def readLoop_close_def setCloseErr_fresh)
  from exit_on_capsule [OF assms(2) bs len this] bs show ?thesis by blast
qed

end

text \<open>C9: A close error reaches the peer: \<^verbatim>\<open>CloseWithError\<close> with a message of at most 1024 bytes
  records the error as local, flushes and closes the session, and a peer that reads the capsule it
  wrote closes with the same code and message, recorded as remote.\<close>
theorem close_error_delivered:
  assumes "wire V K" and "length msg \<le> 1024" and "session_ok a" "\<not> stop a" "closeErr a = None"
    and "session_ok r" "\<not> stop r" "closeErr r = None"
  shows "\<exists>a' d bs r'. CloseWithError a code msg None = (None, a') \<and>
    closeErr a' = Some (SessionCloseError code msg False) \<and> done_ch a' \<and>
    written a' = written a @ [(CapsuleWTCloseSession, d)] \<and> flushed a' = length (written a') \<and>
    cap_write K CapsuleWTCloseSession d = Some bs \<and>
    readLoop V K ks (Suc fuel) r (bs @ rest) e = Returned r' \<and>
    closeErr r' = Some (SessionCloseError code msg True) \<and> done_ch r'"
proof -
  let ?d = "be_put32 code @ go_bytes msg"
  let ?a = "a\<lparr>written := written a @ [(CapsuleWTCloseSession, ?d)], flushed := Suc (length (written a)),
    closeErr := Some (SessionCloseError code msg False)\<rparr>"
  let ?r = "r\<lparr>closeErr := Some (SessionCloseError code msg True)\<rparr>"
  have a: "CloseWithError a code msg None = (None, Session_Close ?a)"
    using assms(2,4,5) by (simp add: CloseWithError_def writeCapsule_def setCloseErr_fresh Session_Flush_def)
  have "done_ch (Session_Close ?a)" "done_ch (Session_Close ?r)"
    using assms(3,6) by (simp_all add: done_after_Close)
  moreover have "written (Session_Close ?a) = written a @ [(CapsuleWTCloseSession, ?d)]"
    "flushed (Session_Close ?a) = Suc (length (written a))"
    by (simp_all add: Session_Close_def Let_def logSessionEnd_def closeDatagramDelivery_def)
  moreover obtain bs where "cap_write K CapsuleWTCloseSession ?d = Some bs"
    "\<forall>fuel rest. readLoop V K ks (Suc fuel) r (bs @ rest) e = Returned (Session_Close ?r)"
    using wire.close_capsule [OF assms(1,2,7,8), of code ks e] by blast
  ultimately show ?thesis using a by auto
qed

theorem close_error_delivered_witness:
  "\<exists>bs r'. cap_write quicwire_capsule CapsuleWTCloseSession [0, 0, 0, 1, 68, 65] = Some bs \<and>
     readLoop quicwire_varint quicwire_capsule (\<lambda>_. 0) 1 (newSession ''p'' True) bs EOF = Returned r' \<and>
     closeErr r' = Some (SessionCloseError 1 ''DA'' True)"
proof -
  have s: "session_ok (newSession ''p'' b)" "\<not> stop (newSession ''p'' b)" "closeErr (newSession ''p'' b) = None"
    "written (newSession ''p'' b) = []" for b
    using session_ok_new [of "''p''" b None]
    by (simp_all add: newSession_def newSessionWithPeerLimits_def newSessionConfigured_def)
  have w: "written (snd (CloseWithError (newSession ''p'' False) 1 ''DA'' None)) =
      [(CapsuleWTCloseSession, [0, 0, 0, 1, 68, 65])]"
    by code_simp
  show ?thesis
    using close_error_delivered [OF qwk.wire_axioms, of "''DA''" "newSession ''p'' False" "newSession ''p'' True" 1
        "\<lambda>_. 0" 0 "[]" EOF] s w
    by auto
qed

text \<open>C25: A limit capsule that lowers a limit ends the session at once with a flow-control error,
  which becomes the session's close error (not a \<^verbatim>\<open>SessionCloseError\<close>), and nothing of
  the input after it is read.\<close>
theorem lowered_limit_ends_session:
  assumes "wire V K" and "session_ok s" "\<not> stop s" "closeErr s = None"
    and "unat mx < 2 ^ 62" and "mx < maxData (limits s)"
  shows "\<exists>d bs s' msg. vappend V mx = Some d \<and> cap_write K CapsuleWTMaxData d = Some bs \<and>
    readLoop V K ks (Suc fuel) s (bs @ rest) e = Returned s' \<and>
    closeErr s' = Some (FlowControlError msg) \<and> ends s' = [EndError (FlowControlError msg)]"
proof -
  have wv: "varint_codec V" and wk: "capsule_codec K" using assms(1) by (simp_all add: wire_def)
  obtain d where d: "vappend V mx = Some d" using varint_codec.append_small [OF wv assms(5)] by blast
  have len: "length d < 2 ^ 62" using varint_codec.append_nonempty [OF wv d] by simp
  obtain bs where bs: "cap_write K CapsuleWTMaxData d = Some bs"
    using capsule_codec.write_ok [OF wk, of CapsuleWTMaxData d] len by (auto simp: CapsuleWTMaxData_def)
  have rd: "vread V d EOF = Inr (mx, [])" using varint_codec.read_append [OF wv d, of "[]"] by simp
  obtain msg where r: "raiseMaxData (limits s) mx = (Some (FlowControlError msg), (limits s)\<lparr>active := True\<rparr>)"
    using assms(6) by (auto simp: raiseMaxData_def)
  let ?s = "s\<lparr>limits := (limits s)\<lparr>active := True\<rparr>, closeErr := Some (FlowControlError msg)\<rparr>"
  have "readLoop_capsule V k s CapsuleWTMaxData d EOF rest = Exit ?s" for k rest
    using assms(4) rd r
    by (simp add: readLoop_capsule_def readLoop_limit_def handleSendLimitCapsule_def capsule_types
        readCapsuleVarints_def setCloseErr_fresh)
  note x = wire.exit_on_capsule [OF assms(1,3) bs len this]
  have "ends s = []" "closeOnce s = False" using assms(2,3) by (auto simp: session_ok_def lifecycle_ok_def)
  then have "closeErr (Session_Close ?s) = Some (FlowControlError msg) \<and>
      ends (Session_Close ?s) = [EndError (FlowControlError msg)]"
    by (simp add: Session_Close_def Let_def logSessionEnd_def session_end_of_def closeDatagramDelivery_def)
  with d bs x show ?thesis by blast
qed

theorem lowered_limit_ends_session_witness:
  "\<exists>bs s' msg. readLoop quicwire_varint quicwire_capsule (\<lambda>_. 0) 1
     (newSessionWithPeerLimits ''p'' True (Some demo_peer)) bs EOF = Returned s' \<and>
     closeErr s' = Some (FlowControlError msg)"
proof -
  let ?s = "newSessionWithPeerLimits ''p'' True (Some demo_peer)"
  have s: "session_ok ?s" "\<not> stop ?s" "closeErr ?s = None" "maxData (limits ?s) = 5"
    using session_ok_new [of "''p''" True "Some demo_peer"]
    by (simp_all add: newSessionWithPeerLimits_def newSessionConfigured_def adoptPeerSendLimits_def demo_peer_def)
  from lowered_limit_ends_session [OF qwk.wire_axioms s(1-3), of 4 "\<lambda>_. 0" 0 "[]" EOF] s(4)
  show ?thesis by auto
qed


lemma Close_write_frame [simp]:
  "sends (Session_Close s) = sends s" "limits (Session_Close s) = limits s"
  "written (Session_Close s) = written s"
  by (simp_all add: Session_Close_def Let_def logSessionEnd_def closeDatagramDelivery_def)

text \<open>A closed session refuses to open streams, to send datagrams and to close with an error,
  but its streams still write: a write on one of them has the result and puts the capsule on the
  CONNECT stream that it would have on the open session.\<close>
theorem closed_session_calls:
  assumes "session_ok s"
  shows "fst (OpenStream (Session_Close s)) = Inl ErrSessionClosed \<and>
    fst (OpenUnidirectionalStream (Session_Close s)) = Inl ErrSessionClosed \<and>
    SendDatagram (Session_Close s) p werr = (Some ErrSessionClosed, Session_Close s) \<and>
    fst (CloseWithError (Session_Close s) code msg werr) \<noteq> None \<and>
    map_option (\<lambda>x. (fst x, written (snd x))) (SendStream_Write V (Session_Close s) w p werr) =
      map_option (\<lambda>x. (fst x, written (snd x))) (SendStream_Write V s w p werr)"
proof -
  have "stop (Session_Close s)"
    using session_ok_Close [OF assms] done_after_Close [OF assms]
    by (simp add: session_ok_def lifecycle_ok_def)
  then show ?thesis
    by (auto simp: OpenStream_def OpenUnidirectionalStream_def SendDatagram_def CloseWithError_def
        SendStream_Write_def Let_def writeCapsule_def split: option.splits prod.splits)
qed

theorem closed_session_calls_witness:
  "fst (OpenStream (Session_Close demo_sender)) = Inl ErrSessionClosed \<and>
   map_option (\<lambda>x. (fst x, written (snd x)))
     (SendStream_Write quicwire_varint (Session_Close demo_sender) 0 [7] None) =
       Some ((1, None), [(CapsuleWTStream, [0, 7])])"
proof -
  have ok: "session_ok demo_sender"
    unfolding demo_sender_def newSession_def newSessionWithPeerLimits_def
    by (metis session_ok_new session_ok_OpenStream session_ok_OpenUnidirectionalStream prod.collapse)
  have "map_option (\<lambda>x. (fst x, written (snd x))) (SendStream_Write quicwire_varint demo_sender 0 [7] None) =
      Some ((1, None), [(CapsuleWTStream, [0, 7])])"
    by code_simp
  with closed_session_calls [OF ok] show ?thesis by simp
qed

end
