(* ===== verification/Wire_Order.thy ===== *)
theory Wire_Order
  imports Session_Delivery
begin

text \<open>
  What a session writes, over all its runs: which capsules, for which streams and in which order. Every
  step of a session makes one of seven kinds of moves on what matters for that (the capsules written,
  the send halves, the map of streams and the counter); the discipline is an invariant of the moves.
\<close>

section \<open>Moves\<close>

text \<open>Nothing is written and no send half changes.\<close>

definition quiet :: "Session \<Rightarrow> Session \<Rightarrow> bool" where
  "quiet s s' \<longleftrightarrow> written s' = written s \<and> sends s' = sends s \<and> streams s' = streams s \<and>
     createdStreamCounter s' = createdStreamCounter s \<and> isServer s' = isServer s"

lemma quiet_refl [simp]: "quiet s s" by (simp add: quiet_def)

lemma quiet_trans: "quiet s t \<Longrightarrow> quiet t u \<Longrightarrow> quiet s u" by (simp add: quiet_def)

lemma quiet_updates [simp]:
  "quiet s (upd_recv s r f)" "quiet s (setCloseErr s e)" "quiet s (setCloseReason s x)" "quiet s (Session_Close s)"
  "quiet s (s\<lparr>limits := l\<rparr>)" "quiet s (s\<lparr>receiveStreams := m\<rparr>)" "quiet s (deliverDatagram s p)"
  "quiet s (finishReceive s r)" "quiet s (ReceiveStream_Close s r)" "quiet s (Session_Flush s)"
  by (simp_all add: quiet_def upd_recv_def setCloseErr_def setCloseReason_def Session_Close_def closeDatagramDelivery_def
      logSessionEnd_def deliverDatagram_def finishReceive_def ReceiveStream_Close_def Let_def)

inductive wire_move :: "varint_ops \<Rightarrow> Session \<Rightarrow> Session \<Rightarrow> bool" for V where
  none: "quiet s s' \<Longrightarrow> wire_move V s s'"
| own: "sends s' = sends s @ [\<lparr>ss_ID = fst (nextStreamID (isServer s) (createdStreamCounter s) bidi), ss_closed = False\<rparr>] \<Longrightarrow>
    createdStreamCounter s' = createdStreamCounter s + 4 \<Longrightarrow> written s' = written s \<Longrightarrow> isServer s' = isServer s \<Longrightarrow>
    dom (streams s) \<subseteq> dom (streams s') \<Longrightarrow> wire_move V s s'"
| peer: "streams s sid = None \<Longrightarrow> isBidirectionalStream sid \<Longrightarrow> \<not> isOurStream (isServer s) sid \<Longrightarrow>
    sends s' = sends s @ [\<lparr>ss_ID = sid, ss_closed = False\<rparr>] \<Longrightarrow> dom (streams s') = insert sid (dom (streams s)) \<Longrightarrow>
    createdStreamCounter s' = createdStreamCounter s \<Longrightarrow> written s' = written s \<Longrightarrow> isServer s' = isServer s \<Longrightarrow>
    wire_move V s s'"
| data: "w < length (sends s) \<Longrightarrow> \<not> ss_closed (sends s ! w) \<Longrightarrow> vappend V (ss_ID (sends s ! w)) = Some h \<Longrightarrow>
    quiet (s\<lparr>written := written s @ [(CapsuleWTStream, h @ p)]\<rparr>) s' \<Longrightarrow> wire_move V s s'"
| fin: "w < length (sends s) \<Longrightarrow> \<not> ss_closed (sends s ! w) \<Longrightarrow> vappend V (ss_ID (sends s ! w)) = Some h \<Longrightarrow>
    quiet ((upd_send s w (\<lambda>st. st\<lparr>ss_closed := True\<rparr>))\<lparr>written := written s @ [(CapsuleWTStreamFin, h)]\<rparr>) s' \<Longrightarrow>
    wire_move V s s'"
| fin_failed: "w < length (sends s) \<Longrightarrow> quiet (upd_send s w (\<lambda>st. st\<lparr>ss_closed := True\<rparr>)) s' \<Longrightarrow> wire_move V s s'"
| other: "t \<in> {CapsulePadding, CapsuleDatagram, CapsuleWTCloseSession} \<Longrightarrow>
    quiet (s\<lparr>written := written s @ [(t, d)]\<rparr>) s' \<Longrightarrow> wire_move V s s'"

section \<open>Every step is a move\<close>

lemma quiet_receive: "receiveStreamData s r p = (x, s') \<Longrightarrow> quiet s s'"
  by (auto simp: receiveStreamData_def split: if_splits prod.splits)

lemma quiet_enqueue:
  "enqueueIncomingStream k s st = Some (b, s') \<Longrightarrow> quiet s s'"
  "enqueueIncomingUniStream k s r = Some (b, s') \<Longrightarrow> quiet s s'"
  unfolding enqueueIncomingStream_def enqueueIncomingUniStream_def
  by (drule select_ready_in, auto simp: quiet_def split: if_splits)+

lemma quiet_deliver:
  "quiet s (out_state (deliver_bidi s st payload fin rest))"
  "quiet s (out_state (deliver_uni s sid r payload fin rest))"
  by (auto simp: deliver_bidi_def deliver_uni_def Let_def split: prod.splits option.splits dest!: quiet_receive
      intro: quiet_trans) (simp_all add: quiet_def finishReceive_def)

lemma quiet_accept:
  "quiet s (out_state (accept_bidi k s st payload fin rest))"
  "quiet s (out_state (accept_uni k s sid r payload fin rest))"
  by (auto simp: accept_bidi_def accept_uni_def split: option.splits bool.splits
      intro: quiet_enqueue quiet_trans [OF quiet_enqueue(1) quiet_deliver(1)] quiet_trans [OF quiet_enqueue(2) quiet_deliver(2)])

lemma move_stream: "wire_move V s (out_state (readLoop_stream k s sid payload fin rest))"
proof (cases "isBidirectionalStream sid \<and> streams s sid = None \<and> \<not> isOurStream (isServer s) sid")
  case True
  obtain st s1 where n: "newStream s sid = (st, s1)" by fastforce
  let ?s2 = "s1\<lparr>streams := (streams s1)(sid \<mapsto> st), limits := trackSendStream (isServer s1) (limits s1) sid\<rparr>"
  have o: "out_state (readLoop_stream k s sid payload fin rest) = out_state (accept_bidi k ?s2 st payload fin rest)"
    using True n by (simp add: readLoop_stream_def Let_def)
  have "sends s1 = sends s @ [\<lparr>ss_ID = sid, ss_closed = False\<rparr>]" "streams s1 = streams s" "written s1 = written s"
    "createdStreamCounter s1 = createdStreamCounter s" "isServer s1 = isServer s"
    using n by (auto simp: newStream_def newReceiveStream_def newSendStream_def)
  with quiet_accept(1) [of ?s2 k st payload fin rest] True show ?thesis
    unfolding o by (intro wire_move.peer [of _ sid]) (simp_all add: quiet_def)
next
  case False
  have "quiet s (out_state (readLoop_stream k s sid payload fin rest))"
  proof (cases "isBidirectionalStream sid")
    case True
    with False show ?thesis by (auto simp: readLoop_stream_def quiet_deliver split: option.splits)
  next
    case uni: False
    obtain r s1 where n: "newReceiveStream s sid = (r, s1)" by fastforce
    have "quiet s (s1\<lparr>receiveStreams := m\<rparr>)" for m using n by (auto simp: newReceiveStream_def quiet_def)
    with quiet_trans [OF _ quiet_accept(2)] uni n show ?thesis
      by (auto simp: readLoop_stream_def quiet_deliver Let_def split: option.splits)
  qed
  then show ?thesis by (rule wire_move.none)
qed

lemma move_updates [simp]:
  "wire_move V s s" "wire_move V s (setCloseErr s e)" "wire_move V s (setCloseReason s x)"
  "wire_move V s (Session_Close s)" "wire_move V s (s\<lparr>limits := l\<rparr>)" "wire_move V s (deliverDatagram s p)"
  by (simp_all add: wire_move.none)

lemma move_limit: "wire_move V s (out_state (readLoop_limit W s typ c ce rest))"
proof -
  have "quiet s (out_state (readLoop_limit W s typ c ce rest))"
    by (auto simp: readLoop_limit_def content_error_def split: prod.splits option.splits)
      (auto intro: quiet_trans [OF quiet_updates(5) quiet_updates(2)] quiet_trans [OF quiet_updates(5) quiet_updates(3)])
  then show ?thesis by (rule wire_move.none)
qed

lemma move_capsule: "wire_move V s (out_state (readLoop_capsule W k s typ c ce rest))"
  by (auto simp: readLoop_capsule_def content_error_def readLoop_close_def move_limit move_stream
      split: sum.splits prod.splits)

lemma move_iter: "wire_move V s (out_state (readLoop_iter W K k s b e))"
  by (auto simp: readLoop_iter_def move_capsule split: sum.splits)

lemma move_resume: "wire_move V s (out_state (resume k s p))"
  by (cases p) (simp_all add: quiet_accept wire_move.none)

lemma move_quiet: "wire_move V s t \<Longrightarrow> quiet t u \<Longrightarrow> wire_move V s u"
proof (induction rule: wire_move.induct)
  case (own t s bidi)
  then show ?case by (intro wire_move.own) (simp_all add: quiet_def)
next
  case (peer s sid t)
  then show ?case by (intro wire_move.peer [of s sid]) (simp_all add: quiet_def)
qed (blast intro: wire_move.intros quiet_trans)+

lemma move_after: "wire_move V s (out_state out) \<Longrightarrow> wire_move V s (fst (after_iter out))"
  by (cases out) (auto simp: after_iter_def intro: move_quiet)

lemma move_Open:
  "OpenStream s = (r, s') \<Longrightarrow> wire_move V s s'"
  "OpenUnidirectionalStream s = (q, s') \<Longrightarrow> wire_move V s s'"
proof -
  have quiet: "wire_move V s (s\<lparr>createdStreamCounter := createdStreamCounter s, limits := l\<rparr>)" for l
    by (rule wire_move.none) (simp add: quiet_def)
  have a: "allocLocalStream srv c l bidi = (Inl e, c', l') \<Longrightarrow> c' = c"
    "allocLocalStream srv c l bidi = (Inr sid, c', l') \<Longrightarrow> sid = fst (nextStreamID srv c bidi) \<and> c' = c + 4"
    for srv c l bidi e c' l' sid
    by (auto simp: allocLocalStream_def nextStreamID_def Let_def split: if_splits)
  show "wire_move V s s'" if "OpenStream s = (r, s')"
  proof (cases "stop s")
    case False
    obtain x c l where al: "allocLocalStream (isServer s) (createdStreamCounter s) (limits s) True = (x, c, l)"
      using prod_cases3 by blast
    show ?thesis
    proof (cases x)
      case (Inl e)
      with al have "c = createdStreamCounter s" using a(1) by blast
      with Inl that False al quiet show ?thesis by (auto simp: OpenStream_def)
    next
      case (Inr sid)
      with that False al a(2) [of "isServer s" "createdStreamCounter s" "limits s" True sid c l] show ?thesis
        by (intro wire_move.own [where bidi = True])
          (auto simp: OpenStream_def newStream_def newReceiveStream_def newSendStream_def)
    qed
  qed (use that in \<open>simp add: OpenStream_def\<close>)
  show "wire_move V s s'" if "OpenUnidirectionalStream s = (q, s')"
  proof (cases "stop s")
    case False
    obtain x c l where al: "allocLocalStream (isServer s) (createdStreamCounter s) (limits s) False = (x, c, l)"
      using prod_cases3 by blast
    show ?thesis
    proof (cases x)
      case (Inl e)
      with al have "c = createdStreamCounter s" using a(1) by blast
      with Inl that False al quiet show ?thesis by (auto simp: OpenUnidirectionalStream_def)
    next
      case (Inr sid)
      with that False al a(2) [of "isServer s" "createdStreamCounter s" "limits s" False sid c l] show ?thesis
        by (intro wire_move.own [where bidi = False]) (auto simp: OpenUnidirectionalStream_def newSendStream_def)
    qed
  qed (use that in \<open>simp add: OpenUnidirectionalStream_def\<close>)
qed

lemma move_Accept:
  "AcceptStream k ctx s = Some (r, s') \<Longrightarrow> wire_move V s s'"
  "AcceptUnidirectionalStream k ctx s = Some (q, s') \<Longrightarrow> wire_move V s s'"
  unfolding AcceptStream_def AcceptUnidirectionalStream_def
  by (drule select_ready_in, auto simp: quiet_def intro!: wire_move.none split: list.splits option.splits if_splits)+

lemma move_Write:
  assumes "SendStream_Write V s w p werr = Some (r, s')" and "w < length (sends s)"
  shows "wire_move V s s'"
proof (cases "ss_closed (sends s ! w)")
  case False
  obtain x l where rs: "reserveSendData (limits s) (ss_ID (sends s ! w)) (length p) = (x, l)" by fastforce
  show ?thesis
  proof (cases "x = None \<and> werr = None")
    case True
    with assms False rs obtain h where "vappend V (ss_ID (sends s ! w)) = Some h"
      "quiet (s\<lparr>written := written s @ [(CapsuleWTStream, h @ p)]\<rparr>) s'"
      by (auto simp: SendStream_Write_def writeCapsule_def Let_def quiet_def split: option.splits)
    with assms(2) False show ?thesis by (intro wire_move.data)
  next
    case fails: False
    have "quiet s s'"
      using assms False rs fails
      by (auto simp: SendStream_Write_def writeCapsule_def Let_def quiet_def split: option.splits)
    then show ?thesis by (rule wire_move.none)
  qed
qed (use assms(1) in \<open>simp add: SendStream_Write_def\<close>)

lemma move_Close_send:
  assumes "SendStream_Close V s w werr = Some (r, s')" and "w < length (sends s)"
  shows "wire_move V s s'"
proof (cases "ss_closed (sends s ! w)")
  case False
  then obtain h where h: "vappend V (ss_ID (sends s ! w)) = Some h"
    and wr: "writeCapsule (upd_send s w (\<lambda>st. st\<lparr>ss_closed := True\<rparr>)) CapsuleWTStreamFin h werr = (r, s')"
    using assms(1) by (auto simp: SendStream_Close_def Let_def split: option.splits)
  show ?thesis
  proof (cases werr)
    case None
    with wr show ?thesis by (intro wire_move.fin [OF assms(2) False h]) (auto simp: writeCapsule_def)
  next
    case (Some e)
    with wr show ?thesis by (intro wire_move.fin_failed [OF assms(2)]) (auto simp: writeCapsule_def)
  qed
qed (use assms(1) in \<open>simp add: SendStream_Close_def\<close>)

lemma quiet_move: "wire_move V t u \<Longrightarrow> quiet s t \<Longrightarrow> wire_move V s u"
proof (induction rule: wire_move.induct)
  case (none t u)
  then show ?case by (blast intro: wire_move.none quiet_trans)
next
  case (own u t bidi)
  then show ?case by (intro wire_move.own [where bidi = bidi]) (simp_all add: quiet_def)
next
  case (peer t sid u)
  then show ?case by (intro wire_move.peer [of s sid]) (simp_all add: quiet_def)
next
  case (data w t h p u)
  then show ?case by (intro wire_move.data [where w = w and h = h and p = p]) (simp_all add: quiet_def)
next
  case (fin w t h u)
  then show ?case by (intro wire_move.fin [where w = w and h = h]) (simp_all add: quiet_def upd_send_def)
next
  case (fin_failed w t u)
  then show ?case by (intro wire_move.fin_failed [where w = w]) (simp_all add: quiet_def upd_send_def)
next
  case (other x t d u)
  then show ?case by (intro wire_move.other [where t = x and d = d]) (simp_all add: quiet_def)
qed

lemma move_Close_stream:
  "Stream_Close V s st werr = Some (r, s') \<Longrightarrow> st_send st < length (sends s) \<Longrightarrow> wire_move V s s'"
  by (rule quiet_move [OF move_Close_send quiet_updates(9)])
    (simp_all add: Stream_Close_def ReceiveStream_Close_def)

lemma move_other:
  "WritePadding s w n werr = (x, s') \<Longrightarrow> wire_move V s s'"
  "SendDatagram s p werr = (x, s') \<Longrightarrow> wire_move V s s'"
  "ReceiveDatagram_poll s = (y, s') \<Longrightarrow> wire_move V s s'"
  "ReceiveStream_Read s r m = Some (z, s') \<Longrightarrow> wire_move V s s'"
  by (auto simp: WritePadding_def SendDatagram_def writeCapsule_def ReceiveDatagram_poll_def ReceiveStream_Read_def quiet_def
      intro: wire_move.none wire_move.other [of CapsulePadding] wire_move.other [of CapsuleDatagram]
      split: if_splits option.splits prod.splits)

lemma move_CloseWithError: "CloseWithError s code msg werr = (r, s') \<Longrightarrow> wire_move V s s'"
  by (auto simp: CloseWithError_def writeCapsule_def Let_def split: if_splits option.splits
      intro: wire_move.other [of CapsuleWTCloseSession] quiet_trans [OF quiet_updates(10) quiet_trans [OF quiet_updates(2) quiet_updates(4)]])

lemma step_moves: "session_step V K e (s, pc) (s', pc') \<Longrightarrow> wire_move V s s'"
proof (induction "(s, pc)" "(s', pc')" rule: session_step.induct)
  case (loop b k)
  then show ?case using move_after [OF move_iter, of V s V K k b e] by (metis fst_conv)
next
  case (woken p k)
  then show ?case using move_after [OF move_resume, of V s k p] by (metis fst_conv)
qed (blast intro: move_updates move_CloseWithError move_Open move_Accept move_Write move_Close_send move_Close_stream
    move_other wire_move.none quiet_updates(9,10))+

section \<open>Identifiers of send halves\<close>

text \<open>The own identifiers count up with the counter (until it wraps around); the peer has a send half here only for
  a bidirectional stream, and that stream is in the map.\<close>

definition ids_ok :: "bool \<Rightarrow> u64 \<Rightarrow> stream_id list \<Rightarrow> stream_id set \<Rightarrow> bool" where
  "ids_ok srv c ids M \<longleftrightarrow>
     map (\<lambda>sid. unat sid div 4) (filter (isOurStream srv) ids) = [0..<unat c div 4] \<and>
     distinct (filter (\<lambda>sid. \<not> isOurStream srv sid) ids) \<and>
     (\<forall>sid\<in>set ids. \<not> isOurStream srv sid \<longrightarrow> sid \<in> M \<and> isBidirectionalStream sid)"

abbreviation ids_inv :: "Session \<Rightarrow> bool" where
  "ids_inv s \<equiv> ids_ok (isServer s) (createdStreamCounter s) (send_ids s) (dom (streams s))"

lemma distinct_parts: "distinct (filter P xs) \<Longrightarrow> distinct (filter (\<lambda>x. \<not> P x) xs) \<Longrightarrow> distinct xs"
  by (induction xs) (auto split: if_splits)

lemma ids_ok_distinct: "ids_ok srv c ids M \<Longrightarrow> distinct ids"
  by (rule distinct_parts [of "isOurStream srv"]) (auto simp: ids_ok_def intro: distinct_of_map)

lemma ids_ok_own:
  assumes "ids_ok srv c ids M" and "counter_ok c" and "length ids + 1 < 2 ^ 62" and "M \<subseteq> M'"
  shows "ids_ok srv (c + 4) (ids @ [fst (nextStreamID srv c bidi)]) M'"
proof -
  obtain sid c' where n: "nextStreamID srv c bidi = (sid, c')" by fastforce
  note sp = nextStreamID_spec [OF assms(2) n]
  have "map (\<lambda>sid. unat sid div 4) (filter (isOurStream srv) ids) = [0..<unat c div 4]"
    using assms(1) by (simp add: ids_ok_def)
  then have "length (filter (isOurStream srv) ids) = unat c div 4" by (drule_tac f = length in arg_cong) simp
  with length_filter_le [of "isOurStream srv" ids] assms(3) have "unat c div 4 + 1 < 2 ^ 62" by linarith
  moreover obtain m where m: "unat c = 4 * m" using assms(2) by (auto simp: counter_ok_iff)
  ultimately have "m < 4611686018427387903" by simp
  with m have "unat (c + 4) = 4 * (m + 1)" by (simp add: unat_word_ariths)
  then have "unat (c + 4) div 4 = m + 1" by simp
  then have "[0..<unat (c + 4) div 4] = [0..<unat c div 4] @ [unat sid div 4]" using m sp(3) by simp
  with n sp(1) assms(1,4) show ?thesis unfolding ids_ok_def by auto
qed

lemma ids_ok_peer:
  assumes "ids_ok srv c ids M" and "sid \<notin> M" and "isBidirectionalStream sid" and "\<not> isOurStream srv sid"
  shows "ids_ok srv c (ids @ [sid]) (insert sid M)"
  using assms by (auto simp: ids_ok_def)

lemma quiet_ids: "quiet s s' \<Longrightarrow> ids_inv s' = ids_inv s"
  by (simp add: quiet_def)

lemma ids_inv_move:
  assumes "wire_move V s s'" and "ids_inv s" and "counter_ok (createdStreamCounter s)" and "length (sends s') < 2 ^ 62"
  shows "ids_inv s'"
  using assms
proof (induction rule: wire_move.induct)
  case (own s' s bidi)
  then show ?case using ids_ok_own [of "isServer s" "createdStreamCounter s" "send_ids s"] by simp
next
  case (peer s sid s')
  then show ?case using ids_ok_peer [of "isServer s" "createdStreamCounter s" "send_ids s" "dom (streams s)" sid]
    by (simp add: domIff)
qed (auto dest!: quiet_ids)

section \<open>The capsules of a stream\<close>

definition stream_capsule :: "CapsuleType \<Rightarrow> bool" where
  "stream_capsule t \<longleftrightarrow> t = CapsuleWTStream \<or> t = CapsuleWTStreamFin"

definition capsule_stream :: "varint_ops \<Rightarrow> CapsuleType \<times> bytes \<Rightarrow> stream_id option" where
  "capsule_stream V c =
     (if stream_capsule (fst c) then (case vread V (snd c) EOF of Inr (sid, rest) \<Rightarrow> Some sid | Inl e \<Rightarrow> None) else None)"

text \<open>The types of the capsules for a stream, in order.\<close>

definition on_stream :: "varint_ops \<Rightarrow> stream_id \<Rightarrow> (CapsuleType \<times> bytes) list \<Rightarrow> CapsuleType list" where
  "on_stream V sid cs = map fst (filter (\<lambda>c. capsule_stream V c = Some sid) cs)"

lemma on_stream_snoc [simp]:
  "on_stream V sid (cs @ [c]) = on_stream V sid cs @ (if capsule_stream V c = Some sid then [fst c] else [])"
  by (simp add: on_stream_def)

definition capsule_ok :: "varint_ops \<Rightarrow> stream_id set \<Rightarrow> CapsuleType \<times> bytes \<Rightarrow> bool" where
  "capsule_ok V ids c \<longleftrightarrow>
     fst c \<in> {CapsulePadding, CapsuleDatagram, CapsuleWTCloseSession} \<or>
     (\<exists>sid\<in>ids. \<exists>h. vappend V sid = Some h \<and>
        (fst c = CapsuleWTStream \<and> (\<exists>p. snd c = h @ p) \<or> fst c = CapsuleWTStreamFin \<and> snd c = h))"

text \<open>On a stream, data capsules come first, then at most one FIN, which has been written only if the stream is closed.\<close>

definition stream_order :: "varint_ops \<Rightarrow> (CapsuleType \<times> bytes) list \<Rightarrow> SendStream \<Rightarrow> bool" where
  "stream_order V cs st \<longleftrightarrow> (\<exists>n. on_stream V (ss_ID st) cs = replicate n CapsuleWTStream \<or>
     ss_closed st \<and> on_stream V (ss_ID st) cs = replicate n CapsuleWTStream @ [CapsuleWTStreamFin])"

definition wire_inv :: "varint_ops \<Rightarrow> Session \<Rightarrow> bool" where
  "wire_inv V s \<longleftrightarrow> ids_inv s \<and> list_all (capsule_ok V (set (send_ids s))) (written s) \<and>
     list_all (stream_order V (written s)) (sends s)"

lemma other_not_stream: "t \<in> {CapsulePadding, CapsuleDatagram, CapsuleWTCloseSession} \<Longrightarrow> capsule_stream V (t, d) = None"
  by (auto simp: capsule_stream_def stream_capsule_def capsule_types)

lemma quiet_wire: "quiet s s' \<Longrightarrow> wire_inv V s' = wire_inv V s"
  by (simp add: quiet_def wire_inv_def)

lemma capsule_ok_mono: "capsule_ok V A c \<Longrightarrow> A \<subseteq> B \<Longrightarrow> capsule_ok V B c"
  by (auto simp: capsule_ok_def)

context varint_codec
begin

lemma capsule_stream_append:
  "vappend V sid = Some h \<Longrightarrow> capsule_stream V (CapsuleWTStream, h @ p) = Some sid"
  "vappend V sid = Some h \<Longrightarrow> capsule_stream V (CapsuleWTStreamFin, h) = Some sid"
  using read_append [of sid h p EOF] read_append [of sid h "[]" EOF] by (simp_all add: capsule_stream_def stream_capsule_def)

lemma capsule_ok_stream: "capsule_ok V ids c \<Longrightarrow> capsule_stream V c = Some sid \<Longrightarrow> sid \<in> ids"
  using capsule_stream_append other_not_stream [of "fst c" V "snd c"]
  by (cases c) (auto simp: capsule_ok_def)

lemma on_stream_new:
  assumes "list_all (capsule_ok V ids) cs" and "sid \<notin> ids"
  shows "on_stream V sid cs = []"
  using assms capsule_ok_stream by (auto simp: on_stream_def list_all_iff filter_empty_conv)

lemma stream_order_other:
  "capsule_stream V c \<noteq> Some (ss_ID st) \<Longrightarrow> stream_order V (cs @ [c]) st = stream_order V cs st"
  by (simp add: stream_order_def)

lemma stream_order_data:
  "stream_order V cs st \<Longrightarrow> \<not> ss_closed st \<Longrightarrow> vappend V (ss_ID st) = Some h \<Longrightarrow>
   stream_order V (cs @ [(CapsuleWTStream, h @ p)]) st"
  by (auto simp: stream_order_def capsule_stream_append replicate_append_same intro: exI [of _ "Suc n" for n])

lemma stream_order_fin:
  "stream_order V cs st \<Longrightarrow> \<not> ss_closed st \<Longrightarrow> vappend V (ss_ID st) = Some h \<Longrightarrow>
   stream_order V (cs @ [(CapsuleWTStreamFin, h)]) (st\<lparr>ss_closed := True\<rparr>)"
  by (auto simp: stream_order_def capsule_stream_append)

lemma stream_order_closed: "stream_order V cs st \<Longrightarrow> stream_order V cs (st\<lparr>ss_closed := True\<rparr>)"
  by (auto simp: stream_order_def)

lemma stream_order_fresh:
  "list_all (capsule_ok V ids) cs \<Longrightarrow> ss_ID st \<notin> ids \<Longrightarrow> stream_order V cs st"
  using on_stream_new by (auto simp: stream_order_def intro: exI [of _ 0])

text \<open>A capsule of the stream of one send half keeps the order on all the others.\<close>

lemma wire_inv_capsule:
  assumes "wire_inv V s" and w: "w < length (sends s)" and st: "ss_ID st = ss_ID (sends s ! w)"
    and c: "capsule_stream V c = Some (ss_ID st)" "capsule_ok V {ss_ID st} c" "stream_order V (written s @ [c]) st"
  shows "wire_inv V (s\<lparr>sends := (sends s)[w := st], written := written s @ [c]\<rparr>)"
proof -
  have ids: "map ss_ID ((sends s)[w := st]) = send_ids s" using st w by (simp add: map_update list_update_same_conv)
  have d: "distinct (send_ids s)" using assms(1) ids_ok_distinct unfolding wire_inv_def by blast
  have "stream_order V (written s @ [c]) ((sends s)[w := st] ! i)" if i: "i < length (sends s)" for i
  proof (cases "i = w")
    case False
    with d i w have "ss_ID (sends s ! w) \<noteq> ss_ID (sends s ! i)" by (auto simp: distinct_conv_nth)
    with c(1) st False i assms(1) show ?thesis
      by (subst stream_order_other) (auto simp: wire_inv_def list_all_length)
  qed (use c i in simp)
  moreover have "capsule_ok V (set (send_ids s)) c" using c(2) st w by (elim capsule_ok_mono) auto
  ultimately show ?thesis using assms(1) ids by (simp add: wire_inv_def list_all_length [of "stream_order V x" for x])
qed

lemma wire_inv_move:
  assumes "wire_move V s s'" and "wire_inv V s" and "counter_ok (createdStreamCounter s)" and "length (sends s') < 2 ^ 62"
  shows "wire_inv V s'"
proof -
  have ids: "ids_inv s'" using ids_inv_move [OF assms(1) _ assms(3,4)] assms(2) by (simp add: wire_inv_def)
  have fresh: "wire_inv V s'" if "sends s' = sends s @ [\<lparr>ss_ID = sid, ss_closed = False\<rparr>]" "written s' = written s" for sid
  proof -
    have "sid \<notin> set (send_ids s)" using ids_ok_distinct [OF ids] that by auto
    then have "stream_order V (written s) \<lparr>ss_ID = sid, ss_closed = False\<rparr>"
      using assms(2) by (intro stream_order_fresh) (simp_all add: wire_inv_def)
    then show ?thesis using that assms(2) ids
      by (auto simp: wire_inv_def list_all_iff intro: capsule_ok_mono)
  qed
  from assms(1) show ?thesis
  proof cases
    case none
    then show ?thesis using assms(2) by (simp add: quiet_wire)
  next
    case (data w h p)
    then have "wire_inv V (s\<lparr>sends := (sends s)[w := sends s ! w], written := written s @ [(CapsuleWTStream, h @ p)]\<rparr>)"
      using assms(2) by (intro wire_inv_capsule stream_order_data)
        (simp_all add: capsule_stream_append capsule_ok_def wire_inv_def list_all_length)
    then show ?thesis using data by (simp add: quiet_wire)
  next
    case (fin w h)
    then have "wire_inv V (s\<lparr>sends := (sends s)[w := (sends s ! w)\<lparr>ss_closed := True\<rparr>],
        written := written s @ [(CapsuleWTStreamFin, h)]\<rparr>)"
      using assms(2) by (intro wire_inv_capsule stream_order_fin)
        (simp_all add: capsule_stream_append capsule_ok_def wire_inv_def list_all_length)
    then show ?thesis using fin by (simp add: quiet_wire upd_send_def)
  next
    case (fin_failed w)
    let ?s = "upd_send s w (\<lambda>st. st\<lparr>ss_closed := True\<rparr>)"
    have "list_all (stream_order V (written s)) (sends ?s)"
      using assms(2) fin_failed stream_order_closed by (auto simp: wire_inv_def list_all_length upd_send_def nth_list_update)
    moreover have "send_ids ?s = send_ids s" by simp
    ultimately have "wire_inv V ?s" using assms(2) unfolding wire_inv_def by simp
    then show ?thesis using fin_failed by (simp add: quiet_wire)
  next
    case (other t d)
    then have "wire_inv V (s\<lparr>written := written s @ [(t, d)]\<rparr>)"
      using assms(2) other_not_stream [of t V d] by (auto simp: wire_inv_def list_all_length stream_order_other capsule_ok_def nth_append)
    then show ?thesis using other by (simp add: quiet_wire)
  qed (auto intro: fresh)
qed

end

section \<open>Over all runs\<close>

lemma wire_inv_new: "wire_inv V (newSessionConfigured p srv peer)"
  by (simp add: wire_inv_def ids_ok_def newSessionConfigured_def)

lemma evolves_sends: "evolves s s' \<Longrightarrow> length (sends s) \<le> length (sends s')"
  unfolding evolves_def grows_def by (metis length_append length_map le_add1)

lemma reach_wire:
  assumes "varint_codec V" and "session_reach V K e (newSessionConfigured p srv peer, Running input) d"
    and "length (sends (fst d)) < 2 ^ 62"
  shows "wire_inv V (fst d)"
  using assms(2,3)
proof (induction rule: session_reach.induct)
  case start
  then show ?case by (simp add: wire_inv_new)
next
  case (step d d')
  obtain s pc s' pc' where [simp]: "d = (s, pc)" "d' = (s', pc')" by fastforce
  have st: "session_step V K e (s, pc) (s', pc')" using step by simp
  have ok: "session_ok s" using reach_ok [OF step.hyps(1)] session_ok_new by simp
  have "length (sends s) \<le> length (sends s')" using evolves_sends [OF step_evolves [OF st]] .
  with step have "wire_inv V s" by simp
  with step ok show ?case
    using varint_codec.wire_inv_move [OF assms(1) step_moves [OF st]] by (simp add: session_ok_def flow_ok_def)
qed

text \<open>C14: The wire discipline of a session, over every input and every sequence of calls (short of
  \<open>2^62\<close> streams, where the counter wraps around): its streams have pairwise different identifiers; it writes
  only padding, datagram, close and stream capsules, so never a capsule that grants credit; a
  stream capsule starts with the identifier of one of its streams and a FIN holds nothing else;
  and on each stream the data capsules come first, with at most one FIN after them, which only a closed stream has.\<close>
theorem wire_discipline:
  assumes "varint_codec V" and "session_reach V K e (newSessionConfigured p srv peer, Running input) (s, pc)"
    and "length (sends s) < 2 ^ 62"
  shows "distinct (map ss_ID (sends s)) \<and> list_all (capsule_ok V (set (map ss_ID (sends s)))) (written s) \<and>
    list_all (stream_order V (written s)) (sends s)"
  using reach_wire [OF assms(1,2)] assms(3) ids_ok_distinct unfolding wire_inv_def by (metis fst_conv)

definition spoken_session :: "nat \<Rightarrow> Session" where
  "spoken_session n = (let s0 = newSessionConfigured ''p'' True None; s1 = snd (OpenUnidirectionalStream s0) in
     if n = 0 then s0 else if n = 1 then s1 else
     let s2 = snd (the (SendStream_Write quicwire_varint s1 0 [104, 105] None)) in
     if n = 2 then s2 else snd (the (SendStream_Close quicwire_varint s2 0 None)))"

lemma spoken_reach:
  "session_reach quicwire_varint quicwire_capsule EOF (newSessionConfigured ''p'' True None, Running [])
     (spoken_session 3, Running [])"
proof -
  have "OpenUnidirectionalStream (spoken_session 0) = (fst (OpenUnidirectionalStream (spoken_session 0)), spoken_session 1)"
    by (simp add: spoken_session_def Let_def)
  from session_step.app_open_uni [OF this]
  have 1: "session_step quicwire_varint quicwire_capsule EOF (spoken_session 0, Running []) (spoken_session 1, Running [])" .
  have l: "sends (spoken_session 1) \<noteq> []" "sends (spoken_session 2) \<noteq> []" by code_simp+
  have "map_option fst (SendStream_Write quicwire_varint (spoken_session 1) 0 [104, 105] None) = Some (2, None)" by code_simp
  then have "SendStream_Write quicwire_varint (spoken_session 1) 0 [104, 105] None = Some ((2, None), spoken_session 2)"
    by (auto simp: spoken_session_def Let_def)
  from session_step.app_write [OF _ _ this] l
  have 2: "session_step quicwire_varint quicwire_capsule EOF (spoken_session 1, Running []) (spoken_session 2, Running [])" by simp
  have "map_option fst (SendStream_Close quicwire_varint (spoken_session 2) 0 None) = Some None" by code_simp
  then have "SendStream_Close quicwire_varint (spoken_session 2) 0 None = Some (None, spoken_session 3)"
    by (auto simp: spoken_session_def Let_def)
  from session_step.app_close_send [OF _ this] l
  have 3: "session_step quicwire_varint quicwire_capsule EOF (spoken_session 2, Running []) (spoken_session 3, Running [])" by simp
  have "session_reach quicwire_varint quicwire_capsule EOF (spoken_session 0, Running []) (spoken_session 3, Running [])"
    by (rule session_reach.step [OF session_reach.step [OF session_reach.step [OF session_reach.start 1] 2] 3])
  then show ?thesis by (simp add: spoken_session_def)
qed

theorem wire_discipline_witness:
  "written (spoken_session 3) = [(CapsuleWTStream, [3, 104, 105]), (CapsuleWTStreamFin, [3])] \<and>
   list_all (stream_order quicwire_varint (written (spoken_session 3))) (sends (spoken_session 3))"
proof -
  have "length (sends (spoken_session 3)) = 1"
    "written (spoken_session 3) = [(CapsuleWTStream, [3, 104, 105]), (CapsuleWTStreamFin, [3])]" by code_simp+
  with wire_discipline [OF qw.varint_codec_axioms spoken_reach] show ?thesis by simp
qed

end
