(* ===== verification/Endpoint.thy ===== *)
theory Endpoint
  imports Session_Delivery
begin

text \<open>
  What the two endpoints (internal/echo and internal/baton) have in common: their goroutines use a
  session only by its operations. \<open>uses\<close> says that one state of a session leads to another by steps of
  the session that leave its read loop alone; the locale \<open>session_client\<close> is the contract of a
  program built on a session, and carries the session's invariant over to every run of it.
\<close>

section \<open>Using a session\<close>

lemma session_reach_trans:
  assumes "session_reach V K e d d'" and "session_reach V K e c d"
  shows "session_reach V K e c d'"
  using assms by (induction rule: session_reach.induct) (auto intro: session_reach.step)

definition uses :: "varint_ops \<Rightarrow> capsule_ops \<Rightarrow> go_err \<Rightarrow> Session \<Rightarrow> Session \<Rightarrow> bool" where
  "uses V K e s s' \<longleftrightarrow> (\<forall>pc. session_reach V K e (s, pc) (s', pc))"

named_theorems session_use "operations of a session as steps of it"

lemma uses_refl [simp]: "uses V K e s s"
  by (simp add: uses_def session_reach.start)

lemma uses_trans: "uses V K e s t \<Longrightarrow> uses V K e t u \<Longrightarrow> uses V K e s u"
  unfolding uses_def by (blast intro: session_reach_trans)

lemma uses_step: "(\<And>pc. session_step V K e (s, pc) (s', pc)) \<Longrightarrow> uses V K e s s'"
  unfolding uses_def by (blast intro: session_reach.intros)

lemma uses_open [session_use]:
  "OpenStream s = (r, s') \<Longrightarrow> uses V K e s s'" "OpenUnidirectionalStream s = (r2, s') \<Longrightarrow> uses V K e s s'"
  by (blast intro: uses_step session_step.app_open session_step.app_open_uni)+

lemma uses_accept [session_use]:
  "AcceptStream k ctx s = Some (r, s') \<Longrightarrow> uses V K e s s'"
  "AcceptUnidirectionalStream k ctx s = Some (r2, s') \<Longrightarrow> uses V K e s s'"
  by (blast intro: uses_step session_step.app_accept session_step.app_accept_uni)+

lemma uses_write [session_use]:
  "SendStream_Write V s w p werr = Some (r, s') \<Longrightarrow> w < length (sends s) \<Longrightarrow> length p < 2 ^ 63 \<Longrightarrow> uses V K e s s'"
  by (blast intro: uses_step session_step.app_write)

lemma uses_close_send [session_use]:
  "SendStream_Close V s w werr = Some (r, s') \<Longrightarrow> w < length (sends s) \<Longrightarrow> uses V K e s s'"
  by (blast intro: uses_step session_step.app_close_send)

lemma uses_close_stream [session_use]:
  "Stream_Close V s st werr = Some (r, s') \<Longrightarrow> st_recv st < length (recvs s) \<Longrightarrow> st_send st < length (sends s) \<Longrightarrow>
   uses V K e s s'"
  by (blast intro: uses_step session_step.app_close_stream)

lemma uses_close_recv [session_use]: "r < length (recvs s) \<Longrightarrow> uses V K e s (ReceiveStream_Close s r)"
  by (blast intro: uses_step session_step.app_close_recv)

lemma uses_datagrams [session_use]:
  "SendDatagram s p werr = (r, s') \<Longrightarrow> uses V K e s s'"
  "ReceiveDatagram_poll s = (r2, s') \<Longrightarrow> uses V K e s s'"
  by (blast intro: uses_step session_step.app_send_dgram session_step.app_recv_dgram)+

lemma uses_ReceiveDatagram [session_use]: "ReceiveDatagram ctx s = Some (r, s') \<Longrightarrow> uses V K e s s'"
  by (auto simp: ReceiveDatagram_def split: prod.splits option.splits intro: uses_datagrams)

lemma uses_flush [session_use]: "uses V K e s (Session_Flush s)"
  by (blast intro: uses_step session_step.app_flush)

lemma uses_Close [session_use]: "uses V K e s (Session_Close s)"
  by (blast intro: uses_step session_step.app_close)

lemma uses_keeps:
  assumes "uses V K e s s'" and "session_ok s"
  shows "session_ok s' \<and> evolves s s'"
  using assms(1) reach_ok [of V K e "(s, Running [])" "(s', Running [])"] assms(2) by (simp add: uses_def)

lemma grows_lengths:
  assumes "grows s s'"
  shows "length (recvs s) \<le> length (recvs s') \<and> length (sends s) \<le> length (sends s')"
proof -
  obtain xs ys where "recv_ids s' = recv_ids s @ xs" "send_ids s' = send_ids s @ ys"
    using assms by (auto simp: grows_def)
  then have "length (recv_ids s') = length (recv_ids s @ xs)" "length (send_ids s') = length (send_ids s @ ys)"
    by simp_all
  then show ?thesis by simp
qed

lemma uses_lengths:
  assumes "uses V K e s s'" and "session_ok s"
  shows "length (recvs s) \<le> length (recvs s') \<and> length (sends s) \<le> length (sends s')"
  using uses_keeps [OF assms] grows_lengths by (simp add: evolves_def)

text \<open>\<^verbatim>\<open>io.ReadAll\<close> is a sequence of reads.\<close>

lemma ReceiveStream_Read_buffer:
  assumes "streamReceiveBuffer_read (recvBuffer (recvs s ! r)) n = Some (x, b)"
  shows "ReceiveStream_Read s r n = Some (x, upd_recv s r (\<lambda>st. st\<lparr>recvBuffer := b\<rparr>))"
  using assms by (simp add: ReceiveStream_Read_def)

lemma upd_recv_twice:
  "r < length (recvs s) \<Longrightarrow>
   upd_recv (upd_recv s r (\<lambda>st. st\<lparr>recvBuffer := b\<rparr>)) r (\<lambda>st. st\<lparr>recvBuffer := c\<rparr>) =
   upd_recv s r (\<lambda>st. st\<lparr>recvBuffer := c\<rparr>)"
  by (simp add: upd_recv_def)

lemma recvBuffer_upd_recv [simp]:
  "r < length (recvs s) \<Longrightarrow> recvBuffer (recvs (upd_recv s r (\<lambda>st. st\<lparr>recvBuffer := b\<rparr>)) ! r) = b"
  by (simp add: upd_recv_def)

lemma length_upd_recv [simp]: "length (recvs (upd_recv s r f)) = length (recvs s)"
  by (simp add: upd_recv_def)

lemma uses_read [session_use]:
  "ReceiveStream_Read s r n = Some (x, s') \<Longrightarrow> r < length (recvs s) \<Longrightarrow> uses V K e s s'"
  by (blast intro: uses_step session_step.app_read)

lemma uses_ReadAll [session_use]:
  assumes "srb_ReadAll sz k (recvBuffer (recvs s ! r)) = Some (data, b')" and "r < length (recvs s)"
  shows "uses V K e s (upd_recv s r (\<lambda>st. st\<lparr>recvBuffer := b'\<rparr>))"
  using assms
proof (induction sz k "recvBuffer (recvs s ! r)" arbitrary: s data b' rule: srb_ReadAll.induct)
  case (1 sz k s)
  let ?b = "recvBuffer (recvs s ! r)"
  obtain x b1 where rd: "streamReceiveBuffer_read ?b (Suc (sz k)) = Some (x, b1)"
    using "1.prems"(1) by (subst (asm) srb_ReadAll.simps) (auto split: option.splits)
  let ?s1 = "upd_recv s r (\<lambda>st. st\<lparr>recvBuffer := b1\<rparr>)"
  have u: "uses V K e s ?s1"
    using ReceiveStream_Read_buffer [OF rd] "1.prems"(2) by (rule uses_read)
  show ?case
  proof (cases x)
    case (Inl err)
    then have "b' = b1" using "1.prems"(1) rd by (subst (asm) srb_ReadAll.simps) simp
    with u show ?thesis by simp
  next
    case (Inr p)
    then obtain q where q: "srb_ReadAll sz (Suc k) b1 = Some (q, b')"
      using "1.prems"(1) rd by (subst (asm) srb_ReadAll.simps) (auto split: option.splits)
    have "uses V K e ?s1 (upd_recv ?s1 r (\<lambda>st. st\<lparr>recvBuffer := b'\<rparr>))"
      using "1.hyps" rd Inr q "1.prems"(2) by simp
    with u show ?thesis using upd_recv_twice [OF "1.prems"(2)] uses_trans by metis
  qed
qed

text \<open>What an accepting call returns was in the queue.\<close>

lemma Accept_queued:
  "AcceptStream k ctx s = Some (Inr st, s') \<Longrightarrow> st \<in> set (incomingStreams s)"
  "AcceptUnidirectionalStream k ctx s = Some (Inr r, s') \<Longrightarrow> r \<in> set (incomingUnidirectionalStreams s)"
  by (cases "incomingStreams s"; cases ctx; auto simp: AcceptStream_def dest!: select_ready_in split: if_splits)
    (cases "incomingUnidirectionalStreams s"; cases ctx;
     auto simp: AcceptUnidirectionalStream_def dest!: select_ready_in split: if_splits)

lemma OpenUni_sends: "OpenUnidirectionalStream s = (Inr w, s') \<Longrightarrow> w < length (sends s')"
  by (auto simp: OpenUnidirectionalStream_def newSendStream_def Let_def split: if_splits prod.splits sum.splits)

section \<open>The contract of a session's client\<close>

locale session_client =
  fixes V :: varint_ops and K :: capsule_ops and e :: go_err
    and move :: "'st \<times> loop_pc \<Rightarrow> 'st \<times> loop_pc \<Rightarrow> bool"
    and sess :: "'st \<Rightarrow> Session" and refs :: "'st \<Rightarrow> bool"
  assumes legal: "move (b, pc) (b', pc') \<Longrightarrow> session_ok (sess b) \<Longrightarrow> pc_ok (sess b) pc \<Longrightarrow> refs b \<Longrightarrow>
      session_reach V K e (sess b, pc) (sess b', pc')"
    and keeps: "move (b, pc) (b', pc') \<Longrightarrow> session_ok (sess b) \<Longrightarrow> pc_ok (sess b) pc \<Longrightarrow> refs b \<Longrightarrow> refs b'"
begin

lemma run_legal:
  assumes "rtranclp move (b, pc) c" and "session_ok (sess b)" and "pc_ok (sess b) pc" and "refs b"
  shows "session_reach V K e (sess b, pc) (sess (fst c), snd c) \<and> refs (fst c)"
  using assms
proof (induction rule: rtranclp_induct)
  case base
  then show ?case by (simp add: session_reach.start)
next
  case (step c d)
  obtain b1 pc1 b2 pc2 where c: "c = (b1, pc1)" "d = (b2, pc2)" by fastforce
  with step have r: "session_reach V K e (sess b, pc) (sess b1, pc1)" "refs b1" by simp_all
  then have ok: "session_ok (sess b1)" "pc_ok (sess b1) pc1"
    using reach_ok [OF r(1)] step.prems by simp_all
  have mv: "move (b1, pc1) (b2, pc2)" using step.hyps(2) c by simp
  from legal [OF mv ok r(2)] keeps [OF mv ok r(2)] r(1) c show ?case
    by (simp add: session_reach_trans)
qed

lemma run_session_ok:
  assumes "rtranclp move (b, pc) c" and "session_ok (sess b)" and "pc_ok (sess b) pc" and "refs b"
  shows "session_ok (sess (fst c)) \<and> evolves (sess b) (sess (fst c))"
  using run_legal [OF assms] reach_ok [of V K e "(sess b, pc)"] assms(2,3) by fastforce

end

end
