(* ===== verification/Go_Text.thy ===== *)
theory Go_Text
  imports Prelude "HOL-Library.AList"
begin

text \<open>
  What the endpoints use of strconv, fmt and net/url: decimal numbers with a sign
  (\<^verbatim>\<open>strconv.Itoa\<close>, \<^verbatim>\<open>strconv.Atoi\<close>, \<^verbatim>\<open>%d\<close> of an int), quoted strings (\<^verbatim>\<open>%q\<close>) and the values of a
  URL query (\<^verbatim>\<open>url.Values\<close>).
\<close>

section \<open>Decimal numbers\<close>

definition fmt_int :: "int \<Rightarrow> string" where
  "fmt_int n = (if n < 0 then CHR ''-'' # fmt_d (nat (- n)) else fmt_d (nat n))"

definition is_digit :: "char \<Rightarrow> bool" where
  "is_digit c \<longleftrightarrow> 48 \<le> (of_char c :: nat) \<and> (of_char c :: nat) \<le> 57"

definition digit_value :: "char \<Rightarrow> nat" where
  "digit_value c = of_char c - 48"

text \<open>\<^verbatim>\<open>strconv.Atoi\<close> on a 64-bit machine: an optional sign, at least one digit, nothing else, and a value
  that fits. \<open>None\<close> is a syntax or range error.\<close>

definition Atoi :: "string \<Rightarrow> int option" where
  "Atoi s =
     (let neg = (case s of c # cs \<Rightarrow> c = CHR ''-'' | [] \<Rightarrow> False);
          ds = (case s of c # cs \<Rightarrow> if c = CHR ''-'' \<or> c = CHR ''+'' then cs else s | [] \<Rightarrow> [])
      in if ds = [] \<or> \<not> list_all is_digit ds then None
         else let v = int (undigits 10 (map digit_value ds)); n = (if neg then - v else v)
              in if - (2 ^ 63) \<le> n \<and> n < 2 ^ 63 then Some n else None)"

lemma lower_digit_value:
  assumes "d < 10"
  shows "is_digit (lower_digit d)" and "digit_value (lower_digit d) = d"
proof -
  have d: "d \<in> {0, 1, 2, 3, 4, 5, 6, 7, 8, 9}" using assms by auto
  show "is_digit (lower_digit d)" using d by (auto simp: lower_digit_def is_digit_def)
  show "digit_value (lower_digit d) = d" using d by (auto simp: lower_digit_def digit_value_def)
qed

lemma fmt_d_digits: "list_all is_digit (fmt_d n)" "fmt_d n \<noteq> []" "undigits 10 (map digit_value (fmt_d n)) = n"
proof -
  have lt: "d < 10" if "d \<in> set (digits 10 n)" for d using digits_lt [of 10 d n] that by simp
  then show "list_all is_digit (fmt_d n)" by (auto simp: fmt_d_def list_all_iff lower_digit_value)
  show "fmt_d n \<noteq> []" by (simp add: fmt_d_def)
  have "map digit_value (fmt_d n) = digits 10 n"
    unfolding fmt_d_def map_map by (rule map_idI) (simp add: lt lower_digit_value)
  then show "undigits 10 (map digit_value (fmt_d n)) = n" by (simp add: undigits_digits)
qed

lemma is_digit_not_sign: "is_digit c \<Longrightarrow> c \<noteq> CHR ''-'' \<and> c \<noteq> CHR ''+''"
  by (auto simp: is_digit_def)

lemma Atoi_fmt_int:
  assumes "- (2 ^ 63) \<le> n" and "n < 2 ^ 63"
  shows "Atoi (fmt_int n) = Some n"
proof (cases "n < 0")
  case True
  with assms show ?thesis
    using fmt_d_digits [of "nat (- n)"] by (simp add: Atoi_def fmt_int_def Let_def)
next
  case False
  obtain c cs where f: "fmt_d (nat n) = c # cs" using fmt_d_digits(2) by (meson neq_Nil_conv)
  then have "c \<noteq> CHR ''-'' \<and> c \<noteq> CHR ''+''"
    using fmt_d_digits(1) [of "nat n"] is_digit_not_sign by simp
  with False f assms show ?thesis
    using fmt_d_digits [of "nat n"] by (simp add: Atoi_def fmt_int_def Let_def)
qed

section \<open>Quoting\<close>

text \<open>\<^verbatim>\<open>%q\<close>. Bytes from 0x80 are copied, as they are when they form printable UTF-8.\<close>

definition hex2 :: "nat \<Rightarrow> string" where
  "hex2 n = [lower_digit (n div 16), lower_digit (n mod 16)]"

definition quote_char :: "char \<Rightarrow> string" where
  "quote_char c =
     (let n = of_char c :: nat; bs = CHR 0x5c
      in if n = 0x22 then [bs, c]
         else if n = 0x5c then [bs, c]
         else if n = 0x07 then [bs, CHR ''a'']
         else if n = 0x08 then [bs, CHR ''b'']
         else if n = 0x0c then [bs, CHR ''f'']
         else if n = 0x0a then [bs, CHR ''n'']
         else if n = 0x0d then [bs, CHR ''r'']
         else if n = 0x09 then [bs, CHR ''t'']
         else if n = 0x0b then [bs, CHR ''v'']
         else if n < 0x20 \<or> n = 0x7f then bs # CHR ''x'' # hex2 n
         else [c])"

definition fmt_q :: "string \<Rightarrow> string" where
  "fmt_q s = CHR 0x22 # concat (map quote_char s) @ [CHR 0x22]"

section \<open>Query values\<close>

text \<open>A \<^verbatim>\<open>url.Values\<close> is a map; here an association list, of which only the lookups matter.\<close>

type_synonym url_Values = "(string \<times> string list) list"

definition values_of :: "url_Values \<Rightarrow> string \<Rightarrow> string list" where
  "values_of q k = (case map_of q k of None \<Rightarrow> [] | Some vs \<Rightarrow> vs)"

definition Values_Get :: "url_Values \<Rightarrow> string \<Rightarrow> string" where
  "Values_Get q k = (case values_of q k of [] \<Rightarrow> '''' | v # vs \<Rightarrow> v)"

definition Values_Set :: "url_Values \<Rightarrow> string \<Rightarrow> string \<Rightarrow> url_Values" where
  "Values_Set q k v = AList.update k [v] q"

definition Values_Add :: "url_Values \<Rightarrow> string \<Rightarrow> string \<Rightarrow> url_Values" where
  "Values_Add q k v = AList.update k (values_of q k @ [v]) q"

lemma values_of_Set [simp]: "values_of (Values_Set q k v) l = (if l = k then [v] else values_of q l)"
  by (simp add: values_of_def Values_Set_def update_conv')

lemma values_of_Add [simp]: "values_of (Values_Add q k v) l = (if l = k then values_of q k @ [v] else values_of q l)"
  by (simp add: values_of_def Values_Add_def update_conv')

lemma Values_distinct [simp]:
  "distinct (map fst q) \<Longrightarrow> distinct (map fst (Values_Set q k v))"
  "distinct (map fst q) \<Longrightarrow> distinct (map fst (Values_Add q k v))"
  by (simp_all add: Values_Set_def Values_Add_def distinct_update)

lemma Values_Get_Set [simp]: "Values_Get (Values_Set q k v) l = (if l = k then v else Values_Get q l)"
  by (simp add: Values_Get_def)

lemma Values_Get_empty [simp]: "Values_Get [] k = ''''"
  by (simp add: Values_Get_def values_of_def)

end
