(* ===== verification/Echo.thy ===== *)
theory Echo
  imports Endpoint Go_Text
begin

text \<open>
  internal/echo: the echo endpoint and its client. The server's three loops accept streams and
  datagrams; every stream gets a goroutine (\<open>es_jobs\<close>) that reads it to the end and sends the bytes back.
  The client sends a payload on one channel and compares what comes back. The calls on a session are
  those of Session; the arguments \<open>w1\<close>, \<open>w2\<close> are the outcomes of the writes, a result \<open>None\<close> is a
  wait or a panic.
\<close>

section \<open>The server\<close>

definition echo_Path :: string where "echo_Path = ''/webtransport/echo''"

definition echo_Protocol :: string where "echo_Protocol = ''echo''"

text \<open>Write a payload on a send stream; the bytes that were not written do not matter to the callers.\<close>

definition write_payload :: "varint_ops \<Rightarrow> Session \<Rightarrow> nat \<Rightarrow> bytes \<Rightarrow> go_err option \<Rightarrow> (go_err option \<times> Session) option" where
  "write_payload V s w p w1 = map_option (\<lambda>((n, err), s'). (err, s')) (SendStream_Write V s w p w1)"

text \<open>What was written is flushed when the last write succeeded.\<close>

definition flush_ok :: "(go_err option \<times> Session) option \<Rightarrow> (go_err option \<times> Session) option" where
  "flush_ok r = map_option (\<lambda>(err, s). (err, if err = None then Session_Flush s else s)) r"

definition echoBidi ::
  "varint_ops \<Rightarrow> (nat \<Rightarrow> nat) \<Rightarrow> Session \<Rightarrow> Stream \<Rightarrow> go_err option \<Rightarrow> go_err option \<Rightarrow> (go_err option \<times> Session) option" where
  "echoBidi V sz s st w1 w2 =
     (case srb_ReadAll sz 0 (recvBuffer (recvs s ! st_recv st)) of
        None \<Rightarrow> None
      | Some (payload, buf) \<Rightarrow>
          (case write_payload V (upd_recv s (st_recv st) (\<lambda>x. x\<lparr>recvBuffer := buf\<rparr>)) (st_send st) payload w1 of
             None \<Rightarrow> None
           | Some (Some err, s2) \<Rightarrow> Some (Some err, s2)
           | Some (None, s2) \<Rightarrow> flush_ok (Stream_Close V s2 st w2)))"

text \<open>Open a unidirectional stream, write the payload, close it and flush, as server and client both do.\<close>

definition send_uni :: "varint_ops \<Rightarrow> Session \<Rightarrow> bytes \<Rightarrow> go_err option \<Rightarrow> go_err option \<Rightarrow> (go_err option \<times> Session) option" where
  "send_uni V s payload w1 w2 =
     (case OpenUnidirectionalStream s of
        (Inl err, s2) \<Rightarrow> Some (Some err, s2)
      | (Inr out, s2) \<Rightarrow>
          (case write_payload V s2 out payload w1 of
             None \<Rightarrow> None
           | Some (Some err, s3) \<Rightarrow> Some (Some err, s3)
           | Some (None, s3) \<Rightarrow> flush_ok (SendStream_Close V s3 out w2)))"

definition echoUni ::
  "varint_ops \<Rightarrow> (nat \<Rightarrow> nat) \<Rightarrow> Session \<Rightarrow> nat \<Rightarrow> go_err option \<Rightarrow> go_err option \<Rightarrow> (go_err option \<times> Session) option" where
  "echoUni V sz s r w1 w2 =
     (case srb_ReadAll sz 0 (recvBuffer (recvs s ! r)) of
        None \<Rightarrow> None
      | Some (payload, buf) \<Rightarrow> send_uni V (upd_recv s r (\<lambda>x. x\<lparr>recvBuffer := buf\<rparr>)) payload w1 w2)"

text \<open>\<^verbatim>\<open>logEchoStop\<close>: the line it logs, if any.\<close>

definition logEchoStop :: "string \<Rightarrow> go_err option \<Rightarrow> string option" where
  "logEchoStop what err =
     (case err of
        None \<Rightarrow> None
      | Some e \<Rightarrow>
          if errors_Is e ContextCanceled \<or> errors_Is e ErrSessionClosed \<or> errors_Is e EOF then None
          else Some (''echo '' @ what @ '': '' @ Error e))"

datatype echo_job = EchoBidi Stream | EchoUni nat

text \<open>The state of \<^verbatim>\<open>runEchoServer\<close>: the session, the goroutines that echo a stream, which of the three
  loops still run, whether the handler has returned, and the errors that were logged.\<close>

record echoServer =
  es_sess :: Session
  es_jobs :: "echo_job list"
  es_bidi :: bool
  es_uni :: bool
  es_dgram :: bool
  es_returned :: bool
  es_log :: "string list"

definition log_line :: "echoServer \<Rightarrow> string option \<Rightarrow> echoServer" where
  "log_line s line = (case line of None \<Rightarrow> s | Some l \<Rightarrow> s\<lparr>es_log := es_log s @ [l]\<rparr>)"

text \<open>One pass of a loop; the flag is false when the loop returns.\<close>

definition echoBidiLoop_iter :: "nat \<Rightarrow> go_err option \<Rightarrow> echoServer \<Rightarrow> (bool \<times> echoServer) option" where
  "echoBidiLoop_iter k ctx s =
     (case AcceptStream k ctx (es_sess s) of
        None \<Rightarrow> None
      | Some (Inl err, s1) \<Rightarrow> Some (False, log_line (s\<lparr>es_sess := s1\<rparr>) (logEchoStop ''bidi accept'' (Some err)))
      | Some (Inr st, s1) \<Rightarrow> Some (True, s\<lparr>es_sess := s1, es_jobs := es_jobs s @ [EchoBidi st]\<rparr>))"

definition echoUniLoop_iter :: "nat \<Rightarrow> go_err option \<Rightarrow> echoServer \<Rightarrow> (bool \<times> echoServer) option" where
  "echoUniLoop_iter k ctx s =
     (case AcceptUnidirectionalStream k ctx (es_sess s) of
        None \<Rightarrow> None
      | Some (Inl err, s1) \<Rightarrow> Some (False, log_line (s\<lparr>es_sess := s1\<rparr>) (logEchoStop ''uni accept'' (Some err)))
      | Some (Inr r, s1) \<Rightarrow> Some (True, s\<lparr>es_sess := s1, es_jobs := es_jobs s @ [EchoUni r]\<rparr>))"

definition echoDatagramLoop_iter ::
  "go_err option \<Rightarrow> go_err option \<Rightarrow> echoServer \<Rightarrow> (bool \<times> echoServer) option" where
  "echoDatagramLoop_iter ctx w1 s =
     (case ReceiveDatagram ctx (es_sess s) of
        None \<Rightarrow> None
      | Some (Inl err, s1) \<Rightarrow> Some (False, log_line (s\<lparr>es_sess := s1\<rparr>) (logEchoStop ''datagram'' (Some err)))
      | Some (Inr payload, s1) \<Rightarrow>
          (case SendDatagram s1 payload w1 of
             (Some err, s2) \<Rightarrow> Some (False, (s\<lparr>es_sess := s2\<rparr>)\<lparr>es_log := es_log s @ [''echo datagram: '' @ Error err]\<rparr>)
           | (None, s2) \<Rightarrow> Some (True, s\<lparr>es_sess := Session_Flush s2\<rparr>)))"

text \<open>The goroutine of a stream.\<close>

fun echo_job_run ::
  "varint_ops \<Rightarrow> (nat \<Rightarrow> nat) \<Rightarrow> echoServer \<Rightarrow> echo_job \<Rightarrow> go_err option \<Rightarrow> go_err option \<Rightarrow> echoServer option" where
  "echo_job_run V sz s (EchoBidi st) w1 w2 =
     map_option (\<lambda>(err, s1). log_line (s\<lparr>es_sess := s1\<rparr>)
         (map_option (\<lambda>e. ''echo bidi id='' @ fmt_d (unat (st_ID st)) @ '': '' @ Error e) err))
       (echoBidi V sz (es_sess s) st w1 w2)"
| "echo_job_run V sz s (EchoUni r) w1 w2 =
     map_option (\<lambda>(err, s1). log_line (s\<lparr>es_sess := s1\<rparr>)
         (map_option (\<lambda>e. ''echo uni id='' @ fmt_d (unat (rs_ID (recvs (es_sess s) ! r))) @ '': '' @ Error e) err))
       (echoUni V sz (es_sess s) r w1 w2)"

text \<open>The end of \<^verbatim>\<open>runEchoServer\<close>: once the context or the session is done it waits for the three loops (the
  goroutines of the streams are not in the wait group), and the handler's deferred \<^verbatim>\<open>Close\<close> runs.\<close>

definition runEchoServer_return :: "go_err option \<Rightarrow> echoServer \<Rightarrow> echoServer option" where
  "runEchoServer_return ctx s =
     (if (ctx \<noteq> None \<or> done_ch (es_sess s)) \<and> \<not> es_bidi s \<and> \<not> es_uni s \<and> \<not> es_dgram s \<and> \<not> es_returned s
      then Some (s\<lparr>es_sess := Session_Close (es_sess s), es_returned := True\<rparr>)
      else None)"

text \<open>No slice has \<open>2 ^ 63\<close> bytes.\<close>

definition in_memory :: "Session \<Rightarrow> bool" where
  "in_memory s \<longleftrightarrow> list_all (\<lambda>x. length (srb_data (recvBuffer x)) < 2 ^ 63) (recvs s)"

inductive echo_step ::
  "varint_ops \<Rightarrow> capsule_ops \<Rightarrow> go_err \<Rightarrow> echoServer \<times> loop_pc \<Rightarrow> echoServer \<times> loop_pc \<Rightarrow> bool"
  for V K e where
  bidi_loop: "es_bidi s \<Longrightarrow> echoBidiLoop_iter k ctx s = Some (go, s1) \<Longrightarrow>
    echo_step V K e (s, pc) (s1\<lparr>es_bidi := go\<rparr>, pc)"
| uni_loop: "es_uni s \<Longrightarrow> echoUniLoop_iter k ctx s = Some (go, s1) \<Longrightarrow>
    echo_step V K e (s, pc) (s1\<lparr>es_uni := go\<rparr>, pc)"
| datagram_loop: "es_dgram s \<Longrightarrow> echoDatagramLoop_iter ctx w1 s = Some (go, s1) \<Longrightarrow>
    echo_step V K e (s, pc) (s1\<lparr>es_dgram := go\<rparr>, pc)"
| return: "runEchoServer_return ctx s = Some s' \<Longrightarrow> echo_step V K e (s, pc) (s', pc)"
| job: "i < length (es_jobs s) \<Longrightarrow> in_memory (es_sess s) \<Longrightarrow>
    echo_job_run V sz (s\<lparr>es_jobs := take i (es_jobs s) @ drop (Suc i) (es_jobs s)\<rparr>) (es_jobs s ! i) w1 w2 = Some s' \<Longrightarrow>
    echo_step V K e (s, pc) (s', pc)"
| session: "session_step V K e (es_sess s, pc) (s1, pc') \<Longrightarrow> echo_step V K e (s, pc) (s\<lparr>es_sess := s1\<rparr>, pc')"

definition runEchoServer :: "Session \<Rightarrow> echoServer" where
  "runEchoServer session =
    \<lparr>es_sess = session, es_jobs = [], es_bidi = True, es_uni = True, es_dgram = True, es_returned = False, es_log = []\<rparr>"

section \<open>The client\<close>

type_synonym Mode = string

definition ModeBidi :: Mode where "ModeBidi = ''bidi''"
definition ModeUni :: Mode where "ModeUni = ''uni''"
definition ModeDatagram :: Mode where "ModeDatagram = ''datagram''"

text \<open>\<^verbatim>\<open>readAllContext\<close>: a goroutine reads to the end of the stream, and the select takes its result or the
  end of the context, which closes the receive side.\<close>

definition readAllContext ::
  "(nat \<Rightarrow> nat) \<Rightarrow> nat \<Rightarrow> go_err option \<Rightarrow> Session \<Rightarrow> nat \<Rightarrow> ((go_err + bytes) \<times> Session) option" where
  "readAllContext sz k ctx s r =
     select_ready k
       ((case srb_ReadAll sz 0 (recvBuffer (recvs s ! r)) of
           None \<Rightarrow> []
         | Some (got, buf) \<Rightarrow> [(Inr got, upd_recv s r (\<lambda>x. x\<lparr>recvBuffer := buf\<rparr>))]) @
        (case ctx of None \<Rightarrow> [] | Some err \<Rightarrow> [(Inl err, ReceiveStream_Close s r)]))"

text \<open>The exchanges up to the flush; the reply is then read with \<open>readAllContext\<close>, or with
  \<open>ReceiveDatagram\<close> in datagram mode.\<close>

definition exchangeBidi_send ::
  "varint_ops \<Rightarrow> Session \<Rightarrow> bytes \<Rightarrow> go_err option \<Rightarrow> go_err option \<Rightarrow> ((go_err + Stream) \<times> Session) option" where
  "exchangeBidi_send V s payload w1 w2 =
     (case OpenStream s of
        (Inl err, s1) \<Rightarrow> Some (Inl err, s1)
      | (Inr st, s1) \<Rightarrow>
          (case write_payload V s1 (st_send st) payload w1 of
             None \<Rightarrow> None
           | Some (Some err, s2) \<Rightarrow> Some (Inl err, s2)
           | Some (None, s2) \<Rightarrow>
               map_option (\<lambda>(err, s3). (case err of None \<Rightarrow> Inr st | Some e \<Rightarrow> Inl e, s3))
                 (flush_ok (SendStream_Close V s2 (st_send st) w2))))"

definition exchangeBidi_reply ::
  "(nat \<Rightarrow> nat) \<Rightarrow> nat \<Rightarrow> go_err option \<Rightarrow> Session \<Rightarrow> Stream \<Rightarrow> ((go_err + bytes) \<times> Session) option" where
  "exchangeBidi_reply sz k ctx s st = readAllContext sz k ctx s (st_recv st)"

definition exchangeUni_send ::
  "varint_ops \<Rightarrow> Session \<Rightarrow> bytes \<Rightarrow> go_err option \<Rightarrow> go_err option \<Rightarrow> (go_err option \<times> Session) option" where
  "exchangeUni_send V s payload w1 w2 = send_uni V s payload w1 w2"

definition exchangeUni_accept :: "nat \<Rightarrow> go_err option \<Rightarrow> Session \<Rightarrow> ((go_err + nat) \<times> Session) option" where
  "exchangeUni_accept k ctx s = AcceptUnidirectionalStream k ctx s"

definition exchangeUni_reply ::
  "(nat \<Rightarrow> nat) \<Rightarrow> nat \<Rightarrow> go_err option \<Rightarrow> Session \<Rightarrow> nat \<Rightarrow> ((go_err + bytes) \<times> Session) option" where
  "exchangeUni_reply sz k ctx s r = readAllContext sz k ctx s r"

definition exchangeDatagram_send :: "Session \<Rightarrow> bytes \<Rightarrow> go_err option \<Rightarrow> go_err option \<times> Session" where
  "exchangeDatagram_send s payload w1 =
     (case SendDatagram s payload w1 of (Some err, s1) \<Rightarrow> (Some err, s1) | (None, s1) \<Rightarrow> (None, Session_Flush s1))"

definition exchangeDatagram_reply :: "go_err option \<Rightarrow> Session \<Rightarrow> ((go_err + bytes) \<times> Session) option" where
  "exchangeDatagram_reply ctx s = ReceiveDatagram ctx s"

text \<open>\<^verbatim>\<open>RunClient\<close>: an unknown mode is refused before anything is sent; the result of the exchange is
  checked against the payload.\<close>

definition RunClient_mode :: "Mode \<Rightarrow> go_err option" where
  "RunClient_mode mode =
     (if mode = ModeBidi \<or> mode = ModeUni \<or> mode = ModeDatagram then None
      else Some (ErrorsNew ''mode must be bidi, uni, or datagram''))"

definition RunClient_check :: "Mode \<Rightarrow> bytes \<Rightarrow> go_err + bytes \<Rightarrow> go_err option" where
  "RunClient_check mode payload r =
     (case r of
        Inl err \<Rightarrow> Some err
      | Inr got \<Rightarrow>
          if payload \<noteq> got then
            Some (ErrorsNew (''echo mismatch ('' @ mode @ ''): sent '' @ fmt_d (length payload) @ '' bytes '' @
              fmt_q (go_string payload) @ '', got '' @ fmt_d (length got) @ '' bytes '' @ fmt_q (go_string got)))
          else None)"

section \<open>Legal use of the session\<close>

fun job_ok :: "Session \<Rightarrow> echo_job \<Rightarrow> bool" where
  "job_ok s (EchoBidi st) \<longleftrightarrow> st_recv st < length (recvs s) \<and> st_send st < length (sends s)"
| "job_ok s (EchoUni r) \<longleftrightarrow> r < length (recvs s)"

definition echo_refs :: "echoServer \<Rightarrow> bool" where
  "echo_refs s \<longleftrightarrow> list_all (job_ok (es_sess s)) (es_jobs s)"

lemma job_ok_mono:
  "job_ok s j \<Longrightarrow> length (recvs s) \<le> length (recvs s') \<Longrightarrow> length (sends s) \<le> length (sends s') \<Longrightarrow> job_ok s' j"
  by (cases j) auto

lemma echo_refs_mono:
  assumes "list_all (job_ok s) js" and "length (recvs s) \<le> length (recvs s')" and "length (sends s) \<le> length (sends s')"
  shows "list_all (job_ok s') js"
  using assms(1) job_ok_mono [OF _ assms(2,3)] by (auto simp: list_all_iff)

lemma echo_refs_uses:
  "list_all (job_ok s) js \<Longrightarrow> uses V K e s s' \<Longrightarrow> session_ok s \<Longrightarrow> list_all (job_ok s') js"
  using echo_refs_mono uses_lengths by blast

lemma write_payload_uses:
  "write_payload V s w p w1 = Some (r, s') \<Longrightarrow> w < length (sends s) \<Longrightarrow> length p < 2 ^ 63 \<Longrightarrow> uses V K e s s'"
  by (auto simp: write_payload_def elim!: uses_write [simplified])

lemma flush_okD:
  "flush_ok r = Some (err, s') \<Longrightarrow> \<exists>s. r = Some (err, s) \<and> uses V K e s s'"
  by (auto simp: flush_ok_def uses_flush)

lemma send_uni_uses:
  assumes "send_uni V s p w1 w2 = Some (r, s')" and "session_ok s" and "length p < 2 ^ 63"
  shows "uses V K e s s'"
proof -
  obtain x s2 where o: "OpenUnidirectionalStream s = (x, s2)" by fastforce
  note u = uses_open(2) [OF o]
  show ?thesis
  proof (cases x)
    case (Inl err)
    with assms(1) o u show ?thesis by (simp add: send_uni_def)
  next
    case (Inr out)
    obtain r3 s3 where w: "write_payload V s2 out p w1 = Some (r3, s3)"
      "r3 \<noteq> None \<and> s' = s3 \<or> r3 = None \<and> flush_ok (SendStream_Close V s3 out w2) = Some (r, s')"
      using assms(1) o Inr by (auto simp: send_uni_def split: option.splits)
    have out: "out < length (sends s2)" using OpenUni_sends o Inr by simp
    have u3: "uses V K e s2 s3" using w(1) out assms(3) by (rule write_payload_uses)
    have ok2: "session_ok s2" using uses_keeps [OF u assms(2)] by simp
    have "uses V K e s3 s'"
      using w(2) uses_close_send [of V s3 out w2 r] uses_lengths [OF u3 ok2] out
      by (auto dest!: flush_okD [where V = V and K = K and e = e] intro: uses_trans)
    with u u3 show ?thesis using uses_trans by blast
  qed
qed

lemma ReadAll_data:
  assumes "srb_ReadAll sz k b = Some (d, b')"
  shows "d = srb_data b"
  using assms srb_ReadAll_closed [of b sz k] srb_ReadAll_open [of b sz k] by (cases "srb_closed b") simp_all

lemma in_memory_data: "in_memory s \<Longrightarrow> r < length (recvs s) \<Longrightarrow> length (srb_data (recvBuffer (recvs s ! r))) < 2 ^ 63"
  by (simp add: in_memory_def list_all_length)

lemma echoUni_uses:
  assumes "echoUni V sz s r w1 w2 = Some (x, s')" and "session_ok s" and "r < length (recvs s)" and "in_memory s"
  shows "uses V K e s s'"
proof -
  obtain p buf where d: "srb_ReadAll sz 0 (recvBuffer (recvs s ! r)) = Some (p, buf)"
    and su: "send_uni V (upd_recv s r (\<lambda>x. x\<lparr>recvBuffer := buf\<rparr>)) p w1 w2 = Some (x, s')"
    using assms(1) by (auto simp: echoUni_def split: option.splits)
  have u: "uses V K e s (upd_recv s r (\<lambda>x. x\<lparr>recvBuffer := buf\<rparr>))" using d assms(3) by (rule uses_ReadAll)
  have "length p < 2 ^ 63" using ReadAll_data [OF d] in_memory_data [OF assms(4,3)] by simp
  with su have "uses V K e (upd_recv s r (\<lambda>x. x\<lparr>recvBuffer := buf\<rparr>)) s'"
    using uses_keeps [OF u assms(2)] by (intro send_uni_uses) simp_all
  with u show ?thesis by (rule uses_trans)
qed

lemma echoBidi_uses:
  assumes "echoBidi V sz s st w1 w2 = Some (x, s')" and "session_ok s" and "job_ok s (EchoBidi st)" and "in_memory s"
  shows "uses V K e s s'"
proof -
  let ?r = "st_recv st" and ?w = "st_send st"
  obtain p buf where d: "srb_ReadAll sz 0 (recvBuffer (recvs s ! ?r)) = Some (p, buf)"
    using assms(1) by (auto simp: echoBidi_def split: option.splits)
  let ?s1 = "upd_recv s ?r (\<lambda>x. x\<lparr>recvBuffer := buf\<rparr>)"
  have rw: "?r < length (recvs s)" "?w < length (sends s)" using assms(3) by simp_all
  have u: "uses V K e s ?s1" using d rw(1) by (rule uses_ReadAll)
  have len1: "?r < length (recvs ?s1)" "?w < length (sends ?s1)" using rw by (simp_all add: upd_recv_def)
  have ok1: "session_ok ?s1" using uses_keeps [OF u assms(2)] by simp
  obtain r3 s3 where w: "write_payload V ?s1 ?w p w1 = Some (r3, s3)"
    "r3 \<noteq> None \<and> s' = s3 \<or> r3 = None \<and> flush_ok (Stream_Close V s3 st w2) = Some (x, s')"
    using assms(1) d by (auto simp: echoBidi_def split: option.splits)
  have "length p < 2 ^ 63" using ReadAll_data [OF d] in_memory_data [OF assms(4) rw(1)] by simp
  with w(1) len1(2) have u3: "uses V K e ?s1 s3" by (rule write_payload_uses)
  have "uses V K e s3 s'"
    using w(2) uses_close_stream [of V s3 st w2 x] uses_lengths [OF u3 ok1] len1
    by (auto dest!: flush_okD [where V = V and K = K and e = e] intro: uses_trans)
  with u u3 show ?thesis using uses_trans by blast
qed

lemma log_line_same [simp]: "es_sess (log_line s l) = es_sess s" "es_jobs (log_line s l) = es_jobs s"
  by (simp_all add: log_line_def split: option.split)

text \<open>A step uses the session, and adds at most one job that points into it.\<close>

lemma loops_use:
  assumes "session_ok (es_sess s)"
  shows "echoBidiLoop_iter k ctx s = Some (go, s') \<Longrightarrow> uses V K e (es_sess s) (es_sess s') \<and>
      (\<exists>js. es_jobs s' = es_jobs s @ js \<and> list_all (job_ok (es_sess s')) js)"
    and "echoUniLoop_iter k ctx s = Some (go, s') \<Longrightarrow> uses V K e (es_sess s) (es_sess s') \<and>
      (\<exists>js. es_jobs s' = es_jobs s @ js \<and> list_all (job_ok (es_sess s')) js)"
    and "echoDatagramLoop_iter ctx w1 s = Some (go, s') \<Longrightarrow> uses V K e (es_sess s) (es_sess s') \<and> es_jobs s' = es_jobs s"
proof -
  have q: "\<forall>st\<in>set (incomingStreams (es_sess s)). job_ok (es_sess s) (EchoBidi st)"
    "\<forall>r\<in>set (incomingUnidirectionalStreams (es_sess s)). job_ok (es_sess s) (EchoUni r)"
    using assms by (auto simp: session_ok_def queues_ok_def incoming_stream_ok_def stream_ok_def recv_ok_def points_def)
  have a: "job_ok s1 (EchoBidi st)" if "AcceptStream k ctx (es_sess s) = Some (Inr st, s1)" for st s1
    using q(1) Accept_queued(1) [OF that] job_ok_mono uses_lengths [OF uses_accept(1) [OF that] assms] by blast
  have r: "job_ok s1 (EchoUni x)" if "AcceptUnidirectionalStream k ctx (es_sess s) = Some (Inr x, s1)" for x s1
    using q(2) Accept_queued(2) [OF that] job_ok_mono uses_lengths [OF uses_accept(2) [OF that] assms] by blast
  show "echoBidiLoop_iter k ctx s = Some (go, s') \<Longrightarrow> uses V K e (es_sess s) (es_sess s') \<and>
      (\<exists>js. es_jobs s' = es_jobs s @ js \<and> list_all (job_ok (es_sess s')) js)"
    using a uses_accept(1) by (auto simp: echoBidiLoop_iter_def split: option.splits sum.splits)
  show "echoUniLoop_iter k ctx s = Some (go, s') \<Longrightarrow> uses V K e (es_sess s) (es_sess s') \<and>
      (\<exists>js. es_jobs s' = es_jobs s @ js \<and> list_all (job_ok (es_sess s')) js)"
    using r uses_accept(2) by (auto simp: echoUniLoop_iter_def split: option.splits sum.splits)
  show "echoDatagramLoop_iter ctx w1 s = Some (go, s') \<Longrightarrow> uses V K e (es_sess s) (es_sess s') \<and> es_jobs s' = es_jobs s"
    by (auto simp: echoDatagramLoop_iter_def split: option.splits sum.splits prod.splits
        intro: uses_trans uses_trans [OF uses_trans uses_flush] dest!: uses_datagrams(1) [where V = V and K = K and e = e] uses_ReceiveDatagram [where V = V and K = K and e = e])
qed

lemma echo_step_legal:
  assumes "echo_step V K e (s, pc) (s', pc')"
    and "session_ok (es_sess s)" and "pc_ok (es_sess s) pc" and "echo_refs s"
  shows "session_reach V K e (es_sess s, pc) (es_sess s', pc') \<and> echo_refs s'"
proof -
  have grow: "echo_refs t" if "uses V K e (es_sess s) (es_sess t)" "es_jobs t = js @ ks"
    "list_all (job_ok (es_sess s)) js" "list_all (job_ok (es_sess t)) ks" for t js ks
    using that echo_refs_uses [OF that(3,1) assms(2)] by (simp add: echo_refs_def)
  from assms(1) show ?thesis
  proof (cases rule: echo_step.cases)
    case (bidi_loop k ctx go s1)
    then obtain js where u: "uses V K e (es_sess s) (es_sess s')" "es_jobs s' = es_jobs s @ js" "list_all (job_ok (es_sess s')) js"
      using loops_use(1) [OF assms(2), of k ctx go s1 V K e] by auto
    with grow [OF u(1,2) _ u(3)] assms(4) bidi_loop show ?thesis by (simp add: uses_def echo_refs_def)
  next
    case (uni_loop k ctx go s1)
    then obtain js where u: "uses V K e (es_sess s) (es_sess s')" "es_jobs s' = es_jobs s @ js" "list_all (job_ok (es_sess s')) js"
      using loops_use(2) [OF assms(2), of k ctx go s1 V K e] by auto
    with grow [OF u(1,2) _ u(3)] assms(4) uni_loop show ?thesis by (simp add: uses_def echo_refs_def)
  next
    case (datagram_loop ctx w1 go s1)
    then have u: "uses V K e (es_sess s) (es_sess s')" "es_jobs s' = es_jobs s @ []"
      using loops_use(3) [OF assms(2), of ctx w1 go s1 V K e] by simp_all
    with grow [OF u] assms(4) datagram_loop show ?thesis by (simp add: uses_def echo_refs_def)
  next
    case (return ctx)
    then have u: "uses V K e (es_sess s) (es_sess s')" "es_jobs s' = es_jobs s @ []"
      by (auto simp: runEchoServer_return_def uses_Close split: if_splits)
    with grow [OF u] assms(4) return show ?thesis by (simp add: uses_def echo_refs_def)
  next
    case (job i sz w1 w2)
    let ?s0 = "s\<lparr>es_jobs := take i (es_jobs s) @ drop (Suc i) (es_jobs s)\<rparr>"
    have j: "job_ok (es_sess s) (es_jobs s ! i)" using assms(4) job by (simp add: echo_refs_def list_all_length)
    have rest: "list_all (job_ok (es_sess s)) (take i (es_jobs s) @ drop (Suc i) (es_jobs s))"
      using assms(4) by (auto simp: echo_refs_def list_all_iff dest: in_set_takeD in_set_dropD)
    have u: "uses V K e (es_sess s) (es_sess s')" "es_jobs s' = (take i (es_jobs s) @ drop (Suc i) (es_jobs s)) @ []"
      using job(4) job(3) j assms(2)
      by (cases "es_jobs s ! i"; auto elim!: echoBidi_uses echoUni_uses)+
    with grow [OF u rest] job show ?thesis by (simp add: uses_def)
  next
    case (session s1)
    then have st: "session_step V K e (es_sess s, pc) (s1, pc')" by simp
    have "grows (es_sess s) s1" using step_evolves [OF st] by (simp add: evolves_def)
    note l = grows_lengths [OF this]
    have "list_all (job_ok s1) (es_jobs s)"
      using echo_refs_mono [OF assms(4) [unfolded echo_refs_def] l [THEN conjunct1] l [THEN conjunct2]] .
    moreover have "session_reach V K e (es_sess s, pc) (s1, pc')"
      using session_reach.start st by (rule session_reach.step)
    ultimately show ?thesis using session(1) by (simp add: echo_refs_def)
  qed
qed

interpretation echo: session_client V K e "echo_step V K e" es_sess echo_refs for V K e
  by unfold_locales (use echo_step_legal in \<open>blast+\<close>)

end
