(* ===== verification/Echo_Trip.thy ===== *)
theory Echo_Trip
  imports Echo
begin

text \<open>
  The echo endpoint and its client connected: what the client's capsules do at the server and what
  the server's capsules do at the client, for one bidirectional stream; and what a goroutine of the
  server does that is still at work when its handler has returned.
\<close>

section \<open>The round trip of a bidirectional stream\<close>

text \<open>\<open>reserveSendData\<close> on limits nothing was sent under.\<close>

lemma reserve_unsent:
  assumes "dataSent l = 0" and "streamSent l = Map.empty" and "n \<le> 65536"
    and "n \<le> unat (maxData l)" and "n \<le> unat (go_index (streamMax l) sid)"
  shows "fst (reserveSendData l sid n) = None"
proof -
  have "unat (of_nat n :: u64) = n" using assms(3) by (simp add: unat_of_nat_u64)
  with assms show ?thesis
    by (simp add: reserveSendData_def Let_def go_index_def word_less_nat_alt not_less split: option.splits)
qed

text \<open>\<open>echoBidi\<close> sends back what it read, and closes the stream.\<close>

lemma echoBidi_replies:
  assumes "srb_closed (recvBuffer (recvs s ! st_recv st))" and "p = srb_data (recvBuffer (recvs s ! st_recv st))"
    and "\<not> ss_closed (sends s ! st_send st)" and "st_send st < length (sends s)" and "st_recv st < length (recvs s)"
    and "fst (reserveSendData (limits s) (ss_ID (sends s ! st_send st)) (length p)) = None"
    and "vappend V (ss_ID (sends s ! st_send st)) = Some h"
  shows "\<exists>s'. echoBidi V sz s st None None = Some (None, s') \<and>
    written s' = written s @ [(CapsuleWTStream, h @ p), (CapsuleWTStreamFin, h)] \<and> flushed s' = length (written s')"
proof -
  obtain l where l: "reserveSendData (limits s) (ss_ID (sends s ! st_send st)) (length p) = (None, l)"
    using assms(6) by (metis prod.collapse)
  have "srb_ReadAll sz 0 (recvBuffer (recvs s ! st_recv st)) =
      Some (p, (recvBuffer (recvs s ! st_recv st))\<lparr>srb_data := []\<rparr>)"
    using srb_ReadAll_closed [OF assms(1)] assms(2) by simp
  with assms l show ?thesis
    by (simp add: echoBidi_def write_payload_def SendStream_Write_def Stream_Close_def SendStream_Close_def
        ReceiveStream_Close_def upd_recv_def upd_send_def writeCapsule_def flush_ok_def Let_def)
qed

text \<open>The client's half of the exchange on a fresh session.\<close>

lemma client_sends:
  assumes "vappend V 0 = Some h" and "length p \<le> 65536" and "0 < peer_maxStreamsBidi pl"
    and "length p \<le> unat (peer_maxData pl)" and "length p \<le> unat (peer_streamDataBidiRemote pl)"
  shows "\<exists>c. exchangeBidi_send V (newSessionConfigured pr False (Some pl)) p None None =
      Some (Inr \<lparr>st_ID = 0, st_recv = 0, st_send = 0\<rparr>, c) \<and>
    written c = [(CapsuleWTStream, h @ p), (CapsuleWTStreamFin, h)] \<and> flushed c = length (written c) \<and> \<not> stop c \<and>
    streams c = [0 \<mapsto> \<lparr>st_ID = 0, st_recv = 0, st_send = 0\<rparr>] \<and>
    recvs c = [\<lparr>rs_ID = 0, rs_closed = False, recvBuffer = newStreamReceiveBuffer 65536\<rparr>]"
proof -
  let ?l = "(adoptPeerSendLimits zero_sendLimits pl)\<lparr>openedBidi := 1, streamMax := [0 \<mapsto> peer_streamDataBidiRemote pl]\<rparr>"
  have "fst (reserveSendData ?l 0 (length p)) = None"
    using assms by (intro reserve_unsent) (simp_all add: adoptPeerSendLimits_def zero_sendLimits_def go_index_def)
  then obtain l where "reserveSendData ?l 0 (length p) = (None, l)" by (metis prod.collapse)
  moreover have "allocLocalStream False 0 (adoptPeerSendLimits zero_sendLimits pl) True = (Inr 0, 4, ?l)"
    using assms(3) by (simp add: allocLocalStream_def nextStreamID_def ensureStreamSendLimitLocked_def adoptPeerSendLimits_def
        zero_sendLimits_def initialStreamSendLimitLocked_def isBidirectionalStream_def isOurStream_def Let_def word_gt_0
        not_le)
  ultimately show ?thesis
    using assms(1)
    by (simp add: exchangeBidi_send_def OpenStream_def newSessionConfigured_def newStream_def newReceiveStream_def
        newSendStream_def write_payload_def SendStream_Write_def SendStream_Close_def upd_send_def writeCapsule_def
        flush_ok_def Let_def defaultReceiveBufferSize_def)
qed

text \<open>The two capsules of an exchange, read by a session.\<close>

context wire
begin

lemma two_capsules:
  assumes "vappend V sid = Some h" and "length p \<le> 65536"
    and "write_all [(CapsuleWTStream, h @ p), (CapsuleWTStreamFin, h)] = Some b"
    and "\<not> stop s" and "\<And>k rest. readLoop_stream k s sid p False rest = Next s1 rest"
    and "\<not> stop s1" and "\<And>k rest. readLoop_stream k s1 sid [] True rest = Next s2 rest"
  shows "session_reach V K e (s, Running b) (s2, Running [])"
proof -
  obtain b1 b2 where b: "cap_write K CapsuleWTStream (h @ p) = Some b1" "cap_write K CapsuleWTStreamFin h = Some b2"
    "b = b1 @ b2 @ []"
    using assms(3) by (auto split: option.splits)
  have len: "length (h @ p) < 2 ^ 62" "length h < 2 ^ 62" using append_nonempty [OF assms(1)] assms(2) by simp_all
  have i1: "readLoop_iter V K 0 s b e = Next s1 (b2 @ [])"
    unfolding b(3) using iter_capsule [OF assms(4) b(1) len(1)] data_capsule_dispatch(1) [OF assms(1)] assms(5) by metis
  have i2: "readLoop_iter V K 0 s1 (b2 @ []) e = Next s2 []"
    using iter_capsule [OF assms(6) b(2) len(2)] data_capsule_dispatch(2) [OF assms(1), of _ _ "[]"] assms(7)
    by (metis append_Nil2)
  have "session_step V K e (s, Running b) (s1, Running (b2 @ []))"
    "session_step V K e (s1, Running (b2 @ [])) (s2, Running [])"
    using session_step.loop [of V K e s b 0] session_step.loop [of V K e s1 "b2 @ []" 0]
    by (simp_all add: i1 i2 [simplified] after_iter_def)
  then show ?thesis by (blast intro: session_reach.intros)
qed

lemma two_written:
  assumes "vappend V sid = Some h" and "length p \<le> 65536"
  shows "\<exists>b. write_all [(CapsuleWTStream, h @ p), (CapsuleWTStreamFin, h)] = Some b"
  using append_nonempty [OF assms(1)] assms(2) by (intro write_all_ok) (auto simp: CapsuleWTStream_def CapsuleWTStreamFin_def)

end

text \<open>Data and FIN on a new stream of a fresh server, and on the client's stream.\<close>

lemma server_receives:
  assumes "length p \<le> 65536"
  shows "\<exists>s1 s2. (\<forall>k rest. readLoop_stream k (newSessionConfigured pr True (Some pl)) 0 p False rest = Next s1 rest) \<and>
    \<not> stop s1 \<and> (\<forall>k rest. readLoop_stream k s1 0 [] True rest = Next s2 rest) \<and>
    (\<not> stop s2 \<and> \<not> closeOnce s2 \<and> \<not> closeDatagramDeliveryOnce s2 \<and> incomingUnidirectionalStreams s2 = [] \<and>
     datagramBuffer s2 = newDatagramReceiveBuffer 65536) \<and>
    written s2 = [] \<and> done_ch s2 = False \<and> incomingStreams s2 = [\<lparr>st_ID = 0, st_recv = 0, st_send = 0\<rparr>] \<and>
    limits s2 = (adoptPeerSendLimits zero_sendLimits pl)\<lparr>streamMax := [0 \<mapsto> peer_streamDataBidiLocal pl]\<rparr> \<and>
    sends s2 = [\<lparr>ss_ID = 0, ss_closed = False\<rparr>] \<and>
    recvs s2 = [\<lparr>rs_ID = 0, rs_closed = False,
      recvBuffer = (newStreamReceiveBuffer 65536)\<lparr>srb_data := p, srb_closed := True\<rparr>\<rparr>]"
  using assms
  by (simp add: readLoop_stream_def newSessionConfigured_def isBidirectionalStream_def isOurStream_def newStream_def
      newReceiveStream_def newSendStream_def accept_bidi_def enqueueIncomingStream_def select_ready_def
      incoming_capacity_def deliver_bidi_def receiveStreamData_def streamReceiveBuffer_write_def finishReceive_def
      newStreamReceiveBuffer_def streamReceiveBuffer_close_def upd_recv_def trackSendStream_def defaultReceiveBufferSize_def
      ensureStreamSendLimitLocked_def adoptPeerSendLimits_def zero_sendLimits_def initialStreamSendLimitLocked_def Let_def)

lemma client_receives:
  assumes "length p \<le> 65536" and "streams c = [0 \<mapsto> \<lparr>st_ID = 0, st_recv = 0, st_send = 0\<rparr>]"
    and "recvs c = [\<lparr>rs_ID = 0, rs_closed = False, recvBuffer = newStreamReceiveBuffer 65536\<rparr>]" and "\<not> stop c"
  shows "\<exists>c1 c2. (\<forall>k rest. readLoop_stream k c 0 p False rest = Next c1 rest) \<and> \<not> stop c1 \<and>
    (\<forall>k rest. readLoop_stream k c1 0 [] True rest = Next c2 rest) \<and>
    recvs c2 = [\<lparr>rs_ID = 0, rs_closed = False,
      recvBuffer = (newStreamReceiveBuffer 65536)\<lparr>srb_data := p, srb_closed := True\<rparr>\<rparr>]"
  using assms
  by (simp add: readLoop_stream_def isBidirectionalStream_def deliver_bidi_def receiveStreamData_def
      streamReceiveBuffer_write_def finishReceive_def newStreamReceiveBuffer_def streamReceiveBuffer_close_def upd_recv_def)

lemma echo_session_steps:
  "session_reach V K e c d \<Longrightarrow> c = (es_sess s, pc) \<Longrightarrow> rtranclp (echo_step V K e) (s, pc) (s\<lparr>es_sess := fst d\<rparr>, snd d)"
proof (induction rule: session_reach.induct)
  case (step d d')
  have "echo_step V K e (s\<lparr>es_sess := fst d\<rparr>, snd d) (s\<lparr>es_sess := fst d'\<rparr>, snd d')"
    using echo_step.session [of V K e "s\<lparr>es_sess := fst d\<rparr>" "snd d" "fst d'" "snd d'"] step.hyps(2) by simp
  with step show ?case by auto
qed simp

text \<open>The stream 0 as the server's goroutine finds it: all of the payload, and nothing sent yet.\<close>

definition echo_ready :: "peerInitialLimits \<Rightarrow> bytes \<Rightarrow> Session \<Rightarrow> bool" where
  "echo_ready pl p s \<longleftrightarrow> written s = [] \<and> sends s = [\<lparr>ss_ID = 0, ss_closed = False\<rparr>] \<and>
     limits s = (adoptPeerSendLimits zero_sendLimits pl)\<lparr>streamMax := [0 \<mapsto> peer_streamDataBidiLocal pl]\<rparr> \<and>
     recvs s = [\<lparr>rs_ID = 0, rs_closed = False,
       recvBuffer = (newStreamReceiveBuffer 65536)\<lparr>srb_data := p, srb_closed := True\<rparr>\<rparr>]"

lemma ready_replies:
  assumes "echo_ready pl p s" and "vappend V 0 = Some h" and "length p \<le> 65536"
    and "length p \<le> unat (peer_maxData pl)" and "length p \<le> unat (peer_streamDataBidiLocal pl)"
  shows "\<exists>s'. echoBidi V sz s \<lparr>st_ID = 0, st_recv = 0, st_send = 0\<rparr> None None = Some (None, s') \<and>
    written s' = [(CapsuleWTStream, h @ p), (CapsuleWTStreamFin, h)] \<and> flushed s' = length (written s') \<and> in_memory s"
proof -
  note r = assms(1) [unfolded echo_ready_def]
  have "fst (reserveSendData (limits s) 0 (length p)) = None"
    using assms(3-5) r by (intro reserve_unsent) (simp_all add: adoptPeerSendLimits_def zero_sendLimits_def go_index_def)
  then have "\<exists>s'. echoBidi V sz s \<lparr>st_ID = 0, st_recv = 0, st_send = 0\<rparr> None None = Some (None, s') \<and>
      written s' = written s @ [(CapsuleWTStream, h @ p), (CapsuleWTStreamFin, h)] \<and> flushed s' = length (written s')"
    by (intro echoBidi_replies) (simp_all add: r assms(2))
  with r assms(3) show ?thesis by (simp add: in_memory_def)
qed

lemma server_accepts:
  assumes "wire V K" and "vappend V 0 = Some h" and "length p \<le> 65536"
    and "capsule_codec.write_all K [(CapsuleWTStream, h @ p), (CapsuleWTStreamFin, h)] = Some b"
  shows "\<exists>s. rtranclp (echo_step V K e) (runEchoServer (newSessionConfigured pr True (Some ps)), Running b)
      ((runEchoServer s)\<lparr>es_jobs := [EchoBidi \<lparr>st_ID = 0, st_recv = 0, st_send = 0\<rparr>]\<rparr>, Running []) \<and>
    echo_ready ps p s \<and> \<not> stop s \<and> \<not> closeOnce s \<and> \<not> closeDatagramDeliveryOnce s \<and> incomingStreams s = [] \<and>
    incomingUnidirectionalStreams s = [] \<and> datagramBuffer s = newDatagramReceiveBuffer 65536"
proof -
  let ?st = "\<lparr>st_ID = 0, st_recv = 0, st_send = 0\<rparr> :: Stream"
  let ?n = "newSessionConfigured pr True (Some ps)"
  obtain s1 s2 where s: "\<And>k rest. readLoop_stream k ?n 0 p False rest = Next s1 rest" "\<not> stop s1"
    "\<And>k rest. readLoop_stream k s1 0 [] True rest = Next s2 rest"
    "done_ch s2 = False" "incomingStreams s2 = [?st]" "echo_ready ps p s2"
    "\<not> stop s2 \<and> \<not> closeOnce s2 \<and> \<not> closeDatagramDeliveryOnce s2 \<and> incomingUnidirectionalStreams s2 = [] \<and>
     datagramBuffer s2 = newDatagramReceiveBuffer 65536"
    using server_receives [OF assms(3), of pr ps] unfolding echo_ready_def by blast
  let ?s3 = "s2\<lparr>incomingStreams := []\<rparr>"
  have "session_reach V K e (?n, Running b) (s2, Running [])"
    by (rule wire.two_capsules [OF assms(1-4) _ s(1-3)]) (simp add: newSessionConfigured_def)
  from echo_session_steps [OF this, of "runEchoServer ?n" "Running b"]
  have r1: "rtranclp (echo_step V K e) (runEchoServer ?n, Running b) (runEchoServer s2, Running [])"
    by (simp add: runEchoServer_def)
  have "echoBidiLoop_iter 0 None (runEchoServer s2) = Some (True, (runEchoServer ?s3)\<lparr>es_jobs := [EchoBidi ?st]\<rparr>)"
    using s(4,5) by (simp add: echoBidiLoop_iter_def AcceptStream_def select_ready_def runEchoServer_def)
  then have "echo_step V K e (runEchoServer s2, Running []) ((runEchoServer ?s3)\<lparr>es_jobs := [EchoBidi ?st]\<rparr>, Running [])"
    using echo_step.bidi_loop [of "runEchoServer s2" 0 None True _ V K e "Running []"] by (simp add: runEchoServer_def)
  from rtranclp.rtrancl_into_rtrancl [OF r1 this]
  show ?thesis using s(6,7) by (intro exI [of _ ?s3]) (simp add: echo_ready_def)
qed

lemma server_echoes:
  assumes "wire V K" and "vappend V 0 = Some h"
    and "capsule_codec.write_all K [(CapsuleWTStream, h @ p), (CapsuleWTStreamFin, h)] = Some b"
    and "length p \<le> 65536" and "length p \<le> unat (peer_maxData ps)" and "length p \<le> unat (peer_streamDataBidiLocal ps)"
  shows "\<exists>s. rtranclp (echo_step V K e) (runEchoServer (newSessionConfigured pr True (Some ps)), Running b)
      (runEchoServer s, Running []) \<and> written s = [(CapsuleWTStream, h @ p), (CapsuleWTStreamFin, h)] \<and>
    flushed s = length (written s)"
proof -
  let ?st = "\<lparr>st_ID = 0, st_recv = 0, st_send = 0\<rparr> :: Stream"
  obtain s3 where r: "rtranclp (echo_step V K e) (runEchoServer (newSessionConfigured pr True (Some ps)), Running b)
      ((runEchoServer s3)\<lparr>es_jobs := [EchoBidi ?st]\<rparr>, Running [])" and ready: "echo_ready ps p s3"
    using server_accepts [OF assms(1,2,4,3), of e pr ps] by blast
  obtain s4 where s4: "echoBidi V (\<lambda>_. 0) s3 ?st None None = Some (None, s4)" "in_memory s3"
    "written s4 = [(CapsuleWTStream, h @ p), (CapsuleWTStreamFin, h)] \<and> flushed s4 = length (written s4)"
    using ready_replies [OF ready assms(2,4-6)] by blast
  have "echo_step V K e ((runEchoServer s3)\<lparr>es_jobs := [EchoBidi ?st]\<rparr>, Running []) (runEchoServer s4, Running [])"
    by (rule echo_step.job [where i = 0 and sz = "\<lambda>_. 0" and ?w1.0 = None and ?w2.0 = None])
      (use s4 in \<open>simp_all add: runEchoServer_def log_line_def\<close>)
  from rtranclp.rtrancl_into_rtrancl [OF r this] s4(3) show ?thesis by blast
qed

lemma bidi_trip:
  assumes "wire V K" and "length p \<le> 65536" and "0 < peer_maxStreamsBidi pc"
    and "length p \<le> unat (peer_maxData pc)" and "length p \<le> unat (peer_streamDataBidiRemote pc)"
    and "length p \<le> unat (peer_maxData ps)" and "length p \<le> unat (peer_streamDataBidiLocal ps)"
  shows "\<exists>st c b srv b' c' c''.
    exchangeBidi_send V (newSessionConfigured pr False (Some pc)) p None None = Some (Inr st, c) \<and>
    capsule_codec.write_all K (take (flushed c) (written c)) = Some b \<and>
    rtranclp (echo_step V K e) (runEchoServer (newSessionConfigured pr True (Some ps)), Running b) (srv, Running []) \<and>
    es_log srv = [] \<and> es_jobs srv = [] \<and> capsule_codec.write_all K (take (flushed (es_sess srv)) (written (es_sess srv))) = Some b' \<and>
    session_reach V K e (c, Running b') (c', Running []) \<and>
    exchangeBidi_reply sz k None c' st = Some (Inr p, c'') \<and> RunClient_check ModeBidi p (Inr p) = None"
proof -
  obtain h where h: "vappend V 0 = Some h"
    using varint_codec.append_small [of V 0] assms(1) by (auto simp: wire_def)
  let ?st = "\<lparr>st_ID = 0, st_recv = 0, st_send = 0\<rparr> :: Stream"
  let ?out = "[(CapsuleWTStream, h @ p), (CapsuleWTStreamFin, h)]"
  obtain c where c: "exchangeBidi_send V (newSessionConfigured pr False (Some pc)) p None None = Some (Inr ?st, c)"
    "written c = ?out \<and> flushed c = length (written c)" "\<not> stop c" "streams c = [0 \<mapsto> ?st]"
    "recvs c = [\<lparr>rs_ID = 0, rs_closed = False, recvBuffer = newStreamReceiveBuffer 65536\<rparr>]"
    using client_sends [OF h assms(2-5), of pr] by blast
  obtain b where b: "capsule_codec.write_all K ?out = Some b"
    using wire.two_written [OF assms(1) h assms(2)] by blast
  obtain s4 where run: "rtranclp (echo_step V K e) (runEchoServer (newSessionConfigured pr True (Some ps)), Running b)
      (runEchoServer s4, Running [])" and s4: "written s4 = ?out \<and> flushed s4 = length (written s4)"
    using server_echoes [OF assms(1) h b assms(2,6,7), of e pr] by blast
  obtain c1 c2 where cc: "\<And>k rest. readLoop_stream k c 0 p False rest = Next c1 rest" "\<not> stop c1"
    "\<And>k rest. readLoop_stream k c1 0 [] True rest = Next c2 rest"
    "recvs c2 = [\<lparr>rs_ID = 0, rs_closed = False,
      recvBuffer = (newStreamReceiveBuffer 65536)\<lparr>srb_data := p, srb_closed := True\<rparr>\<rparr>]"
    using client_receives [OF assms(2) c(4,5,3)] by blast
  have "session_reach V K e (c, Running b) (c2, Running [])"
    by (rule wire.two_capsules [OF assms(1) h assms(2) b c(3) cc(1-3)])
  moreover obtain c3 where "exchangeBidi_reply sz k None c2 ?st = Some (Inr p, c3)"
    using srb_ReadAll_closed [of "recvBuffer (recvs c2 ! 0)" sz 0] cc(4)
    by (simp add: exchangeBidi_reply_def readAllContext_def select_ready_def)
  moreover have "RunClient_check ModeBidi p (Inr p) = None" by (simp add: RunClient_check_def)
  ultimately show ?thesis
    using c(1,2) b run s4
    by (intro exI [of _ ?st] exI [of _ c] exI [of _ b] exI [of _ "runEchoServer s4"] exI [of _ b]
        exI [of _ c2] exI [of _ c3]) (simp_all add: runEchoServer_def)
qed

text \<open>Limits for examples.\<close>

definition echo_demo_peer :: peerInitialLimits where
  "echo_demo_peer = \<lparr>peer_maxData = 100, peer_maxStreamsUni = 1, peer_maxStreamsBidi = 1, peer_streamDataUni = 10,
     peer_streamDataBidiLocal = 10, peer_streamDataBidiRemote = 10\<rparr>"

section \<open>A goroutine that outlives its handler\<close>

text \<open>When the session is closed and nothing is queued, the three loops end and the handler returns.\<close>

lemma handler_returns:
  assumes "done_ch s" and "closeOnce s" and "incomingStreams s = []" and "incomingUnidirectionalStreams s = []"
    and "dgram_closed (datagramBuffer s)" and "dgram_queue (datagramBuffer s) = []"
  shows "rtranclp (echo_step V K e) ((runEchoServer s)\<lparr>es_jobs := js\<rparr>, pc)
      (\<lparr>es_sess = s, es_jobs = js, es_bidi = False, es_uni = False, es_dgram = False, es_returned = True, es_log = []\<rparr>, pc)"
proof -
  let ?a = "(runEchoServer s)\<lparr>es_jobs := js\<rparr>"
  let ?b = "?a\<lparr>es_bidi := False\<rparr>" let ?c = "?b\<lparr>es_uni := False\<rparr>" let ?d = "?c\<lparr>es_dgram := False\<rparr>"
  have q: "logEchoStop w (Some ErrSessionClosed) = None" "logEchoStop w (Some EOF) = None" for w
    by (simp_all add: logEchoStop_def)
  have "echoBidiLoop_iter 0 None ?a = Some (False, ?a)"
    using assms(1,3) q by (simp add: echoBidiLoop_iter_def AcceptStream_def select_ready_def runEchoServer_def log_line_def)
  then have 1: "echo_step V K e (?a, pc) (?b, pc)"
    by (rule echo_step.bidi_loop [rotated]) (simp add: runEchoServer_def)
  have "echoUniLoop_iter 0 None ?b = Some (False, ?b)"
    using assms(1,4) q
    by (simp add: echoUniLoop_iter_def AcceptUnidirectionalStream_def select_ready_def runEchoServer_def log_line_def)
  then have 2: "echo_step V K e (?b, pc) (?c, pc)"
    by (rule echo_step.uni_loop [rotated]) (simp add: runEchoServer_def)
  have "ReceiveDatagram None s = Some (Inl EOF, s)"
    using assms(5,6) by (simp add: ReceiveDatagram_def ReceiveDatagram_poll_def datagramReceiveBuffer_poll_def)
  then have "echoDatagramLoop_iter None None ?c = Some (False, ?c)"
    using q by (simp add: echoDatagramLoop_iter_def runEchoServer_def log_line_def)
  then have 3: "echo_step V K e (?c, pc) (?d, pc)"
    by (rule echo_step.datagram_loop [rotated]) (simp add: runEchoServer_def)
  have "runEchoServer_return None ?d = Some (?d\<lparr>es_returned := True\<rparr>)"
    using assms(1,2) by (simp add: runEchoServer_return_def runEchoServer_def Session_Close_def)
  then have 4: "echo_step V K e (?d, pc) (?d\<lparr>es_returned := True\<rparr>, pc)" by (rule echo_step.return)
  have "rtranclp (echo_step V K e) (?a, pc) (?d\<lparr>es_returned := True\<rparr>, pc)"
    by (rule rtranclp.rtrancl_into_rtrancl [OF rtranclp.rtrancl_into_rtrancl [OF rtranclp.rtrancl_into_rtrancl
        [OF r_into_rtranclp [of "echo_step V K e", OF 1] 2] 3] 4])
  then show ?thesis by (simp add: runEchoServer_def)
qed

text \<open>The end of the input closes the session, and the handler returns while the goroutine is still there.\<close>

lemma input_ends:
  assumes "capsule_codec K" and s3: "echo_ready ps p s3" "\<not> stop s3" "\<not> closeOnce s3" "\<not> closeDatagramDeliveryOnce s3"
      "incomingStreams s3 = []" "incomingUnidirectionalStreams s3 = []" "datagramBuffer s3 = newDatagramReceiveBuffer 65536"
  shows "\<exists>s4. rtranclp (echo_step V K e) ((runEchoServer s3)\<lparr>es_jobs := js\<rparr>, Running [])
      (\<lparr>es_sess = s4, es_jobs = js, es_bidi = False, es_uni = False, es_dgram = False, es_returned = True, es_log = []\<rparr>, Stopped) \<and>
    done_ch s4 \<and> stop s4 \<and> echo_ready ps p s4"
proof -
  let ?s4 = "Session_Close (setCloseReason s3 (if isCleanConnectTeardown e then ''connect_fin'' else ''error''))"
  have "readLoop_iter V K 0 s3 [] e = Exit (setCloseReason s3 (if isCleanConnectTeardown e then ''connect_fin'' else ''error''))"
    using s3(2) capsule_codec.parse_end [OF assms(1)] by (simp add: readLoop_iter_def)
  then have "session_step V K e (s3, Running []) (?s4, Stopped)"
    using session_step.loop [of V K e s3 "[]" 0] by (simp add: after_iter_def)
  then have step: "echo_step V K e ((runEchoServer s3)\<lparr>es_jobs := js\<rparr>, Running []) ((runEchoServer ?s4)\<lparr>es_jobs := js\<rparr>, Stopped)"
    using echo_step.session [of V K e "(runEchoServer s3)\<lparr>es_jobs := js\<rparr>"] by (simp add: runEchoServer_def)
  have closed: "done_ch ?s4" "closeOnce ?s4" "incomingStreams ?s4 = []" "incomingUnidirectionalStreams ?s4 = []"
    "dgram_closed (datagramBuffer ?s4)" "dgram_queue (datagramBuffer ?s4) = []" "stop ?s4"
    using s3 by (simp_all add: Session_Close_def closeDatagramDelivery_def logSessionEnd_def setCloseReason_def Let_def
        newDatagramReceiveBuffer_def datagramReceiveBuffer_close_def)
  have "echo_ready ps p ?s4"
    using s3(1) by (simp add: echo_ready_def Session_Close_def closeDatagramDelivery_def logSessionEnd_def
        setCloseReason_def Let_def)
  with closed(1,7) converse_rtranclp_into_rtranclp [of "echo_step V K e", OF step handler_returns [OF closed(1-6)]]
  show ?thesis by blast
qed

text \<open>C31: The goroutines that echo a stream are not waited for. When a peer sends a stream and ends the
  session, the handler can return while the goroutine of that stream still has the payload to
  send back, and it then writes it and the FIN to the writer of a session that is closed and of a handler that is
  gone, because \<^verbatim>\<open>SendStream.Write\<close> does not look at the state of the session.\<close>
theorem echo_outlives_handler:
  assumes "wire V K" and "length p \<le> 65536"
    and "length p \<le> unat (peer_maxData ps)" and "length p \<le> unat (peer_streamDataBidiLocal ps)"
  shows "\<exists>b s s'. rtranclp (echo_step V K e) (runEchoServer (newSessionConfigured pr True (Some ps)), Running b) (s, Stopped) \<and>
    es_returned s \<and> stop (es_sess s) \<and> done_ch (es_sess s) \<and> written (es_sess s) = [] \<and>
    echo_step V K e (s, Stopped) (s', Stopped) \<and>
    (\<exists>h. vappend V 0 = Some h \<and> written (es_sess s') = [(CapsuleWTStream, h @ p), (CapsuleWTStreamFin, h)])"
proof -
  let ?st = "\<lparr>st_ID = 0, st_recv = 0, st_send = 0\<rparr> :: Stream"
  obtain h where h: "vappend V 0 = Some h"
    using varint_codec.append_small [of V 0] assms(1) by (auto simp: wire_def)
  obtain b where b: "capsule_codec.write_all K [(CapsuleWTStream, h @ p), (CapsuleWTStreamFin, h)] = Some b"
    using wire.two_written [OF assms(1) h assms(2)] by blast
  obtain s3 where r: "rtranclp (echo_step V K e) (runEchoServer (newSessionConfigured pr True (Some ps)), Running b)
      ((runEchoServer s3)\<lparr>es_jobs := [EchoBidi ?st]\<rparr>, Running [])"
    and s3: "echo_ready ps p s3" "\<not> stop s3" "\<not> closeOnce s3" "\<not> closeDatagramDeliveryOnce s3" "incomingStreams s3 = []"
      "incomingUnidirectionalStreams s3 = []" "datagramBuffer s3 = newDatagramReceiveBuffer 65536"
    using server_accepts [OF assms(1) h assms(2) b, of e pr ps] by blast
  have "capsule_codec K" using assms(1) by (simp add: wire_def)
  from input_ends [OF this s3, of V e "[EchoBidi ?st]"] obtain s4 where
    r1: "rtranclp (echo_step V K e) ((runEchoServer s3)\<lparr>es_jobs := [EchoBidi ?st]\<rparr>, Running [])
      (\<lparr>es_sess = s4, es_jobs = [EchoBidi ?st], es_bidi = False, es_uni = False, es_dgram = False, es_returned = True,
        es_log = []\<rparr>, Stopped)" (is "rtranclp _ _ (?f, _)")
    and closed: "done_ch s4" "stop s4" and ready: "echo_ready ps p s4" by blast
  have r2: "rtranclp (echo_step V K e) (runEchoServer (newSessionConfigured pr True (Some ps)), Running b) (?f, Stopped)"
    using r r1 by (rule rtranclp_trans)
  obtain s5 where s5: "echoBidi V (\<lambda>_. 0) s4 ?st None None = Some (None, s5)" "in_memory s4"
    "written s5 = [(CapsuleWTStream, h @ p), (CapsuleWTStreamFin, h)]"
    using ready_replies [OF ready h assms(2-4)] by blast
  have "echo_step V K e (?f, Stopped) (?f\<lparr>es_sess := s5, es_jobs := []\<rparr>, Stopped)"
    by (rule echo_step.job [where i = 0 and sz = "\<lambda>_. 0" and ?w1.0 = None and ?w2.0 = None])
      (use s5 in \<open>simp_all add: log_line_def\<close>)
  with r2 closed ready s5(3) h show ?thesis
    by (intro exI [of _ b] exI [of _ ?f] exI [of _ "?f\<lparr>es_sess := s5, es_jobs := []\<rparr>"]) (simp add: echo_ready_def)
qed

theorem echo_outlives_handler_witness:
  "\<exists>b s s'. rtranclp (echo_step quicwire_varint quicwire_capsule EOF)
      (runEchoServer (newSessionConfigured ''echo'' True (Some echo_demo_peer)), Running b) (s, Stopped) \<and>
    es_returned s \<and> echo_step quicwire_varint quicwire_capsule EOF (s, Stopped) (s', Stopped) \<and>
    (\<exists>h. vappend quicwire_varint 0 = Some h \<and>
      written (es_sess s') = [(CapsuleWTStream, h @ [104, 105]), (CapsuleWTStreamFin, h)])"
proof -
  have "length [104 :: byte, 105] \<le> 65536" "length [104 :: byte, 105] \<le> unat (peer_maxData echo_demo_peer)"
    "length [104 :: byte, 105] \<le> unat (peer_streamDataBidiLocal echo_demo_peer)"
    by (simp_all add: echo_demo_peer_def)
  from echo_outlives_handler [OF qwk.wire_axioms this, of EOF "''echo''"] show ?thesis by blast
qed

end
