(* ===== verification/Hpack_Table.thy ===== *)
theory Hpack_Table
  imports Go_Errors "HOL-Library.AList"
begin

unbundle bit_operations_syntax

text \<open>
  third\_party/net/http2/hpack, the header tables: tables.go (the table with its two search maps),
  static\_table.go, and the dynamic table of hpack.go with its size accounting. Unique ids are
  natural numbers; where the source would panic, on an eviction of more than there is or on an
  overflow of the 64-bit eviction count, the result is \<open>None\<close>.
\<close>

section \<open>Header fields\<close>

record HeaderField =
  Name :: string
  Value :: string
  Sensitive :: bool

definition HeaderField_IsPseudo :: "HeaderField \<Rightarrow> bool" where
  "HeaderField_IsPseudo hf \<longleftrightarrow> length (Name hf) \<noteq> 0 \<and> Name hf ! 0 = CHR '':''"

definition HeaderField_Size :: "HeaderField \<Rightarrow> u32" where
  "HeaderField_Size hf = of_nat (length (Name hf) + length (Value hf) + 32)"

section \<open>Tables\<close>

record headerFieldTable =
  ents :: "HeaderField list"
  evictCount :: nat
  byName :: "string \<rightharpoonup> nat"
  byNameValue :: "string \<times> string \<rightharpoonup> nat"

definition empty_table :: headerFieldTable where
  "empty_table = \<lparr>ents = [], evictCount = 0, byName = Map.empty, byNameValue = Map.empty\<rparr>"

definition addEntry :: "headerFieldTable \<Rightarrow> HeaderField \<Rightarrow> headerFieldTable" where
  "addEntry t f =
     (let uid = length (ents t) + evictCount t + 1
      in t\<lparr>byName := (byName t)(Name f \<mapsto> uid),
           byNameValue := (byNameValue t)((Name f, Value f) \<mapsto> uid),
           ents := ents t @ [f]\<rparr>)"

text \<open>One pass of the loop of \<^verbatim>\<open>evictOldest\<close>: entry \<open>k\<close>, which is \<open>f\<close>, leaves the maps.\<close>

definition unlink :: "headerFieldTable \<Rightarrow> nat \<Rightarrow> HeaderField \<Rightarrow> headerFieldTable" where
  "unlink t k f =
     (let uid = evictCount t + k + 1;
          t1 = (if byName t (Name f) = Some uid then t\<lparr>byName := (byName t)(Name f := None)\<rparr> else t)
      in if byNameValue t1 (Name f, Value f) = Some uid
         then t1\<lparr>byNameValue := (byNameValue t1)((Name f, Value f) := None)\<rparr> else t1)"

fun unlink_all :: "headerFieldTable \<Rightarrow> nat \<Rightarrow> HeaderField list \<Rightarrow> headerFieldTable" where
  "unlink_all t k [] = t"
| "unlink_all t k (f # fs) = unlink_all (unlink t k f) (Suc k) fs"

definition evictOldest :: "headerFieldTable \<Rightarrow> nat \<Rightarrow> headerFieldTable option" where
  "evictOldest t n =
     (if n > length (ents t) then None
      else
        let t1 = unlink_all t 0 (take n (ents t));
            t2 = t1\<lparr>ents := drop n (ents t)\<rparr>
        in if int (evictCount t + n) \<ge> 2 ^ 64 then None
           else Some (t2\<lparr>evictCount := evictCount t + n\<rparr>))"

text \<open>\<open>static\<close> tells the static table from the dynamic ones.\<close>

definition idToIndex :: "bool \<Rightarrow> headerFieldTable \<Rightarrow> nat \<Rightarrow> nat option" where
  "idToIndex static t uid =
     (if uid \<le> evictCount t then None
      else
        let k = uid - evictCount t - 1
        in if \<not> static then Some (length (ents t) - k) else Some (k + 1))"

definition table_search :: "bool \<Rightarrow> headerFieldTable \<Rightarrow> HeaderField \<Rightarrow> (nat \<times> bool) option" where
  "table_search static t f =
     (case (if Sensitive f then None else byNameValue t (Name f, Value f)) of
        Some uid \<Rightarrow> map_option (\<lambda>i. (i, True)) (idToIndex static t uid)
      | None \<Rightarrow>
          (case byName t (Name f) of
             Some uid \<Rightarrow> map_option (\<lambda>i. (i, False)) (idToIndex static t uid)
           | None \<Rightarrow> Some (0, False)))"

section \<open>The static table\<close>

definition field :: "string \<Rightarrow> string \<Rightarrow> HeaderField" where
  "field n v = \<lparr>Name = n, Value = v, Sensitive = False\<rparr>"

definition static_ents :: "HeaderField list" where
  "static_ents = [
     field '':authority'' '''', field '':method'' ''GET'', field '':method'' ''POST'',
     field '':path'' ''/'', field '':path'' ''/index.html'', field '':scheme'' ''http'',
     field '':scheme'' ''https'', field '':status'' ''200'', field '':status'' ''204'',
     field '':status'' ''206'', field '':status'' ''304'', field '':status'' ''400'',
     field '':status'' ''404'', field '':status'' ''500'', field ''accept-charset'' '''',
     field ''accept-encoding'' ''gzip, deflate'', field ''accept-language'' '''',
     field ''accept-ranges'' '''', field ''accept'' '''',
     field ''access-control-allow-origin'' '''', field ''age'' '''', field ''allow'' '''',
     field ''authorization'' '''', field ''cache-control'' '''',
     field ''content-disposition'' '''', field ''content-encoding'' '''',
     field ''content-language'' '''', field ''content-length'' '''',
     field ''content-location'' '''', field ''content-range'' '''', field ''content-type'' '''',
     field ''cookie'' '''', field ''date'' '''', field ''etag'' '''', field ''expect'' '''',
     field ''expires'' '''', field ''from'' '''', field ''host'' '''', field ''if-match'' '''',
     field ''if-modified-since'' '''', field ''if-none-match'' '''', field ''if-range'' '''',
     field ''if-unmodified-since'' '''', field ''last-modified'' '''', field ''link'' '''',
     field ''location'' '''', field ''max-forwards'' '''', field ''proxy-authenticate'' '''',
     field ''proxy-authorization'' '''', field ''range'' '''', field ''referer'' '''',
     field ''refresh'' '''', field ''retry-after'' '''', field ''server'' '''',
     field ''set-cookie'' '''', field ''strict-transport-security'' '''',
     field ''transfer-encoding'' '''', field ''user-agent'' '''', field ''vary'' '''',
     field ''via'' '''', field ''www-authenticate'' ''''
   ]"

definition static_byName :: "(string \<times> nat) list" where
  "static_byName = [
     ('':authority'', 1), ('':method'', 3), ('':path'', 5), ('':scheme'', 7), ('':status'', 14),
     (''accept-charset'', 15), (''accept-encoding'', 16), (''accept-language'', 17),
     (''accept-ranges'', 18), (''accept'', 19), (''access-control-allow-origin'', 20),
     (''age'', 21), (''allow'', 22), (''authorization'', 23), (''cache-control'', 24),
     (''content-disposition'', 25), (''content-encoding'', 26), (''content-language'', 27),
     (''content-length'', 28), (''content-location'', 29), (''content-range'', 30),
     (''content-type'', 31), (''cookie'', 32), (''date'', 33), (''etag'', 34), (''expect'', 35),
     (''expires'', 36), (''from'', 37), (''host'', 38), (''if-match'', 39),
     (''if-modified-since'', 40), (''if-none-match'', 41), (''if-range'', 42),
     (''if-unmodified-since'', 43), (''last-modified'', 44), (''link'', 45), (''location'', 46),
     (''max-forwards'', 47), (''proxy-authenticate'', 48), (''proxy-authorization'', 49),
     (''range'', 50), (''referer'', 51), (''refresh'', 52), (''retry-after'', 53),
     (''server'', 54), (''set-cookie'', 55), (''strict-transport-security'', 56),
     (''transfer-encoding'', 57), (''user-agent'', 58), (''vary'', 59), (''via'', 60),
     (''www-authenticate'', 61)
   ]"

definition static_byNameValue :: "((string \<times> string) \<times> nat) list" where
  "static_byNameValue = [
     (('':authority'', ''''), 1), (('':method'', ''GET''), 2), (('':method'', ''POST''), 3),
     (('':path'', ''/''), 4), (('':path'', ''/index.html''), 5), (('':scheme'', ''http''), 6),
     (('':scheme'', ''https''), 7), (('':status'', ''200''), 8), (('':status'', ''204''), 9),
     (('':status'', ''206''), 10), (('':status'', ''304''), 11), (('':status'', ''400''), 12),
     (('':status'', ''404''), 13), (('':status'', ''500''), 14),
     ((''accept-charset'', ''''), 15), ((''accept-encoding'', ''gzip, deflate''), 16),
     ((''accept-language'', ''''), 17), ((''accept-ranges'', ''''), 18),
     ((''accept'', ''''), 19), ((''access-control-allow-origin'', ''''), 20),
     ((''age'', ''''), 21), ((''allow'', ''''), 22), ((''authorization'', ''''), 23),
     ((''cache-control'', ''''), 24), ((''content-disposition'', ''''), 25),
     ((''content-encoding'', ''''), 26), ((''content-language'', ''''), 27),
     ((''content-length'', ''''), 28), ((''content-location'', ''''), 29),
     ((''content-range'', ''''), 30), ((''content-type'', ''''), 31), ((''cookie'', ''''), 32),
     ((''date'', ''''), 33), ((''etag'', ''''), 34), ((''expect'', ''''), 35),
     ((''expires'', ''''), 36), ((''from'', ''''), 37), ((''host'', ''''), 38),
     ((''if-match'', ''''), 39), ((''if-modified-since'', ''''), 40),
     ((''if-none-match'', ''''), 41), ((''if-range'', ''''), 42),
     ((''if-unmodified-since'', ''''), 43), ((''last-modified'', ''''), 44),
     ((''link'', ''''), 45), ((''location'', ''''), 46), ((''max-forwards'', ''''), 47),
     ((''proxy-authenticate'', ''''), 48), ((''proxy-authorization'', ''''), 49),
     ((''range'', ''''), 50), ((''referer'', ''''), 51), ((''refresh'', ''''), 52),
     ((''retry-after'', ''''), 53), ((''server'', ''''), 54), ((''set-cookie'', ''''), 55),
     ((''strict-transport-security'', ''''), 56), ((''transfer-encoding'', ''''), 57),
     ((''user-agent'', ''''), 58), ((''vary'', ''''), 59), ((''via'', ''''), 60),
     ((''www-authenticate'', ''''), 61)
   ]"

definition staticTable :: headerFieldTable where
  "staticTable = \<lparr>ents = static_ents, evictCount = 0, byName = map_of static_byName,
     byNameValue = map_of static_byNameValue\<rparr>"

section \<open>The dynamic table\<close>

record dynamicTable =
  dt_table :: headerFieldTable
  dt_size :: u32
  dt_maxSize :: u32
  dt_allowedMaxSize :: u32

text \<open>The loop of \<^verbatim>\<open>evict\<close>: how many entries go, and the size that is left.\<close>

fun evict_loop :: "u32 \<Rightarrow> u32 \<Rightarrow> HeaderField list \<Rightarrow> nat \<times> u32" where
  "evict_loop sz mx [] = (0, sz)"
| "evict_loop sz mx (f # fs) =
     (if sz > mx then
        (let r = evict_loop (sz - HeaderField_Size f) mx fs in (Suc (fst r), snd r))
      else (0, sz))"

definition dynamicTable_evict :: "dynamicTable \<Rightarrow> dynamicTable option" where
  "dynamicTable_evict dt =
     (let r = evict_loop (dt_size dt) (dt_maxSize dt) (ents (dt_table dt))
      in map_option (\<lambda>t. dt\<lparr>dt_size := snd r, dt_table := t\<rparr>) (evictOldest (dt_table dt) (fst r)))"

definition dynamicTable_setMaxSize :: "dynamicTable \<Rightarrow> u32 \<Rightarrow> dynamicTable option" where
  "dynamicTable_setMaxSize dt v = dynamicTable_evict (dt\<lparr>dt_maxSize := v\<rparr>)"

definition dynamicTable_add :: "dynamicTable \<Rightarrow> HeaderField \<Rightarrow> dynamicTable option" where
  "dynamicTable_add dt f =
     dynamicTable_evict (dt\<lparr>dt_table := addEntry (dt_table dt) f,
                            dt_size := dt_size dt + HeaderField_Size f\<rparr>)"

section \<open>The search maps\<close>

definition is_newest :: "('a \<Rightarrow> bool) \<Rightarrow> 'a list \<Rightarrow> nat \<Rightarrow> bool" where
  "is_newest P xs k \<longleftrightarrow> k < length xs \<and> P (xs ! k) \<and> (\<forall>j. k < j \<and> j < length xs \<longrightarrow> \<not> P (xs ! j))"

text \<open>A map takes each key to the unique id of the newest entry that has it.\<close>

definition indexes :: "('a \<Rightarrow> 'k) \<Rightarrow> nat \<Rightarrow> 'a list \<Rightarrow> ('k \<rightharpoonup> nat) \<Rightarrow> bool" where
  "indexes key c xs m \<longleftrightarrow>
     (\<forall>x uid. m x = Some uid \<longleftrightarrow> (\<exists>k. uid = c + k + 1 \<and> is_newest (\<lambda>f. key f = x) xs k))"

lemma is_newest_snoc_hit: "P f \<Longrightarrow> is_newest P (xs @ [f]) k \<longleftrightarrow> k = length xs"
proof
  assume P: "P f" and a: "is_newest P (xs @ [f]) k"
  then have le: "k \<le> length xs"
    and all: "\<forall>j. k < j \<and> j < length (xs @ [f]) \<longrightarrow> \<not> P ((xs @ [f]) ! j)"
    unfolding is_newest_def by (simp, blast)
  from all have "k < length xs \<longrightarrow> \<not> P ((xs @ [f]) ! length xs)"
    by (metis length_append_singleton lessI)
  with P le show "k = length xs" by (metis le_neq_implies_less nth_append_length)
qed (auto simp: is_newest_def)

lemma is_newest_snoc_miss:
  assumes "\<not> P f"
  shows "is_newest P (xs @ [f]) k \<longleftrightarrow> is_newest P xs k"
proof -
  have "(k < length (xs @ [f]) \<and> P ((xs @ [f]) ! k)) \<longleftrightarrow> (k < length xs \<and> P (xs ! k))"
    using assms by (auto simp: nth_append less_Suc_eq)
  moreover have "(k < j \<and> j < length (xs @ [f]) \<longrightarrow> \<not> P ((xs @ [f]) ! j)) \<longleftrightarrow>
      (k < j \<and> j < length xs \<longrightarrow> \<not> P (xs ! j))" for j
    using assms by (auto simp: nth_append less_Suc_eq)
  ultimately show ?thesis unfolding is_newest_def by blast
qed

lemma is_newest_snoc:
  "is_newest P (xs @ [f]) k \<longleftrightarrow> (if P f then k = length xs else is_newest P xs k)"
  by (simp add: is_newest_snoc_hit is_newest_snoc_miss)

lemma is_newest_Cons: "is_newest P (f # fs) (Suc k) \<longleftrightarrow> is_newest P fs k"
  by (auto simp: is_newest_def less_Suc_eq_0_disj all_conj_distrib)

lemma ex_nat_split: "(\<exists>k. Q k) \<longleftrightarrow> Q 0 \<or> (\<exists>k. Q (Suc k))"
  by (metis not0_implies_Suc)

lemma newest_exists: "f \<in> set xs \<Longrightarrow> P f \<Longrightarrow> \<exists>k. is_newest P xs k"
proof (induction xs rule: rev_induct)
  case (snoc x xs)
  then show ?case by (cases "P x") (auto simp: is_newest_snoc)
qed simp

lemma is_newest_unique: "is_newest P xs k \<Longrightarrow> is_newest P xs k' \<Longrightarrow> k = k'"
  by (metis is_newest_def linorder_neqE_nat)

lemma indexes_add:
  assumes "indexes key c xs m"
  shows "indexes key c (xs @ [f]) (m(key f \<mapsto> length xs + c + 1))"
  using assms by (auto simp: indexes_def is_newest_snoc)

definition unlink_map :: "('a \<Rightarrow> 'k) \<Rightarrow> nat \<Rightarrow> 'a \<Rightarrow> ('k \<rightharpoonup> nat) \<Rightarrow> ('k \<rightharpoonup> nat)" where
  "unlink_map key uid f m = (if m (key f) = Some uid then m(key f := None) else m)"

lemma indexes_Cons:
  "indexes key c (f # fs) m \<longleftrightarrow> (\<forall>x uid. m x = Some uid \<longleftrightarrow>
     uid = c + 1 \<and> is_newest (\<lambda>f. key f = x) (f # fs) 0 \<or>
     (\<exists>k. uid = Suc c + k + 1 \<and> is_newest (\<lambda>f. key f = x) fs k))"
proof -
  have "(\<exists>k. uid = c + k + 1 \<and> is_newest P (f # fs) k) \<longleftrightarrow>
      uid = c + 1 \<and> is_newest P (f # fs) 0 \<or> (\<exists>k. uid = Suc c + k + 1 \<and> is_newest P fs k)" for P uid
    by (subst ex_nat_split) (simp add: is_newest_Cons)
  then show ?thesis by (simp only: indexes_def)
qed

lemma indexes_unlink:
  assumes "indexes key c (f # fs) m"
  shows "indexes key (Suc c) fs (unlink_map key (c + 1) f m)"
proof -
  let ?hd = "\<lambda>x. is_newest (\<lambda>f. key f = x) (f # fs) 0"
  note at = assms [unfolded indexes_Cons, rule_format]
  have head: "x = key f" if "?hd x" for x using that by (simp add: is_newest_def)
  have excl: "\<not> is_newest (\<lambda>f. key f = x) fs k" if "?hd x" for x k
    using that is_newest_unique [of _ "f # fs" 0 "Suc k"] by (auto simp: is_newest_Cons)
  have hd_iff: "m (key f) = Some (c + 1) \<longleftrightarrow> ?hd (key f)" using at by simp
  have "unlink_map key (c + 1) f m x = Some uid \<longleftrightarrow>
      (\<exists>k. uid = Suc c + k + 1 \<and> is_newest (\<lambda>f. key f = x) fs k)" for x uid
  proof (cases "?hd x")
    case True
    with hd_iff head have "unlink_map key (c + 1) f m x = None" by (auto simp: unlink_map_def)
    with excl [OF True] show ?thesis by simp
  next
    case False
    then have "unlink_map key (c + 1) f m x = m x" using hd_iff by (auto simp: unlink_map_def)
    with at False show ?thesis by simp
  qed
  then show ?thesis by (simp only: indexes_def) simp
qed

primrec unlink_maps :: "('a \<Rightarrow> 'k) \<Rightarrow> nat \<Rightarrow> 'a list \<Rightarrow> ('k \<rightharpoonup> nat) \<Rightarrow> ('k \<rightharpoonup> nat)" where
  "unlink_maps key uid [] m = m"
| "unlink_maps key uid (f # fs) m = unlink_maps key (Suc uid) fs (unlink_map key uid f m)"

lemma indexes_unlinks:
  "indexes key c (fs @ gs) m \<Longrightarrow> indexes key (c + length fs) gs (unlink_maps key (c + 1) fs m)"
proof (induction fs arbitrary: c m)
  case (Cons f fs)
  from Cons.IH [OF indexes_unlink [OF Cons.prems [simplified]]] show ?case by simp
qed simp

lemma unlink_all_maps:
  "byName (unlink_all t k fs) = unlink_maps Name (evictCount t + k + 1) fs (byName t)"
  "byNameValue (unlink_all t k fs) =
     unlink_maps (\<lambda>f. (Name f, Value f)) (evictCount t + k + 1) fs (byNameValue t)"
  by (induction fs arbitrary: t k) (simp_all add: unlink_def unlink_map_def Let_def)

definition table_ok :: "headerFieldTable \<Rightarrow> bool" where
  "table_ok t \<longleftrightarrow> indexes Name (evictCount t) (ents t) (byName t) \<and>
     indexes (\<lambda>f. (Name f, Value f)) (evictCount t) (ents t) (byNameValue t)"

lemma table_ok_empty: "table_ok empty_table"
  by (simp add: table_ok_def empty_table_def indexes_def is_newest_def)

lemma table_ok_addEntry: "table_ok t \<Longrightarrow> table_ok (addEntry t f)"
  using indexes_add [of Name "evictCount t" "ents t" "byName t" f]
    indexes_add [of "\<lambda>f. (Name f, Value f)" "evictCount t" "ents t" "byNameValue t" f]
  by (simp add: table_ok_def addEntry_def Let_def)

lemma table_ok_evict:
  assumes "table_ok t" and "evictOldest t n = Some t'"
  shows "table_ok t'" "ents t' = drop n (ents t)" "evictCount t' = evictCount t + n" "n \<le> length (ents t)"
proof -
  have n: "n \<le> length (ents t)"
    and t': "t' = (unlink_all t 0 (take n (ents t)))\<lparr>ents := drop n (ents t), evictCount := evictCount t + n\<rparr>"
    using assms(2) by (auto simp: evictOldest_def Let_def split: if_splits)
  note un = indexes_unlinks [of _ "evictCount t" "take n (ents t)" "drop n (ents t)"]
  from un [of Name "byName t"] un [of "\<lambda>f. (Name f, Value f)" "byNameValue t"] assms(1) n
  show "table_ok t'" by (simp add: t' table_ok_def unlink_all_maps)
  show "ents t' = drop n (ents t)" "evictCount t' = evictCount t + n" "n \<le> length (ents t)"
    using n by (simp_all add: t')
qed

lemma idToIndex_newest:
  "k < length (ents t) \<Longrightarrow> idToIndex False t (Suc (evictCount t + k)) = Some (length (ents t) - k)"
  by (simp add: idToIndex_def)

lemma table_search_sound:
  assumes "table_ok t"
  shows "case table_search False t f of
      None \<Rightarrow> False
    | Some (i, True) \<Rightarrow> \<not> Sensitive f \<and> 1 \<le> i \<and> i \<le> length (ents t) \<and>
        is_newest (\<lambda>g. Name g = Name f \<and> Value g = Value f) (ents t) (length (ents t) - i)
    | Some (i, False) \<Rightarrow>
        (if i = 0 then \<forall>g \<in> set (ents t). Name g \<noteq> Name f
         else i \<le> length (ents t) \<and> is_newest (\<lambda>g. Name g = Name f) (ents t) (length (ents t) - i))"
proof -
  let ?n = "length (ents t)" and ?c = "evictCount t"
  have nv: "byNameValue t (Name f, Value f) = Some uid \<longleftrightarrow>
      (\<exists>k. uid = ?c + k + 1 \<and> is_newest (\<lambda>g. Name g = Name f \<and> Value g = Value f) (ents t) k)" for uid
    using assms by (simp add: table_ok_def indexes_def)
  have nm: "byName t (Name f) = Some uid \<longleftrightarrow>
      (\<exists>k. uid = ?c + k + 1 \<and> is_newest (\<lambda>g. Name g = Name f) (ents t) k)" for uid
    using assms by (simp add: table_ok_def indexes_def)
  show ?thesis
  proof (cases "if Sensitive f then None else byNameValue t (Name f, Value f)")
    case (Some uid)
    then obtain k where k: "uid = ?c + k + 1" "\<not> Sensitive f"
      "is_newest (\<lambda>g. Name g = Name f \<and> Value g = Value f) (ents t) k"
      using nv by (auto split: if_splits)
    then have "k < ?n" by (simp add: is_newest_def)
    with Some k show ?thesis by (simp add: table_search_def idToIndex_newest)
  next
    case None
    show ?thesis
    proof (cases "byName t (Name f)")
      case (Some uid)
      then obtain k where k: "uid = ?c + k + 1" "is_newest (\<lambda>g. Name g = Name f) (ents t) k"
        using nm by auto
      then have "k < ?n" by (simp add: is_newest_def)
      with Some None k show ?thesis by (simp add: table_search_def idToIndex_newest)
    next
      case no: None
      have "\<forall>g \<in> set (ents t). Name g \<noteq> Name f"
        using nm no newest_exists [where P = "\<lambda>g. Name g = Name f" and xs = "ents t"] by fastforce
      with None no show ?thesis by (simp add: table_search_def)
    qed
  qed
qed

text \<open>Searching a header table never panics and finds what it says: a full match is the newest
  entry with that name and value, a name match the newest entry with that name, both given by
  their distance from the end of the table, and index 0 means that no entry has the name. A
  sensitive field is never matched in full.\<close>
theorem table_search_correct:
  assumes "table_ok t"
  shows "case table_search False t f of
      None \<Rightarrow> False
    | Some (i, True) \<Rightarrow> \<not> Sensitive f \<and> 1 \<le> i \<and> i \<le> length (ents t) \<and>
        is_newest (\<lambda>g. Name g = Name f \<and> Value g = Value f) (ents t) (length (ents t) - i)
    | Some (i, False) \<Rightarrow>
        (if i = 0 then \<forall>g \<in> set (ents t). Name g \<noteq> Name f
         else i \<le> length (ents t) \<and> is_newest (\<lambda>g. Name g = Name f) (ents t) (length (ents t) - i))"
  by (rule table_search_sound [OF assms])

definition demo_table :: headerFieldTable where
  "demo_table = addEntry (addEntry empty_table (field ''a'' ''1'')) (field ''a'' ''2'')"

theorem table_search_correct_witness:
  "table_search False demo_table (field ''a'' ''1'') = Some (2, True) \<and>
   is_newest (\<lambda>g. Name g = ''a'' \<and> Value g = ''1'') (ents demo_table) 0"
proof -
  have "table_search False demo_table (field ''a'' ''1'') = Some (2, True)" "length (ents demo_table) = 2"
    by code_simp+
  moreover have "table_ok demo_table"
    by (simp add: demo_table_def table_ok_addEntry table_ok_empty)
  ultimately show ?thesis
    using table_search_correct [of demo_table "field ''a'' ''1''"] by (simp add: field_def)
qed


section \<open>The generated table\<close>

lemma map_of_rev_clearjunk: "map_of (rev (AList.clearjunk xs)) = map_of xs"
proof -
  have "distinct (map fst (AList.clearjunk xs))" by (rule AList.distinct_clearjunk)
  then have "map_of (rev (AList.clearjunk xs)) = map_of (AList.clearjunk xs)"
    by (subst map_of_inject_set) (simp_all add: rev_map [symmetric])
  then show ?thesis by (simp add: map_of_clearjunk)
qed

primrec key_ids :: "('a \<Rightarrow> 'k) \<Rightarrow> nat \<Rightarrow> 'a list \<Rightarrow> ('k \<times> nat) list \<Rightarrow> ('k \<times> nat) list" where
  "key_ids key n [] acc = acc"
| "key_ids key n (f # fs) acc = key_ids key (Suc n) fs ((key f, n) # acc)"

lemma foldl_addEntry:
  assumes "byName t = map_of a" and "byNameValue t = map_of b"
  shows "foldl addEntry t fs =
     \<lparr>ents = ents t @ fs, evictCount = evictCount t,
      byName = map_of (key_ids Name (length (ents t) + evictCount t + 1) fs a),
      byNameValue = map_of (key_ids (\<lambda>f. (Name f, Value f)) (length (ents t) + evictCount t + 1) fs b)\<rparr>"
  using assms
proof (induction fs arbitrary: t a b)
  case (Cons f fs)
  let ?i = "length (ents t) + evictCount t + 1"
  have "byName (addEntry t f) = map_of ((Name f, ?i) # a)"
    "byNameValue (addEntry t f) = map_of (((Name f, Value f), ?i) # b)"
    using Cons.prems by (simp_all add: addEntry_def Let_def)
  from Cons.IH [OF this] show ?case by (simp add: addEntry_def Let_def)
qed simp

lemma static_byName_ids: "rev (AList.clearjunk (key_ids Name 1 static_ents [])) = static_byName"
  by code_simp

lemma static_byNameValue_ids:
  "rev (AList.clearjunk (key_ids (\<lambda>f. (Name f, Value f)) 1 static_ents [])) = static_byNameValue"
  by code_simp

lemma staticTable_fold: "staticTable = foldl addEntry empty_table static_ents"
proof -
  have "foldl addEntry empty_table static_ents =
      \<lparr>ents = static_ents, evictCount = 0, byName = map_of (key_ids Name 1 static_ents []),
       byNameValue = map_of (key_ids (\<lambda>f. (Name f, Value f)) 1 static_ents [])\<rparr>"
    by (rule trans [OF foldl_addEntry [of empty_table "[]" "[]"]]) (simp_all add: empty_table_def)
  then show ?thesis
    using map_of_rev_clearjunk [of "key_ids Name 1 static_ents []"]
      map_of_rev_clearjunk [of "key_ids (\<lambda>f. (Name f, Value f)) 1 static_ents []"]
    by (simp add: staticTable_def static_byName_ids [simplified] static_byNameValue_ids [simplified])
qed


lemma table_ok_foldl: "table_ok t \<Longrightarrow> table_ok (foldl addEntry t fs)"
  by (induction fs arbitrary: t) (simp_all add: table_ok_addEntry)

lemma table_ok_static: "table_ok staticTable"
  unfolding staticTable_fold by (rule table_ok_foldl [OF table_ok_empty])

text \<open>The generated static table is the table that adding its 61 entries in order builds: both
  search maps agree with it on every name and every pair of name and value, so they index the
  newest entry of each.\<close>
theorem staticTable_built:
  "staticTable = foldl addEntry empty_table static_ents \<and> table_ok staticTable"
  using staticTable_fold table_ok_static by blast

section \<open>Size accounting\<close>

definition field_bytes :: "HeaderField \<Rightarrow> nat" where
  "field_bytes f = length (Name f) + length (Value f) + 32"

definition table_bytes :: "HeaderField list \<Rightarrow> nat" where
  "table_bytes fs = sum_list (map field_bytes fs)"

lemma table_bytes_simps [simp]:
  "table_bytes [] = 0" "table_bytes (f # fs) = field_bytes f + table_bytes fs"
  "table_bytes (fs @ gs) = table_bytes fs + table_bytes gs"
  by (simp_all add: table_bytes_def)

lemma unat_field_size: "field_bytes f < 2 ^ 32 \<Longrightarrow> unat (HeaderField_Size f) = field_bytes f"
proof -
  assume lt: "field_bytes f < 2 ^ 32"
  have "HeaderField_Size f = of_nat (field_bytes f)" by (simp only: HeaderField_Size_def field_bytes_def)
  with lt show ?thesis by (simp add: unat_of_nat take_bit_nat_eq_self)
qed

definition dynamic_ok :: "dynamicTable \<Rightarrow> bool" where
  "dynamic_ok dt \<longleftrightarrow> table_ok (dt_table dt) \<and>
     unat (dt_size dt) = table_bytes (ents (dt_table dt)) \<and> dt_size dt \<le> dt_maxSize dt"

lemma evict_loop_spec:
  assumes "unat sz = table_bytes fs"
  shows "unat (snd (evict_loop sz mx fs)) = table_bytes (drop (fst (evict_loop sz mx fs)) fs) \<and>
    snd (evict_loop sz mx fs) \<le> mx \<and> fst (evict_loop sz mx fs) \<le> length fs \<and>
    (\<forall>m < fst (evict_loop sz mx fs). unat mx < table_bytes (drop m fs))"
  using assms
proof (induction fs arbitrary: sz)
  case Nil
  then have "sz = 0" by (simp add: unat_eq_zero)
  with Nil show ?case by simp
next
  case (Cons f fs)
  show ?case
  proof (cases "sz > mx")
    case True
    have lt: "field_bytes f < 2 ^ 32" using Cons.prems unsigned_less [of sz, where ?'a = nat] by simp
    note u = unat_field_size [OF lt]
    have "HeaderField_Size f \<le> sz" using Cons.prems by (simp add: word_le_nat_alt u)
    then have "unat (sz - HeaderField_Size f) = table_bytes fs"
      using Cons.prems by (simp add: unat_diff_le u)
    note IH = Cons.IH [OF this]
    have "unat mx < table_bytes (f # fs)" using True Cons.prems by (simp add: word_less_nat_alt)
    with True IH show ?thesis by (auto simp: Let_def less_Suc_eq_0_disj)
  next
    case False
    with Cons.prems show ?thesis by simp
  qed
qed

lemma dynamicTable_evict_spec:
  assumes "table_ok (dt_table dt)" and "unat (dt_size dt) = table_bytes (ents (dt_table dt))"
    and "evictCount (dt_table dt) + length (ents (dt_table dt)) < 2 ^ 64"
  shows "\<exists>n dt'. dynamicTable_evict dt = Some dt' \<and> dynamic_ok dt' \<and> dt_maxSize dt' = dt_maxSize dt \<and>
    dt_allowedMaxSize dt' = dt_allowedMaxSize dt \<and>
    n \<le> length (ents (dt_table dt)) \<and> ents (dt_table dt') = drop n (ents (dt_table dt)) \<and>
    evictCount (dt_table dt') = evictCount (dt_table dt) + n \<and>
    (\<forall>m < n. unat (dt_maxSize dt) < table_bytes (drop m (ents (dt_table dt))))"
proof -
  let ?r = "evict_loop (dt_size dt) (dt_maxSize dt) (ents (dt_table dt))"
  note r = evict_loop_spec [OF assms(2), of "dt_maxSize dt"]
  then obtain t where t: "evictOldest (dt_table dt) (fst ?r) = Some t"
    using assms(3) by (auto simp: evictOldest_def Let_def)
  note e = table_ok_evict [OF assms(1) t]
  let ?dt = "dt\<lparr>dt_size := snd ?r, dt_table := t\<rparr>"
  have "dynamicTable_evict dt = Some ?dt" by (simp add: dynamicTable_evict_def Let_def t)
  moreover have "dynamic_ok ?dt" using r e by (simp add: dynamic_ok_def)
  ultimately show ?thesis using r e by (intro exI [of _ "fst ?r"] exI [of _ ?dt]) simp
qed

text \<open>Adding a field to a dynamic table evicts exactly what has to go: the table then holds
  the longest run of newest entries, the new one included, whose total size (32 bytes per entry
  plus name and value) fits the maximum, the size counter equals that total, and the
  search maps index what is left. A field larger than the whole table empties it.\<close>
theorem dynamicTable_add_evicts:
  assumes "dynamic_ok dt" and "table_bytes (ents (dt_table dt)) + field_bytes f < 2 ^ 32"
    and "evictCount (dt_table dt) + length (ents (dt_table dt)) + 1 < 2 ^ 64"
  shows "\<exists>n dt'. dynamicTable_add dt f = Some dt' \<and> dynamic_ok dt' \<and> dt_maxSize dt' = dt_maxSize dt \<and>
    ents (dt_table dt') = drop n (ents (dt_table dt) @ [f]) \<and>
    table_bytes (drop n (ents (dt_table dt) @ [f])) \<le> unat (dt_maxSize dt) \<and>
    (\<forall>m < n. unat (dt_maxSize dt) < table_bytes (drop m (ents (dt_table dt) @ [f])))"
proof -
  let ?dt = "dt\<lparr>dt_table := addEntry (dt_table dt) f, dt_size := dt_size dt + HeaderField_Size f\<rparr>"
  have u: "unat (HeaderField_Size f) = field_bytes f"
    using assms(2) by (intro unat_field_size) simp
  have e: "ents (addEntry (dt_table dt) f) = ents (dt_table dt) @ [f]"
    "evictCount (addEntry (dt_table dt) f) = evictCount (dt_table dt)"
    by (simp_all add: addEntry_def Let_def)
  have "unat (dt_size ?dt) = table_bytes (ents (dt_table ?dt))"
    using assms(1,2) unat_add_no_wrap [of "dt_size dt" "HeaderField_Size f"]
    by (simp add: dynamic_ok_def u e)
  moreover have "table_ok (dt_table ?dt)" using assms(1) by (simp add: dynamic_ok_def table_ok_addEntry)
  ultimately obtain n dt' where d: "dynamicTable_evict ?dt = Some dt'" "dynamic_ok dt'" "dt_maxSize dt' = dt_maxSize dt"
    "ents (dt_table dt') = drop n (ents (dt_table dt) @ [f])"
    "\<forall>m < n. unat (dt_maxSize dt) < table_bytes (drop m (ents (dt_table dt) @ [f]))"
    using dynamicTable_evict_spec [of ?dt] assms(3) by (auto simp: e)
  moreover have "table_bytes (drop n (ents (dt_table dt) @ [f])) \<le> unat (dt_maxSize dt)"
    using d(2-4) by (simp add: dynamic_ok_def word_le_nat_alt)
  ultimately show ?thesis by (auto simp: dynamicTable_add_def)
qed

definition demo_dynamic :: dynamicTable where
  "demo_dynamic = \<lparr>dt_table = demo_table, dt_size = 68, dt_maxSize = 70, dt_allowedMaxSize = 4096\<rparr>"

theorem dynamicTable_add_evicts_witness:
  "\<exists>dt'. dynamicTable_add demo_dynamic (field ''b'' ''3'') = Some dt' \<and> dynamic_ok dt' \<and>
     map Value (ents (dt_table dt')) = [''2'', ''3'']"
proof -
  have "table_ok demo_table" by (simp add: demo_table_def table_ok_addEntry table_ok_empty)
  then have ok: "dynamic_ok demo_dynamic"
    by (simp add: dynamic_ok_def demo_dynamic_def)
       (simp add: demo_table_def addEntry_def empty_table_def field_bytes_def field_def)
  have b: "ents (dt_table demo_dynamic) = [field ''a'' ''1'', field ''a'' ''2'']" "evictCount (dt_table demo_dynamic) = 0"
    by (simp_all add: demo_dynamic_def demo_table_def addEntry_def empty_table_def)
  have "map_option (\<lambda>d. map Value (ents (dt_table d))) (dynamicTable_add demo_dynamic (field ''b'' ''3'')) =
      Some [''2'', ''3'']"
    by code_simp
  moreover have "\<exists>dt'. dynamicTable_add demo_dynamic (field ''b'' ''3'') = Some dt' \<and> dynamic_ok dt'"
    using dynamicTable_add_evicts [OF ok, of "field ''b'' ''3''"] b
    by (auto simp: field_bytes_def field_def)
  ultimately show ?thesis by auto
qed
end
