(* ===== verification/Hpack_Codec.thy ===== *)
theory Hpack_Codec
  imports Hpack_Table
begin

unbundle bit_operations_syntax

text \<open>
  third\_party/net/http2/hpack, the integers, the indices and the table sizes of encode.go and hpack.go; the header
  blocks built from them are in \<open>Hpack_Block\<close>. The reader of integers accepts at most nine bytes
  after the prefix; a panic is \<open>None\<close>.
\<close>

section \<open>Integers\<close>

function varint_tail :: "u64 \<Rightarrow> bytes" where
  "varint_tail i =
     (if i \<ge> 128 then ucast (0x80 OR (i AND 0x7f)) # varint_tail (drop_bit 7 i) else [ucast i])"
  by auto
termination
proof (relation "measure unat")
  fix i :: u64
  assume "128 \<le> i"
  then have "128 \<le> unat i" by (simp add: word_le_nat_alt)
  moreover have "unat (drop_bit 7 i) = unat i div 128"
    by (subst unat_drop_bit_eq) (simp add: drop_bit_eq_div)
  ultimately show "(drop_bit 7 i, i) \<in> measure unat" by simp
qed simp

declare varint_tail.simps [simp del]

text \<open>\<^verbatim>\<open>(1 << n) - 1\<close>\<close>

definition prefix_max :: "nat \<Rightarrow> u64" where "prefix_max n = push_bit n 1 - 1"

definition appendVarInt :: "bytes \<Rightarrow> nat \<Rightarrow> u64 \<Rightarrow> bytes" where
  "appendVarInt dst n i =
     (let k = prefix_max n
      in if i < k then dst @ [ucast i] else dst @ [ucast k] @ varint_tail (i - k))"

datatype hpack_err =
    errNeedMore
  | errVarintOverflow
  | DecodingError string
  | InvalidIndexError int
  | ErrStringLength
  | ErrInvalidHuffman

fun readVarInt_loop :: "u64 \<Rightarrow> nat \<Rightarrow> bytes \<Rightarrow> hpack_err + u64 \<times> bytes" where
  "readVarInt_loop i m [] = Inl errNeedMore"
| "readVarInt_loop i m (b # p) =
     (let i' = i + push_bit m (ucast (b AND 127))
      in if b AND 128 = 0 then Inr (i', p)
         else if m + 7 \<ge> 63 then Inl errVarintOverflow
         else readVarInt_loop i' (m + 7) p)"

definition readVarInt :: "nat \<Rightarrow> bytes \<Rightarrow> (hpack_err + u64 \<times> bytes) option" where
  "readVarInt n p =
     (if n < 1 \<or> n > 8 then None
      else Some (case p of
          [] \<Rightarrow> Inl errNeedMore
        | b # p' \<Rightarrow>
            let i = (if n < 8 then ucast b AND prefix_max n else ucast b)
            in if i < prefix_max n then Inr (i, p') else readVarInt_loop i 0 p'))"

text \<open>Setting bits of the first byte, as every representation does with its type bits.\<close>

fun or_first :: "byte \<Rightarrow> bytes \<Rightarrow> bytes" where
  "or_first x [] = []"
| "or_first x (b # bs) = (b OR x) # bs"

definition appendIndexed :: "bytes \<Rightarrow> u64 \<Rightarrow> bytes" where
  "appendIndexed dst i = dst @ or_first 0x80 (appendVarInt [] 7 i)"

definition appendTableSize :: "bytes \<Rightarrow> u32 \<Rightarrow> bytes" where
  "appendTableSize dst v = dst @ or_first 0x20 (appendVarInt [] 5 (ucast v))"

definition encodeTypeByte :: "bool \<Rightarrow> bool \<Rightarrow> byte" where
  "encodeTypeByte indexing sensitive = (if sensitive then 0x10 else if indexing then 0x40 else 0)"

section \<open>Round trip of integers\<close>

lemma push_split: "push_bit m (v AND 127) + push_bit (m + 7) (drop_bit 7 v) = push_bit m (v :: u64)"
proof -
  have "(v AND 127) + push_bit 7 (drop_bit 7 v) = v"
    using bits_ident [of 7 v] by (simp add: take_bit_eq_mask mask_eq_exp_minus_1 add.commute)
  then have "push_bit m ((v AND 127) + push_bit 7 (drop_bit 7 v)) = push_bit m v" by simp
  then show ?thesis by (simp add: push_bit_add push_bit_push_bit add.commute)
qed

lemma bit_127: "bit (127 :: int) n \<longleftrightarrow> n < 7"
  using bit_mask_iff [of 7 n, where 'a = int] by (simp add: mask_eq_exp_minus_1)

lemma bit_128: "bit (128 :: int) n \<longleftrightarrow> n = 7"
  using bit_exp_iff [of 7 n, where 'a = int] by auto

lemma low_seven: "ucast ((ucast (0x80 OR (v AND 0x7f)) :: byte) AND 127) = (v AND 127 :: u64)"
  by (rule bit_word_eqI) (auto simp: bit_unsigned_iff bit_and_iff bit_or_iff bit_127 bit_128)

lemma high_bit: "(ucast (0x80 OR (v AND 0x7f) :: u64) :: byte) AND 128 \<noteq> 0"
proof -
  have "bit ((ucast (0x80 OR (v AND 0x7f) :: u64) :: byte) AND 128) 7"
    by (simp add: bit_unsigned_iff bit_and_iff bit_or_iff bit_128)
  then show ?thesis by auto
qed

lemma small_byte:
  assumes "v < (128 :: u64)"
  shows "ucast ((ucast v :: byte) AND 127) = v" "(ucast v :: byte) AND 128 = 0"
proof -
  have lt: "n < 7" if "bit v n" for n
    using bit_lt_exp [of v 7 n] that assms by (auto simp: word_less_nat_alt)
  then have imp: "bit v n \<longrightarrow> n < 7 \<and> n < 8 \<and> n \<noteq> 7" for n by force
  show "ucast ((ucast v :: byte) AND 127) = v"
    by (rule bit_word_eqI) (use imp in \<open>auto simp: bit_unsigned_iff bit_and_iff bit_127\<close>)
  show "(ucast v :: byte) AND 128 = 0"
    by (rule bit_word_eqI) (use imp in \<open>auto simp: bit_unsigned_iff bit_and_iff bit_128\<close>)
qed

text \<open>Reading back the bytes after the prefix; \<open>q\<close> counts the seven-bit groups read so far.\<close>

lemma readVarInt_loop_tail:
  assumes "m = 7 * q" and "unat v < 2 ^ (63 - m)" and "q \<le> 8"
  shows "readVarInt_loop a m (varint_tail v @ rest) = Inr (a + push_bit m v, rest)"
  using assms
proof (induction v arbitrary: a m q rule: varint_tail.induct)
  case (1 v)
  show ?case
  proof (cases "v \<ge> 128")
    case True
    have q: "q \<noteq> 8"
    proof
      assume "q = 8"
      with "1.prems" have "unat v < 128" by simp
      with True show False by (simp add: word_le_nat_alt)
    qed
    have "unat (drop_bit 7 v) < 2 ^ (63 - (m + 7))"
    proof -
      have "unat v < 2 ^ (63 - (m + 7)) * 2 ^ 7"
      proof -
        have "63 - m = 63 - (m + 7) + 7" using "1.prems" q by simp
        then show ?thesis using "1.prems"(2) by (simp only: power_add)
      qed
      then show ?thesis by (subst unat_drop_bit_eq) (simp add: drop_bit_eq_div div_less_iff_less_mult)
    qed
    with "1.IH" [OF True, of "m + 7" "Suc q" "a + push_bit m (v AND 127)"] "1.prems" q
    have "readVarInt_loop (a + push_bit m (v AND 127)) (m + 7) (varint_tail (drop_bit 7 v) @ rest) =
        Inr (a + push_bit m (v AND 127) + push_bit (m + 7) (drop_bit 7 v), rest)"
      by simp
    also have "a + push_bit m (v AND 127) + push_bit (m + 7) (drop_bit 7 v) = a + push_bit m v"
      using push_split [of m v] by (simp only: add.assoc)
    finally show ?thesis
      using True q "1.prems"
      by (subst varint_tail.simps) (simp add: low_seven high_bit Let_def del: push_bit_eq_0_iff)
  next
    case False
    then have "v < 128" by simp
    note sb = small_byte [OF this]
    show ?thesis using False by (subst varint_tail.simps) (simp add: sb Let_def)
  qed
qed

lemma prefix_value: "1 \<le> n \<Longrightarrow> n \<le> 8 \<Longrightarrow> unat (prefix_max n) = 2 ^ n - 1"
proof -
  assume "1 \<le> n" "n \<le> 8"
  then have "n = 1 \<or> n = 2 \<or> n = 3 \<or> n = 4 \<or> n = 5 \<or> n = 6 \<or> n = 7 \<or> n = 8" by linarith
  then show ?thesis by (elim disjE) (simp_all add: prefix_max_def)
qed

text \<open>The first byte keeps the prefix under any type bits above it.\<close>

lemma first_byte:
  assumes "1 \<le> n" "n \<le> 8" "unat i < 2 ^ n" and tag: "\<And>k. bit tag k \<Longrightarrow> n \<le> k"
  shows "(if n < 8 then ucast ((ucast i :: byte) OR tag) AND prefix_max n
          else ucast ((ucast i :: byte) OR tag)) = (i :: u64)"
proof -
  have m: "prefix_max n = mask n" by (simp add: prefix_max_def mask_eq_exp_minus_1)
  have i: "bit i k \<longrightarrow> k < n \<and> k < 8" for k using bit_lt_exp [OF assms(3), of k] assms(2) by auto
  have t: "bit tag k \<longrightarrow> n \<le> k \<and> k < 8" for k using tag bit_imp_le_length [of tag k] by auto
  show ?thesis
  proof (cases "n < 8")
    case True
    have "ucast ((ucast i :: byte) OR tag) AND mask n = (i :: u64)"
    proof (rule bit_word_eqI)
      fix k assume "k < LENGTH(64)"
      then show "bit (ucast ((ucast i :: byte) OR tag) AND mask n :: u64) k = bit i k"
        using i [of k] t [of k] assms(2) by (auto simp: bit_unsigned_iff bit_and_iff bit_or_iff bit_mask_iff)
    qed
    with True show ?thesis unfolding m by simp
  next
    case False
    with assms(2) have "n = 8" by simp
    then have "tag = 0" using t by (intro bit_word_eqI) force
    moreover have "ucast (ucast i :: byte) = i"
      by (rule bit_word_eqI) (use i in \<open>auto simp: bit_unsigned_iff\<close>)
    ultimately show ?thesis using False by simp
  qed
qed

lemma readVarInt_append:
  assumes "1 \<le> n" "n \<le> 8" and "unat i < 2 ^ 63" and tag: "\<And>k. bit tag k \<Longrightarrow> n \<le> k"
  shows "readVarInt n (or_first tag (appendVarInt [] n i) @ rest) = Some (Inr (i, rest))"
proof -
  let ?k = "prefix_max n"
  have k: "unat ?k = 2 ^ n - 1" by (rule prefix_value [OF assms(1,2)])
  show ?thesis
  proof (cases "i < ?k")
    case True
    then have "unat i < 2 ^ n" using k by (simp add: word_less_nat_alt)
    note fb = first_byte [OF assms(1,2) this tag]
    show ?thesis using True assms(1,2)
      by (simp add: readVarInt_def appendVarInt_def fb Let_def)
  next
    case False
    have "unat ?k < 2 ^ n" unfolding k by simp
    note fb = first_byte [OF assms(1,2) this tag]
    have le: "?k \<le> i" using False by simp
    have "unat (i - ?k) \<le> unat i" unfolding unat_diff_le [OF le] by simp
    then have "unat (i - ?k) < 2 ^ (63 - 0)" using assms(3) unfolding diff_zero by (rule le_less_trans)
    note loop = readVarInt_loop_tail [of 0 0, OF _ this, of ?k rest]
    have "?k + (i - ?k) = i" by simp
    with loop False assms(1,2) show ?thesis
      by (simp add: readVarInt_def appendVarInt_def fb Let_def)
  qed
qed

text \<open>HPACK integers survive the wire: for every prefix width from 1 to 8 and every value below
  2 to the power 63, reading what \<^verbatim>\<open>appendVarInt\<close> wrote, under any type bits above the prefix and
  followed by anything, yields the value and leaves exactly what followed.\<close>
theorem hpack_varint_roundtrip:
  assumes "1 \<le> n" "n \<le> 8" and "unat i < 2 ^ 63" and "\<forall>k. bit tag k \<longrightarrow> n \<le> k"
  shows "readVarInt n (or_first tag (appendVarInt [] n i) @ rest) = Some (Inr (i, rest))"
  using readVarInt_append assms by blast

theorem hpack_varint_roundtrip_witness:
  "appendVarInt [] 5 1337 = [31, 154, 10] \<and>
   readVarInt 5 ([31, 154, 10] @ [1, 2]) = Some (Inr (1337, [1, 2]))"
proof -
  have e: "appendVarInt [] 5 1337 = [31, 154, 10]" by code_simp
  have "\<forall>k. bit (0 :: byte) k \<longrightarrow> 5 \<le> k" by simp
  from hpack_varint_roundtrip [OF _ _ _ this, of 1337 "[1, 2]"] e show ?thesis by simp
qed

section \<open>Encoder and decoder state\<close>

record Encoder =
  enc_dynTab :: dynamicTable
  enc_minSize :: u32
  enc_maxSizeLimit :: u32
  enc_tableSizeUpdate :: bool

text \<open>\<open>dec_emitted\<close> are the fields handed to the callback, \<open>dec_saveBuf\<close> what \<^verbatim>\<open>Write\<close> could not parse yet.\<close>

record Decoder =
  dec_dynTab :: dynamicTable
  dec_emitted :: "HeaderField list"
  dec_emitEnabled :: bool
  dec_maxStrLen :: int
  dec_saveBuf :: bytes
  dec_firstField :: bool

definition initialHeaderTableSize :: u32 where "initialHeaderTableSize = 4096"

definition uint32Max :: u32 where "uint32Max = NOT 0"

text \<open>A dynamic table after \<^verbatim>\<open>table.init\<close>.\<close>

definition new_dynamicTable :: dynamicTable where
  "new_dynamicTable = \<lparr>dt_table = empty_table, dt_size = 0, dt_maxSize = 0, dt_allowedMaxSize = 0\<rparr>"

definition NewEncoder :: "Encoder option" where
  "NewEncoder =
     map_option (\<lambda>dt. \<lparr>enc_dynTab = dt, enc_minSize = uint32Max,
         enc_maxSizeLimit = initialHeaderTableSize, enc_tableSizeUpdate = False\<rparr>)
       (dynamicTable_setMaxSize new_dynamicTable initialHeaderTableSize)"

definition NewDecoder :: "u32 \<Rightarrow> Decoder option" where
  "NewDecoder maxDynamicTableSize =
     map_option (\<lambda>dt. \<lparr>dec_dynTab = dt, dec_emitted = [], dec_emitEnabled = True, dec_maxStrLen = 0, dec_saveBuf = [],
         dec_firstField = True\<rparr>)
       (dynamicTable_setMaxSize (new_dynamicTable\<lparr>dt_allowedMaxSize := maxDynamicTableSize\<rparr>)
          maxDynamicTableSize)"

definition Encoder_SetMaxDynamicTableSize :: "Encoder \<Rightarrow> u32 \<Rightarrow> Encoder option" where
  "Encoder_SetMaxDynamicTableSize e v =
     (let v = (if v > enc_maxSizeLimit e then enc_maxSizeLimit e else v);
          e1 = (if v < enc_minSize e then e\<lparr>enc_minSize := v\<rparr> else e);
          e2 = e1\<lparr>enc_tableSizeUpdate := True\<rparr>
      in map_option (\<lambda>dt. e2\<lparr>enc_dynTab := dt\<rparr>) (dynamicTable_setMaxSize (enc_dynTab e2) v))"

definition SetMaxDynamicTableSizeLimit :: "Encoder \<Rightarrow> u32 \<Rightarrow> Encoder option" where
  "SetMaxDynamicTableSizeLimit e v =
     (let e1 = e\<lparr>enc_maxSizeLimit := v\<rparr>
      in if dt_maxSize (enc_dynTab e1) > v then
           map_option (\<lambda>dt. e1\<lparr>enc_tableSizeUpdate := True, enc_dynTab := dt\<rparr>)
             (dynamicTable_setMaxSize (enc_dynTab e1) v)
         else Some e1)"

definition Decoder_SetMaxDynamicTableSize :: "Decoder \<Rightarrow> u32 \<Rightarrow> Decoder option" where
  "Decoder_SetMaxDynamicTableSize d v =
     map_option (\<lambda>dt. d\<lparr>dec_dynTab := dt\<rparr>) (dynamicTable_setMaxSize (dec_dynTab d) v)"

definition SetAllowedMaxDynamicTableSize :: "Decoder \<Rightarrow> u32 \<Rightarrow> Decoder" where
  "SetAllowedMaxDynamicTableSize d v = d\<lparr>dec_dynTab := (dec_dynTab d)\<lparr>dt_allowedMaxSize := v\<rparr>\<rparr>"

definition shouldIndex :: "Encoder \<Rightarrow> HeaderField \<Rightarrow> bool" where
  "shouldIndex e f \<longleftrightarrow> \<not> Sensitive f \<and> HeaderField_Size f \<le> dt_maxSize (enc_dynTab e)"

text \<open>The first part of \<^verbatim>\<open>WriteField\<close>: the table size updates that are due.\<close>

definition WriteField_sizes :: "Encoder \<Rightarrow> bytes \<times> Encoder" where
  "WriteField_sizes e =
     (if enc_tableSizeUpdate e then
        (let buf = (if enc_minSize e < dt_maxSize (enc_dynTab e)
                    then appendTableSize [] (enc_minSize e) else [])
         in (appendTableSize buf (dt_maxSize (enc_dynTab e)),
             e\<lparr>enc_tableSizeUpdate := False, enc_minSize := uint32Max\<rparr>))
      else ([], e))"

definition searchTable :: "Encoder \<Rightarrow> HeaderField \<Rightarrow> (nat \<times> bool) option" where
  "searchTable e f =
     (case table_search True staticTable f of
        None \<Rightarrow> None
      | Some (i, m) \<Rightarrow>
          if m then Some (i, True)
          else case table_search False (dt_table (enc_dynTab e)) f of
            None \<Rightarrow> None
          | Some (j, m') \<Rightarrow>
              if m' \<or> (i = 0 \<and> j \<noteq> 0) then Some (j + length (ents staticTable), m')
              else Some (i, False))"

definition maxTableIndex :: "Decoder \<Rightarrow> nat" where
  "maxTableIndex d = length (ents (dt_table (dec_dynTab d))) + length (ents staticTable)"

definition Decoder_at :: "Decoder \<Rightarrow> nat \<Rightarrow> HeaderField option" where
  "Decoder_at d i =
     (if i = 0 then None
      else if i \<le> length (ents staticTable) then Some (ents staticTable ! (i - 1))
      else if i > maxTableIndex d then None
      else
        let dt = dt_table (dec_dynTab d)
        in Some (ents dt ! (length (ents dt) - (i - length (ents staticTable)))))"

text \<open>\<^verbatim>\<open>parseDynamicTableSizeUpdate\<close> on the unparsed buffer; \<open>None\<close> is a panic.\<close>

definition parseDynamicTableSizeUpdate :: "Decoder \<Rightarrow> bytes \<Rightarrow> (hpack_err + Decoder \<times> bytes) option" where
  "parseDynamicTableSizeUpdate d buf =
     (if \<not> dec_firstField d \<and> dt_size (dec_dynTab d) > 0
      then Some (Inl (DecodingError
        ''dynamic table size update MUST occur at the beginning of a header block''))
      else case readVarInt 5 buf of
        None \<Rightarrow> None
      | Some (Inl e) \<Rightarrow> Some (Inl e)
      | Some (Inr (sz, rest)) \<Rightarrow>
          if sz > ucast (dt_allowedMaxSize (dec_dynTab d))
          then Some (Inl (DecodingError ''dynamic table size update too large''))
          else map_option (\<lambda>dt. Inr (d\<lparr>dec_dynTab := dt\<rparr>, rest))
                 (dynamicTable_setMaxSize (dec_dynTab d) (ucast sz)))"

section \<open>Searches\<close>

lemma static_search_spec:
  assumes "table_search True staticTable f = Some (i, m)"
  shows "i = 0 \<and> \<not> m \<or> 1 \<le> i \<and> i \<le> length (ents staticTable) \<and>
    Name (ents staticTable ! (i - 1)) = Name f \<and> (m \<longrightarrow> Value (ents staticTable ! (i - 1)) = Value f)"
proof -
  have c: "evictCount staticTable = 0" by (simp add: staticTable_def)
  have nv: "byNameValue staticTable (Name f, Value f) = Some uid \<Longrightarrow>
      \<exists>k. uid = k + 1 \<and> is_newest (\<lambda>g. Name g = Name f \<and> Value g = Value f) (ents staticTable) k" for uid
    using table_ok_static by (auto simp: table_ok_def indexes_def c)
  have nm: "byName staticTable (Name f) = Some uid \<Longrightarrow>
      \<exists>k. uid = k + 1 \<and> is_newest (\<lambda>g. Name g = Name f) (ents staticTable) k" for uid
    using table_ok_static by (auto simp: table_ok_def indexes_def c)
  from assms show ?thesis
    unfolding table_search_def
    by (auto simp: idToIndex_def c is_newest_def dest!: nv nm split: option.splits if_splits)
qed

lemma dynamic_search_spec:
  assumes "table_ok t" and "table_search False t f = Some (i, m)"
  shows "i = 0 \<and> \<not> m \<or> 1 \<le> i \<and> i \<le> length (ents t) \<and>
    Name (ents t ! (length (ents t) - i)) = Name f \<and> (m \<longrightarrow> Value (ents t ! (length (ents t) - i)) = Value f)"
  using table_search_sound [OF assms(1), of f] assms(2)
  by (auto simp: is_newest_def split: bool.splits if_splits)

definition demo_encoder :: Encoder where
  "demo_encoder = \<lparr>enc_dynTab = demo_dynamic, enc_minSize = uint32Max, enc_maxSizeLimit = 4096, enc_tableSizeUpdate = False\<rparr>"

definition demo_decoder :: Decoder where
  "demo_decoder = \<lparr>dec_dynTab = demo_dynamic, dec_emitted = [], dec_emitEnabled = True, dec_maxStrLen = 0, dec_saveBuf = [],
     dec_firstField = True\<rparr>"

section \<open>Size updates\<close>

text \<open>The newest entries that fit.\<close>

primrec fit :: "nat \<Rightarrow> HeaderField list \<Rightarrow> HeaderField list" where
  "fit mx [] = []"
| "fit mx (f # fs) = (if table_bytes (f # fs) \<le> mx then f # fs else fit mx fs)"

lemma fit_drop:
  "n \<le> length fs \<Longrightarrow> table_bytes (drop n fs) \<le> mx \<Longrightarrow> (\<forall>m < n. mx < table_bytes (drop m fs)) \<Longrightarrow>
   fit mx fs = drop n fs"
proof (induction fs arbitrary: n)
  case (Cons f fs)
  show ?case
  proof (cases n)
    case 0
    with Cons.prems show ?thesis by simp
  next
    case (Suc k)
    have "mx < table_bytes (drop 0 (f # fs))" using Cons.prems(3) Suc by blast
    moreover have "fit mx fs = drop k fs"
      by (rule Cons.IH) (use Cons.prems Suc in auto)
    ultimately show ?thesis by (simp add: Suc)
  qed
qed simp

lemma fit_all: "table_bytes fs \<le> mx \<Longrightarrow> fit mx fs = fs"
  by (cases fs) simp_all

lemma fit_min: "table_bytes fs \<le> b \<Longrightarrow> fit (min a b) fs = fit a fs"
  by (induction fs) auto

lemma fit_fit: "fit a (fit b fs) = fit (min a b) fs"
proof (induction fs)
  case (Cons f fs)
  then show ?case
  proof (cases "table_bytes (f # fs) \<le> b")
    case True
    with fit_min [OF True, of a] show ?thesis by simp
  qed auto
qed simp

definition roomy :: "dynamicTable \<Rightarrow> bool" where
  "roomy dt \<longleftrightarrow> dynamic_ok dt \<and> evictCount (dt_table dt) + length (ents (dt_table dt)) < 2 ^ 64"

lemma setMaxSize_fit:
  assumes "roomy dt"
  shows "\<exists>dt'. dynamicTable_setMaxSize dt v = Some dt' \<and> roomy dt' \<and> dt_maxSize dt' = v \<and>
    dt_allowedMaxSize dt' = dt_allowedMaxSize dt \<and> ents (dt_table dt') = fit (unat v) (ents (dt_table dt))"
proof -
  from assms have "table_ok (dt_table dt)" "unat (dt_size dt) = table_bytes (ents (dt_table dt))"
    "evictCount (dt_table dt) + length (ents (dt_table dt)) < 2 ^ 64"
    by (simp_all add: roomy_def dynamic_ok_def)
  with dynamicTable_evict_spec [of "dt\<lparr>dt_maxSize := v\<rparr>"] obtain n dt' where
    d: "dynamicTable_evict (dt\<lparr>dt_maxSize := v\<rparr>) = Some dt'" "dynamic_ok dt'" "dt_maxSize dt' = v"
    "dt_allowedMaxSize dt' = dt_allowedMaxSize dt" "n \<le> length (ents (dt_table dt))"
    "ents (dt_table dt') = drop n (ents (dt_table dt))" "evictCount (dt_table dt') = evictCount (dt_table dt) + n"
    "\<forall>m < n. unat v < table_bytes (drop m (ents (dt_table dt)))"
    by auto
  have "table_bytes (drop n (ents (dt_table dt))) \<le> unat v"
    using d(2,3,6) by (simp add: dynamic_ok_def word_le_nat_alt)
  from fit_drop [OF d(5) this d(8)] d assms show ?thesis
    by (auto simp: dynamicTable_setMaxSize_def roomy_def)
qed

lemma unat_ucast_32_64: "unat (ucast (v :: u32) :: u64) = unat v"
proof -
  have "unat v < 2 ^ 64" using unsigned_less [of v, where ?'a = nat] by simp
  then show ?thesis by (simp add: unsigned_ucast_eq take_bit_nat_eq_self)
qed

lemma tag_0x20: "bit (0x20 :: byte) k \<Longrightarrow> 5 \<le> k"
  using bit_exp_iff [of 5 k, where 'a = byte] by auto

lemma appendTableSize_split: "appendTableSize (appendTableSize [] a) b = appendTableSize [] a @ appendTableSize [] b"
  by (simp add: appendTableSize_def)

lemma appendTableSize_nonempty: "appendTableSize [] v \<noteq> []"
  by (simp add: appendTableSize_def appendVarInt_def Let_def)

lemma roomy_demo: "roomy demo_dynamic"
proof -
  have "table_ok demo_table" by (simp add: demo_table_def table_ok_addEntry table_ok_empty)
  then show ?thesis
    by (simp add: roomy_def dynamic_ok_def demo_dynamic_def)
       (simp add: demo_table_def addEntry_def empty_table_def field_bytes_def field_def)
qed

end
