(* ===== verification/H2_Flow.thy ===== *)
theory H2_Flow
  imports Go_Errors
begin

text \<open>
  third\_party/net/http2/flow.go: the flow-control windows of the HTTP/2 connection that carries
  the sessions. The counters are 32-bit two's complement words, compared by their signed value
  and added with wrap-around as in the source; a panic is \<open>None\<close>.
\<close>

type_synonym i32 = "32 word"

abbreviation s32 :: "i32 \<Rightarrow> int" where "s32 x \<equiv> sint x"

section \<open>Inbound windows\<close>

definition inflowMinRefresh :: int where "inflowMinRefresh = 4 * 2 ^ 10"

record inflow =
  avail :: i32
  unsent :: i32

definition inflow_init :: "inflow \<Rightarrow> i32 \<Rightarrow> inflow" where
  "inflow_init f n = f\<lparr>avail := n\<rparr>"

text \<open>The sum is formed in 64 bits.\<close>

definition inflow_add :: "inflow \<Rightarrow> int \<Rightarrow> (i32 \<times> inflow) option" where
  "inflow_add f n =
     (if n < 0 then None
      else
        let sum = (of_int (s32 (unsent f)) + of_int n :: 64 word)
        in if sint (sum + of_int (s32 (avail f))) > 2 ^ 31 - 1 then None
           else
             let f1 = f\<lparr>unsent := ucast sum\<rparr>
             in if s32 (unsent f1) < inflowMinRefresh \<and> s32 (unsent f1) < s32 (avail f1)
                then Some (0, f1)
                else Some (ucast sum, f1\<lparr>avail := avail f1 + unsent f1, unsent := 0\<rparr>))"

definition inflow_take :: "inflow \<Rightarrow> u32 \<Rightarrow> bool \<times> inflow" where
  "inflow_take f n = (if n > avail f then (False, f) else (True, f\<lparr>avail := avail f - n\<rparr>))"

definition takeInflows :: "inflow \<Rightarrow> inflow \<Rightarrow> u32 \<Rightarrow> bool \<times> inflow \<times> inflow" where
  "takeInflows f1 f2 n =
     (if n > avail f1 \<or> n > avail f2 then (False, f1, f2)
      else (True, f1\<lparr>avail := avail f1 - n\<rparr>, f2\<lparr>avail := avail f2 - n\<rparr>))"

section \<open>Outbound windows\<close>

text \<open>A stream's window and the connection's, which it shares with the other streams.\<close>

record outflow =
  of_n :: i32
  of_conn :: "i32 option"

definition setConnFlow :: "outflow \<Rightarrow> i32 \<Rightarrow> outflow" where
  "setConnFlow f cf = f\<lparr>of_conn := Some cf\<rparr>"

definition outflow_available :: "outflow \<Rightarrow> i32" where
  "outflow_available f =
     (case of_conn f of
        Some c \<Rightarrow> if s32 c < s32 (of_n f) then c else of_n f
      | None \<Rightarrow> of_n f)"

definition outflow_take :: "outflow \<Rightarrow> i32 \<Rightarrow> outflow option" where
  "outflow_take f n =
     (if s32 n > s32 (outflow_available f) then None
      else Some (f\<lparr>of_n := of_n f - n, of_conn := map_option (\<lambda>c. c - n) (of_conn f)\<rparr>))"

definition outflow_add :: "outflow \<Rightarrow> i32 \<Rightarrow> bool \<times> outflow" where
  "outflow_add f n =
     (let sum = of_n f + n
      in if (s32 sum > s32 n) = (s32 (of_n f) > 0) then (True, f\<lparr>of_n := sum\<rparr>)
         else (False, f))"

section \<open>Signed arithmetic\<close>

lemma s32_range: "- (2 ^ 31) \<le> s32 x" "s32 x < 2 ^ 31"
  using sint_greater_eq [of x] sint_less [of x] by simp_all

lemma s32_add: "s32 (x + y) = signed_take_bit 31 (s32 x + s32 y)"
  by (simp add: sint_word_ariths)

lemma signed_take_bit_31: "- (2 ^ 31) \<le> k \<Longrightarrow> k < 2 ^ 31 \<Longrightarrow> signed_take_bit 31 k = (k :: int)"
  by (rule signed_take_bit_int_eq_self) simp_all

lemma signed_take_bit_31_period: "signed_take_bit 31 (k + 2 ^ 32) = signed_take_bit 31 (k :: int)"
proof -
  have "(k + 2 ^ 32 + 2 ^ 31) mod 2 ^ 32 = (k + 2 ^ 31) mod (2 ^ 32 :: int)"
    using mod_add_self2 [of "k + 2 ^ 31" "2 ^ 32 :: int"] by (simp only: ac_simps)
  then show ?thesis
    by (simp only: signed_take_bit_eq_take_bit_shift take_bit_eq_mod Suc_numeral semiring_norm)
qed

lemma signed_take_bit_31_over: "2 ^ 31 \<le> k \<Longrightarrow> k < 2 ^ 32 \<Longrightarrow> signed_take_bit 31 k = (k :: int) - 2 ^ 32"
  using signed_take_bit_31_period [of "k - 2 ^ 32"] signed_take_bit_31 [of "k - 2 ^ 32"] by simp

lemma signed_take_bit_31_under: "- (2 ^ 32) \<le> k \<Longrightarrow> k < - (2 ^ 31) \<Longrightarrow> signed_take_bit 31 k = (k :: int) + 2 ^ 32"
  using signed_take_bit_31_period [of k] signed_take_bit_31 [of "k + 2 ^ 32"] by simp

lemma outflow_add_cases:
  "outflow_add f n =
     (if - (2 ^ 31) \<le> s32 (of_n f) + s32 n \<and> s32 (of_n f) + s32 n < 2 ^ 31
      then (True, f\<lparr>of_n := of_int (s32 (of_n f) + s32 n)\<rparr>) else (False, f))"
proof -
  let ?a = "s32 (of_n f)" and ?b = "s32 n"
  have r: "- (2 ^ 31) \<le> ?a" "?a < 2 ^ 31" "- (2 ^ 31) \<le> ?b" "?b < 2 ^ 31" by (rule s32_range)+
  have sum: "of_int (?a + ?b) = of_n f + n" by simp
  consider (ok) "- (2 ^ 31) \<le> ?a + ?b" "?a + ?b < 2 ^ 31" | (over) "2 ^ 31 \<le> ?a + ?b"
    | (under) "?a + ?b < - (2 ^ 31)" by linarith
  then show ?thesis
  proof cases
    case ok
    then have "s32 (of_n f + n) = ?a + ?b" by (simp add: s32_add signed_take_bit_31)
    with ok sum show ?thesis by (simp add: outflow_add_def)
  next
    case over
    with r have "s32 (of_n f + n) = ?a + ?b - 2 ^ 32"
      by (simp add: s32_add signed_take_bit_31_over)
    with over r show ?thesis by (simp add: outflow_add_def)
  next
    case under
    with r have "s32 (of_n f + n) = ?a + ?b + 2 ^ 32"
      by (simp add: s32_add signed_take_bit_31_under)
    with under r show ?thesis by (simp add: outflow_add_def)
  qed
qed

text \<open>The overflow test of \<^verbatim>\<open>outflow.add\<close> is exact: the window is changed, and true is returned, if
  and only if the sum of the two signed values is a 32-bit value, and then the new window is that
  sum; otherwise the window is left alone.\<close>
theorem outflow_add_exact:
  "outflow_add f n =
     (if - (2 ^ 31) \<le> s32 (of_n f) + s32 n \<and> s32 (of_n f) + s32 n < 2 ^ 31
      then (True, f\<lparr>of_n := of_int (s32 (of_n f) + s32 n)\<rparr>) else (False, f))"
  by (rule outflow_add_cases)

section \<open>Inbound accounting\<close>

definition inflow_ok :: "inflow \<Rightarrow> bool" where
  "inflow_ok f \<longleftrightarrow> 0 \<le> s32 (avail f) \<and> 0 \<le> s32 (unsent f) \<and> s32 (avail f) + s32 (unsent f) < 2 ^ 31"

lemma s32_of_int: "- (2 ^ 31) \<le> k \<Longrightarrow> k < 2 ^ 31 \<Longrightarrow> s32 (of_int k) = k"
  by (simp add: sint_sbintrunc' signed_take_bit_31)

lemma s64_of_int: "- (2 ^ 63) \<le> k \<Longrightarrow> k < 2 ^ 63 \<Longrightarrow> sint (of_int k :: 64 word) = k"
  by (simp add: sint_sbintrunc' signed_take_bit_int_eq_self)

lemma ucast_of_int_64_32: "(ucast (of_int k :: 64 word) :: 32 word) = of_int k"
  by (rule bit_word_eqI) (simp add: bit_simps)

lemma inflow_add_cases:
  assumes "inflow_ok f" and "0 \<le> n" and "n < 2 ^ 62"
  shows "inflow_add f n =
    (if s32 (avail f) + s32 (unsent f) + n \<ge> 2 ^ 31 then None
     else if s32 (unsent f) + n < 4096 \<and> s32 (unsent f) + n < s32 (avail f)
     then Some (0, f\<lparr>unsent := of_int (s32 (unsent f) + n)\<rparr>)
     else Some (of_int (s32 (unsent f) + n),
                f\<lparr>avail := of_int (s32 (avail f) + s32 (unsent f) + n), unsent := 0\<rparr>))"
proof -
  let ?u = "s32 (unsent f) + n" and ?a = "s32 (avail f)"
  have ok: "0 \<le> ?a" "0 \<le> s32 (unsent f)" "?a + s32 (unsent f) < 2 ^ 31" "?a < 2 ^ 31"
    using assms(1) s32_range [of "avail f"] by (auto simp: inflow_ok_def)
  have sum: "of_int (s32 (unsent f)) + of_int n = (of_int ?u :: 64 word)" by simp
  have tot: "sint (of_int ?u + of_int ?a :: 64 word) = ?u + ?a"
    using s64_of_int [of "?u + ?a"] ok assms by simp
  have avail: "avail f + of_int ?u = of_int (?a + s32 (unsent f) + n)" by (simp add: add.assoc)
  show ?thesis
  proof (cases "?u + ?a \<ge> 2 ^ 31")
    case True
    with tot assms(2) show ?thesis unfolding inflow_add_def sum Let_def by simp
  next
    case False
    then have "s32 (of_int ?u) = ?u" using ok assms by (intro s32_of_int) simp_all
    with False tot assms(2) avail show ?thesis
      unfolding inflow_add_def sum Let_def ucast_of_int_64_32
      by (simp add: inflowMinRefresh_def ac_simps)
  qed
qed

text \<open>An inbound window loses nothing: adding \<open>n\<close> consumed bytes panics exactly when the window
  would exceed the protocol's maximum, and otherwise the announced and the withheld window together
  grow by \<open>n\<close>, the returned update is exactly what the announced window grew by, and an
  update is withheld only while it is below 4096 bytes and below the announced window.\<close>
theorem inflow_add_conserves:
  assumes "inflow_ok f" and "0 \<le> n" and "n < 2 ^ 62"
  shows "case inflow_add f n of
      None \<Rightarrow> 2 ^ 31 - 1 < s32 (avail f) + s32 (unsent f) + n
    | Some (w, f') \<Rightarrow> inflow_ok f' \<and>
        s32 (avail f') + s32 (unsent f') = s32 (avail f) + s32 (unsent f) + n \<and>
        s32 w = s32 (avail f') - s32 (avail f) \<and>
        (w = 0 \<longrightarrow> s32 (unsent f') < 4096 \<and> s32 (unsent f') < s32 (avail f') \<or> n = 0 \<and> s32 (unsent f) = 0)"
proof -
  let ?u = "s32 (unsent f) + n" and ?a = "s32 (avail f)"
  have ok: "0 \<le> ?a" "0 \<le> s32 (unsent f)" "?a + s32 (unsent f) < 2 ^ 31" "?a < 2 ^ 31"
    using assms(1) s32_range [of "avail f"] by (auto simp: inflow_ok_def)
  show ?thesis
  proof (cases "?a + s32 (unsent f) + n \<ge> 2 ^ 31")
    case True
    then show ?thesis by (simp add: inflow_add_cases [OF assms])
  next
    case False
    then have s: "s32 (of_int ?u) = ?u" "s32 (of_int (?a + s32 (unsent f) + n)) = ?a + s32 (unsent f) + n"
      using ok assms by (intro s32_of_int; simp)+
    have z: "?u = 0" if "of_int ?u = (0 :: i32)" using s(1) that by simp
    show ?thesis
    proof (cases "?u < 4096 \<and> ?u < ?a")
      case True
      with False s(1) ok assms(2) show ?thesis
        by (simp add: inflow_add_cases [OF assms] inflow_ok_def del: of_int_add)
    next
      case no: False
      with False s ok assms(2) z show ?thesis
        by (simp add: inflow_add_cases [OF assms] inflow_ok_def del: of_int_add) auto
    qed
  qed
qed

theorem inflow_add_conserves_witness:
  "inflow_add \<lparr>avail = 10000, unsent = 4000\<rparr> 96 = Some (4096, \<lparr>avail = 14096, unsent = 0\<rparr>) \<and>
   inflow_ok \<lparr>avail = 14096, unsent = 0\<rparr>"
proof -
  have e: "inflow_add \<lparr>avail = 10000, unsent = 4000\<rparr> 96 = Some (4096, \<lparr>avail = 14096, unsent = 0\<rparr>)"
    by code_simp
  have "inflow_ok \<lparr>avail = 10000, unsent = 4000\<rparr>" by (simp add: inflow_ok_def)
  from inflow_add_conserves [OF this, of 96] e show ?thesis by simp
qed

end
