(* ===== verification/H2_Settings.thy ===== *)
theory H2_Settings
  imports Hpack_Codec H2_Flow
begin

unbundle bit_operations_syntax

text \<open>
  HTTP/2 SETTINGS: the identifiers, names and validity rules of http2.go, the payload of a SETTINGS
  frame of frame.go, the WebTransport settings of webtransport\_settings.go, and how a server
  connection (server.go) and a client connection (transport.go) process a SETTINGS frame. The
  connection records have the fields that processing touches. A \<open>None\<close> result is the panic of the
  header table of the HPACK encoder, which its invariant rules out.
\<close>

section \<open>Settings\<close>

type_synonym SettingID = u16

record Setting =
  ID :: SettingID
  Val :: u32

definition SettingHeaderTableSize :: SettingID where "SettingHeaderTableSize = 0x1"
definition SettingEnablePush :: SettingID where "SettingEnablePush = 0x2"
definition SettingMaxConcurrentStreams :: SettingID where "SettingMaxConcurrentStreams = 0x3"
definition SettingInitialWindowSize :: SettingID where "SettingInitialWindowSize = 0x4"
definition SettingMaxFrameSize :: SettingID where "SettingMaxFrameSize = 0x5"
definition SettingMaxHeaderListSize :: SettingID where "SettingMaxHeaderListSize = 0x6"
definition SettingEnableConnectProtocol :: SettingID where "SettingEnableConnectProtocol = 0x8"
definition SettingNoRFC7540Priorities :: SettingID where "SettingNoRFC7540Priorities = 0x9"

definition SettingWTEnabled :: SettingID where "SettingWTEnabled = 0x2b60"
definition SettingWTInitialMaxData :: SettingID where "SettingWTInitialMaxData = 0x2b61"
definition SettingWTInitialMaxStreamDataUni :: SettingID where
  "SettingWTInitialMaxStreamDataUni = 0x2b62"
definition SettingWTInitialMaxStreamDataBidiLocal :: SettingID where
  "SettingWTInitialMaxStreamDataBidiLocal = 0x2b63"
definition SettingWTInitialMaxStreamsUni :: SettingID where "SettingWTInitialMaxStreamsUni = 0x2b64"
definition SettingWTInitialMaxStreamsBidi :: SettingID where
  "SettingWTInitialMaxStreamsBidi = 0x2b65"
definition SettingWTInitialMaxStreamDataBidiRemote :: SettingID where
  "SettingWTInitialMaxStreamDataBidiRemote = 0x2b66"

lemmas setting_ids =
  SettingHeaderTableSize_def SettingEnablePush_def SettingMaxConcurrentStreams_def
  SettingInitialWindowSize_def SettingMaxFrameSize_def SettingMaxHeaderListSize_def
  SettingEnableConnectProtocol_def SettingNoRFC7540Priorities_def SettingWTEnabled_def
  SettingWTInitialMaxData_def SettingWTInitialMaxStreamDataUni_def
  SettingWTInitialMaxStreamDataBidiLocal_def SettingWTInitialMaxStreamsUni_def
  SettingWTInitialMaxStreamsBidi_def SettingWTInitialMaxStreamDataBidiRemote_def

text \<open>The map of names, with the entries that the init function adds.\<close>

definition settingName :: "(SettingID \<times> string) list" where
  "settingName =
    [(SettingHeaderTableSize, ''HEADER_TABLE_SIZE''),
     (SettingEnablePush, ''ENABLE_PUSH''),
     (SettingMaxConcurrentStreams, ''MAX_CONCURRENT_STREAMS''),
     (SettingInitialWindowSize, ''INITIAL_WINDOW_SIZE''),
     (SettingMaxFrameSize, ''MAX_FRAME_SIZE''),
     (SettingMaxHeaderListSize, ''MAX_HEADER_LIST_SIZE''),
     (SettingEnableConnectProtocol, ''ENABLE_CONNECT_PROTOCOL''),
     (SettingNoRFC7540Priorities, ''NO_RFC7540_PRIORITIES''),
     (SettingWTEnabled, ''WT_ENABLED''),
     (SettingWTInitialMaxData, ''WT_INITIAL_MAX_DATA''),
     (SettingWTInitialMaxStreamDataUni, ''WT_INITIAL_MAX_STREAM_DATA_UNI''),
     (SettingWTInitialMaxStreamDataBidiLocal, ''WT_INITIAL_MAX_STREAM_DATA_BIDI_LOCAL''),
     (SettingWTInitialMaxStreamsUni, ''WT_INITIAL_MAX_STREAMS_UNI''),
     (SettingWTInitialMaxStreamsBidi, ''WT_INITIAL_MAX_STREAMS_BIDI''),
     (SettingWTInitialMaxStreamDataBidiRemote, ''WT_INITIAL_MAX_STREAM_DATA_BIDI_REMOTE'')]"

definition SettingID_String :: "SettingID \<Rightarrow> string" where
  "SettingID_String s =
     (case map_of settingName s of
        Some v \<Rightarrow> v
      | None \<Rightarrow> ''UNKNOWN_SETTING_'' @ fmt_d (unat s))"

definition Setting_String :: "Setting \<Rightarrow> string" where
  "Setting_String s = ''['' @ SettingID_String (ID s) @ '' = '' @ fmt_d (unat (Val s)) @ '']''"

definition Setting_Valid :: "Setting \<Rightarrow> go_err option" where
  "Setting_Valid s =
     (if ID s = SettingEnablePush then
        (if Val s \<noteq> 1 \<and> Val s \<noteq> 0 then Some (H2ConnectionError ErrCodeProtocol) else None)
      else if ID s = SettingInitialWindowSize then
        (if Val s > 0x7fffffff then Some (H2ConnectionError ErrCodeFlowControl) else None)
      else if ID s = SettingMaxFrameSize then
        (if Val s < 16384 \<or> Val s > 0xffffff then Some (H2ConnectionError ErrCodeProtocol) else None)
      else if ID s = SettingEnableConnectProtocol then
        (if Val s \<noteq> 1 \<and> Val s \<noteq> 0 then Some (H2ConnectionError ErrCodeProtocol) else None)
      else if ID s = SettingWTEnabled then
        (if Val s > 1 then Some (H2ConnectionError ErrCodeProtocol) else None)
      else None)"

section \<open>The payload of a SETTINGS frame\<close>

definition NumSettings :: "bytes \<Rightarrow> nat" where "NumSettings p = length p div 6"

definition SettingsFrame_Setting :: "bytes \<Rightarrow> nat \<Rightarrow> Setting" where
  "SettingsFrame_Setting p i =
    \<lparr>ID = be_get16 (take 2 (drop (i * 6) p)), Val = be_get32 (take 4 (drop (i * 6 + 2) p))\<rparr>"

definition SettingsFrame_Value :: "bytes \<Rightarrow> SettingID \<Rightarrow> u32 option" where
  "SettingsFrame_Value p sid =
     map_option Val (find (\<lambda>s. ID s = sid) (map (SettingsFrame_Setting p) [0..<NumSettings p]))"

text \<open>The quadratic search for fewer than ten settings, and the one with a set.\<close>

definition dup_scan :: "SettingID list \<Rightarrow> bool" where
  "dup_scan ids = list_ex (\<lambda>i. list_ex (\<lambda>j. ids ! i = ids ! j) [i + 1..<length ids]) [0..<length ids]"

fun dup_seen :: "SettingID list \<Rightarrow> SettingID list \<Rightarrow> bool" where
  "dup_seen seen [] = False"
| "dup_seen seen (i # is) = (if i \<in> set seen then True else dup_seen (i # seen) is)"

definition HasDuplicates :: "bytes \<Rightarrow> bool" where
  "HasDuplicates p =
     (let num = NumSettings p;
          ids = map (\<lambda>i. ID (SettingsFrame_Setting p i)) [0..<num]
      in if num = 0 then False
         else if num < 10 then dup_scan ids
         else dup_seen [] ids)"

text \<open>The payload \<^verbatim>\<open>WriteSettings\<close> writes.\<close>

definition settings_payload :: "Setting list \<Rightarrow> bytes" where
  "settings_payload ss = concat (map (\<lambda>s. be_put16 (ID s) @ be_put32 (Val s)) ss)"

text \<open>\<^verbatim>\<open>ForeachSetting\<close>, the state threaded through the callback.\<close>

fun foreach :: "('s \<Rightarrow> Setting \<Rightarrow> (go_err option \<times> 's) option) \<Rightarrow> 's \<Rightarrow> Setting list \<Rightarrow>
   (go_err option \<times> 's) option" where
  "foreach fn s [] = Some (None, s)"
| "foreach fn s (x # xs) =
     (case fn s x of
        None \<Rightarrow> None
      | Some (Some e, s') \<Rightarrow> Some (Some e, s')
      | Some (None, s') \<Rightarrow> foreach fn s' xs)"

definition frame_settings :: "bytes \<Rightarrow> Setting list" where
  "frame_settings p = map (SettingsFrame_Setting p) [0..<NumSettings p]"

definition ForeachSetting :: "('s \<Rightarrow> Setting \<Rightarrow> (go_err option \<times> 's) option) \<Rightarrow> 's \<Rightarrow> bytes \<Rightarrow>
   (go_err option \<times> 's) option" where
  "ForeachSetting fn s p = foreach fn s (frame_settings p)"

section \<open>WebTransport settings\<close>

record WebTransportSettings =
  Enabled :: bool
  InitialMaxData :: u32
  InitialMaxStreamDataUni :: u32
  InitialMaxStreamDataBidiLocal :: u32
  InitialMaxStreamDataBidiRemote :: u32
  InitialMaxStreamsUni :: u32
  InitialMaxStreamsBidi :: u32

definition zero_WebTransportSettings :: WebTransportSettings where
  "zero_WebTransportSettings =
    \<lparr>Enabled = False, InitialMaxData = 0, InitialMaxStreamDataUni = 0,
     InitialMaxStreamDataBidiLocal = 0, InitialMaxStreamDataBidiRemote = 0,
     InitialMaxStreamsUni = 0, InitialMaxStreamsBidi = 0\<rparr>"

definition DefaultWebTransportSettings :: WebTransportSettings where
  "DefaultWebTransportSettings =
     (let maxData = 2 ^ 20; maxStreams = 100
      in \<lparr>Enabled = True, InitialMaxData = maxData, InitialMaxStreamDataUni = maxData,
          InitialMaxStreamDataBidiLocal = maxData, InitialMaxStreamDataBidiRemote = maxData,
          InitialMaxStreamsUni = maxStreams, InitialMaxStreamsBidi = maxStreams\<rparr>)"

definition DefaultClientWebTransportSettings :: WebTransportSettings where
  "DefaultClientWebTransportSettings = DefaultWebTransportSettings\<lparr>Enabled := False\<rparr>"

definition wt_settings :: "WebTransportSettings option \<Rightarrow> Setting list" where
  "wt_settings s =
     (case s of
        None \<Rightarrow> []
      | Some s \<Rightarrow>
          (if Enabled s then [\<lparr>ID = SettingWTEnabled, Val = 1\<rparr>] else []) @
          [\<lparr>ID = SettingWTInitialMaxData, Val = InitialMaxData s\<rparr>,
           \<lparr>ID = SettingWTInitialMaxStreamDataUni, Val = InitialMaxStreamDataUni s\<rparr>,
           \<lparr>ID = SettingWTInitialMaxStreamDataBidiLocal, Val = InitialMaxStreamDataBidiLocal s\<rparr>,
           \<lparr>ID = SettingWTInitialMaxStreamDataBidiRemote, Val = InitialMaxStreamDataBidiRemote s\<rparr>,
           \<lparr>ID = SettingWTInitialMaxStreamsUni, Val = InitialMaxStreamsUni s\<rparr>,
           \<lparr>ID = SettingWTInitialMaxStreamsBidi, Val = InitialMaxStreamsBidi s\<rparr>])"

definition peer_apply :: "WebTransportSettings \<Rightarrow> Setting \<Rightarrow> bool \<times> WebTransportSettings" where
  "peer_apply p s =
     (if ID s = SettingWTEnabled then (True, p\<lparr>Enabled := (Val s = 1)\<rparr>)
      else if ID s = SettingWTInitialMaxData then (True, p\<lparr>InitialMaxData := Val s\<rparr>)
      else if ID s = SettingWTInitialMaxStreamDataUni then
        (True, p\<lparr>InitialMaxStreamDataUni := Val s\<rparr>)
      else if ID s = SettingWTInitialMaxStreamDataBidiLocal then
        (True, p\<lparr>InitialMaxStreamDataBidiLocal := Val s\<rparr>)
      else if ID s = SettingWTInitialMaxStreamDataBidiRemote then
        (True, p\<lparr>InitialMaxStreamDataBidiRemote := Val s\<rparr>)
      else if ID s = SettingWTInitialMaxStreamsUni then (True, p\<lparr>InitialMaxStreamsUni := Val s\<rparr>)
      else if ID s = SettingWTInitialMaxStreamsBidi then (True, p\<lparr>InitialMaxStreamsBidi := Val s\<rparr>)
      else (False, p))"

definition is_wt_setting :: "SettingID \<Rightarrow> bool" where
  "is_wt_setting i \<longleftrightarrow> i = SettingWTEnabled \<or> i = SettingWTInitialMaxData \<or>
     i = SettingWTInitialMaxStreamDataUni \<or> i = SettingWTInitialMaxStreamDataBidiLocal \<or>
     i = SettingWTInitialMaxStreamDataBidiRemote \<or> i = SettingWTInitialMaxStreamsUni \<or>
     i = SettingWTInitialMaxStreamsBidi"

section \<open>The server\<close>

record serverConn =
  unackedSettings :: int
  needToSendSettingsAck :: bool
  hpackEncoder :: Encoder
  pushEnabled :: bool
  clientMaxStreams :: u32
  initialStreamSendWindowSize :: i32
  sc_streams :: "(u32 \<times> outflow) list"
  sc_maxFrameSize :: i32
  sc_peerMaxHeaderListSize :: u32
  sc_peerWebTransport :: WebTransportSettings

text \<open>The loop over the streams, in any order; it stops at the first window that overflows.\<close>

fun grow_windows :: "i32 \<Rightarrow> (u32 \<times> outflow) list \<Rightarrow> bool \<times> (u32 \<times> outflow) list" where
  "grow_windows d [] = (True, [])"
| "grow_windows d (x # xs) =
     (case outflow_add (snd x) d of
        (True, f) \<Rightarrow> (let r = grow_windows d xs in (fst r, (fst x, f) # snd r))
      | (False, f) \<Rightarrow> (False, (fst x, f) # xs))"

definition processSettingInitialWindowSize :: "serverConn \<Rightarrow> u32 \<Rightarrow> go_err option \<times> serverConn" where
  "processSettingInitialWindowSize sc v =
     (let growth = v - initialStreamSendWindowSize sc;
          r = grow_windows growth (sc_streams sc);
          sc' = sc\<lparr>initialStreamSendWindowSize := v, sc_streams := snd r\<rparr>
      in (if fst r then None else Some (H2ConnectionError ErrCodeFlowControl), sc'))"

definition processSetting :: "serverConn \<Rightarrow> Setting \<Rightarrow> (go_err option \<times> serverConn) option" where
  "processSetting sc s =
     (case Setting_Valid s of
        Some e \<Rightarrow> Some (Some e, sc)
      | None \<Rightarrow>
          if ID s = SettingHeaderTableSize then
            map_option (\<lambda>e. (None, sc\<lparr>hpackEncoder := e\<rparr>))
              (Encoder_SetMaxDynamicTableSize (hpackEncoder sc) (Val s))
          else if ID s = SettingEnablePush then Some (None, sc\<lparr>pushEnabled := (Val s \<noteq> 0)\<rparr>)
          else if ID s = SettingMaxConcurrentStreams then Some (None, sc\<lparr>clientMaxStreams := Val s\<rparr>)
          else if ID s = SettingInitialWindowSize then
            Some (processSettingInitialWindowSize sc (Val s))
          else if ID s = SettingMaxFrameSize then Some (None, sc\<lparr>sc_maxFrameSize := Val s\<rparr>)
          else if ID s = SettingMaxHeaderListSize then
            Some (None, sc\<lparr>sc_peerMaxHeaderListSize := Val s\<rparr>)
          else if ID s = SettingEnableConnectProtocol then Some (None, sc)
          else if ID s = SettingNoRFC7540Priorities then
            (if Val s > 1 then Some (Some (H2ConnectionError ErrCodeProtocol), sc) else Some (None, sc))
          else if is_wt_setting (ID s) then
            (if ID s = SettingWTEnabled then
               (case Setting_Valid s of
                  Some e \<Rightarrow> Some (Some e, sc)
                | None \<Rightarrow> Some (None,
                    sc\<lparr>sc_peerWebTransport := snd (peer_apply (sc_peerWebTransport sc) s)\<rparr>))
             else Some (None, sc\<lparr>sc_peerWebTransport := snd (peer_apply (sc_peerWebTransport sc) s)\<rparr>))
          else Some (None, sc))"

definition processSettings :: "serverConn \<Rightarrow> bool \<Rightarrow> bytes \<Rightarrow> (go_err option \<times> serverConn) option" where
  "processSettings sc isAck p =
     (if isAck then
        (let sc1 = sc\<lparr>unackedSettings := unackedSettings sc - 1\<rparr>
         in Some (if unackedSettings sc1 < 0 then Some (H2ConnectionError ErrCodeProtocol) else None, sc1))
      else if NumSettings p > 100 \<or> HasDuplicates p then
        Some (Some (H2ConnectionError ErrCodeProtocol), sc)
      else case ForeachSetting processSetting sc p of
        None \<Rightarrow> None
      | Some (Some e, sc1) \<Rightarrow> Some (Some e, sc1)
      | Some (None, sc1) \<Rightarrow> Some (None, sc1\<lparr>needToSendSettingsAck := True\<rparr>))"

section \<open>The client\<close>

record ClientConn =
  wantSettingsAck :: bool
  seenSettings :: bool
  cc_maxFrameSize :: u32
  maxConcurrentStreams :: u32
  cc_peerMaxHeaderListSize :: u64
  cc_initialWindowSize :: u32
  cc_streams :: "(u32 \<times> outflow) list"
  henc :: Encoder
  peerMaxHeaderTableSize :: u32
  extendedConnectAllowed :: bool
  cc_peerWebTransport :: WebTransportSettings

definition defaultMaxConcurrentStreams :: u32 where "defaultMaxConcurrentStreams = 1000"

text \<open>The callback of \<^verbatim>\<open>processSettingsNoWrite\<close>; the flag is \<^verbatim>\<open>seenMaxConcurrentStreams\<close>.\<close>

definition client_setting ::
  "ClientConn \<times> bool \<Rightarrow> Setting \<Rightarrow> (go_err option \<times> ClientConn \<times> bool) option" where
  "client_setting cs s =
     (let cc = fst cs; seen = snd cs
      in if ID s = SettingMaxFrameSize then Some (None, cc\<lparr>cc_maxFrameSize := Val s\<rparr>, seen)
         else if ID s = SettingMaxConcurrentStreams then
           Some (None, cc\<lparr>maxConcurrentStreams := Val s\<rparr>, True)
         else if ID s = SettingMaxHeaderListSize then
           Some (None, cc\<lparr>cc_peerMaxHeaderListSize := ucast (Val s)\<rparr>, seen)
         else if ID s = SettingInitialWindowSize then
           (if Val s > 0x7fffffff then Some (Some (H2ConnectionError ErrCodeFlowControl), cc, seen)
            else
              let delta = Val s - cc_initialWindowSize cc
              in Some (None,
                   cc\<lparr>cc_streams := map (\<lambda>x. (fst x, snd (outflow_add (snd x) delta))) (cc_streams cc),
                      cc_initialWindowSize := Val s\<rparr>, seen))
         else if ID s = SettingHeaderTableSize then
           map_option (\<lambda>e. (None, cc\<lparr>henc := e, peerMaxHeaderTableSize := Val s\<rparr>, seen))
             (Encoder_SetMaxDynamicTableSize (henc cc) (Val s))
         else if ID s = SettingEnableConnectProtocol then
           (case Setting_Valid s of
              Some e \<Rightarrow> Some (Some e, cc, seen)
            | None \<Rightarrow>
                Some (None, if \<not> seenSettings cc then cc\<lparr>extendedConnectAllowed := (Val s = 1)\<rparr> else cc,
                      seen))
         else if is_wt_setting (ID s) then
           (case (if ID s = SettingWTEnabled then Setting_Valid s else None) of
              Some e \<Rightarrow> Some (Some e, cc, seen)
            | None \<Rightarrow>
                Some (None, cc\<lparr>cc_peerWebTransport := snd (peer_apply (cc_peerWebTransport cc) s)\<rparr>, seen))
         else Some (None, cc, seen))"

definition processSettingsNoWrite :: "ClientConn \<Rightarrow> bool \<Rightarrow> bytes \<Rightarrow> (go_err option \<times> ClientConn) option" where
  "processSettingsNoWrite cc isAck p =
     (if isAck then
        (if wantSettingsAck cc then Some (None, cc\<lparr>wantSettingsAck := False\<rparr>)
         else Some (Some (H2ConnectionError ErrCodeProtocol), cc))
      else case ForeachSetting client_setting (cc, False) p of
        None \<Rightarrow> None
      | Some (Some e, cc1, seen) \<Rightarrow> Some (Some e, cc1)
      | Some (None, cc1, seen) \<Rightarrow>
          Some (None,
            if \<not> seenSettings cc1 then
              (if \<not> seen then cc1\<lparr>maxConcurrentStreams := defaultMaxConcurrentStreams\<rparr> else cc1)
                \<lparr>seenSettings := True\<rparr>
            else cc1))"

text \<open>
  A request's context may carry a capture: the client stores the peer's settings there when it
  writes the request, and Connect reads them from it.
\<close>

record peerWTSettingsCapture =
  cap_ok :: bool
  cap_s :: WebTransportSettings

definition capture_store :: "WebTransportSettings \<Rightarrow> peerWTSettingsCapture \<Rightarrow> peerWTSettingsCapture" where
  "capture_store s c = c\<lparr>cap_ok := True, cap_s := s\<rparr>"

definition capture_get :: "peerWTSettingsCapture \<Rightarrow> WebTransportSettings \<times> bool" where
  "capture_get c = (cap_s c, cap_ok c)"

definition ContextWithPeerWebTransportSettings :: peerWTSettingsCapture where
  "ContextWithPeerWebTransportSettings = \<lparr>cap_ok = False, cap_s = zero_WebTransportSettings\<rparr>"

definition recordPeerWebTransportSettings ::
  "ClientConn \<Rightarrow> peerWTSettingsCapture option \<Rightarrow> peerWTSettingsCapture option" where
  "recordPeerWebTransportSettings cc c =
     (case c of None \<Rightarrow> None | Some c \<Rightarrow> Some (capture_store (cc_peerWebTransport cc) c))"

text \<open>
  The settings each side sends first: by \<^verbatim>\<open>serve\<close> on the server and by \<^verbatim>\<open>newClientConn\<close> on the
  client. Of the configuration only the values that are sent are arguments.
\<close>

record initialConfig =
  cfg_MaxReadFrameSize :: u32
  cfg_maxStreams :: u32
  cfg_maxHeaderListSize :: u32
  cfg_MaxDecoderHeaderTableSize :: u32
  cfg_recvWindow :: i32
  cfg_disableExtendedConnectProtocol :: bool
  cfg_writeSchedIgnoresRFC7540 :: bool
  cfg_WebTransport :: "WebTransportSettings option"

definition server_initial_settings :: "initialConfig \<Rightarrow> Setting list" where
  "server_initial_settings c =
    [\<lparr>ID = SettingMaxFrameSize, Val = cfg_MaxReadFrameSize c\<rparr>,
     \<lparr>ID = SettingMaxConcurrentStreams, Val = cfg_maxStreams c\<rparr>,
     \<lparr>ID = SettingMaxHeaderListSize, Val = cfg_maxHeaderListSize c\<rparr>,
     \<lparr>ID = SettingHeaderTableSize, Val = cfg_MaxDecoderHeaderTableSize c\<rparr>,
     \<lparr>ID = SettingInitialWindowSize, Val = cfg_recvWindow c\<rparr>] @
    (if \<not> cfg_disableExtendedConnectProtocol c then [\<lparr>ID = SettingEnableConnectProtocol, Val = 1\<rparr>] else []) @
    (if cfg_writeSchedIgnoresRFC7540 c then [\<lparr>ID = SettingNoRFC7540Priorities, Val = 1\<rparr>] else []) @
    wt_settings (cfg_WebTransport c)"

definition client_initial_settings :: "initialConfig \<Rightarrow> Setting list" where
  "client_initial_settings c =
    [\<lparr>ID = SettingEnablePush, Val = 0\<rparr>,
     \<lparr>ID = SettingInitialWindowSize, Val = cfg_recvWindow c\<rparr>,
     \<lparr>ID = SettingMaxFrameSize, Val = cfg_MaxReadFrameSize c\<rparr>] @
    (if cfg_maxHeaderListSize c \<noteq> 0 then [\<lparr>ID = SettingMaxHeaderListSize, Val = cfg_maxHeaderListSize c\<rparr>] else []) @
    (if cfg_MaxDecoderHeaderTableSize c \<noteq> initialHeaderTableSize
     then [\<lparr>ID = SettingHeaderTableSize, Val = cfg_MaxDecoderHeaderTableSize c\<rparr>] else []) @
    wt_settings (cfg_WebTransport c)"

text \<open>A new connection, with the encoder that \<^verbatim>\<open>SetMaxDynamicTableSizeLimit\<close> has configured.\<close>

definition new_ClientConn :: "Encoder \<Rightarrow> ClientConn" where
  "new_ClientConn e =
    \<lparr>wantSettingsAck = True, seenSettings = False, cc_maxFrameSize = 16384, maxConcurrentStreams = 100,
     cc_peerMaxHeaderListSize = 0xffffffffffffffff, cc_initialWindowSize = 65535, cc_streams = [],
     henc = e, peerMaxHeaderTableSize = initialHeaderTableSize, extendedConnectAllowed = False,
     cc_peerWebTransport = zero_WebTransportSettings\<rparr>"

definition new_serverConn :: "Encoder \<Rightarrow> serverConn" where
  "new_serverConn e =
    \<lparr>unackedSettings = 0, needToSendSettingsAck = False, hpackEncoder = e, pushEnabled = True,
     clientMaxStreams = 0xffffffff, initialStreamSendWindowSize = 65535, sc_streams = [],
     sc_maxFrameSize = 16384, sc_peerMaxHeaderListSize = 0,
     sc_peerWebTransport = zero_WebTransportSettings\<rparr>"

section \<open>The payload\<close>

lemma settings_payload_simps [simp]:
  "settings_payload [] = []"
  "settings_payload (s # ss) = be_put16 (ID s) @ be_put32 (Val s) @ settings_payload ss"
  by (simp_all add: settings_payload_def)

lemma length_settings_payload [simp]: "length (settings_payload ss) = 6 * length ss"
  by (induction ss) simp_all

lemma SettingsFrame_Setting_0: "SettingsFrame_Setting (be_put16 i @ be_put32 v @ rest) 0 = \<lparr>ID = i, Val = v\<rparr>"
  using be_get16_put16 [of i "[]"] be_get32_put32 [of v "[]"]
  by (simp add: SettingsFrame_Setting_def)

lemma SettingsFrame_Setting_Suc:
  "SettingsFrame_Setting (be_put16 i @ be_put32 v @ rest) (Suc n) = SettingsFrame_Setting rest n"
  by (simp add: SettingsFrame_Setting_def)

lemma frame_settings_payload [simp]: "frame_settings (settings_payload ss) = ss"
proof (induction ss)
  case (Cons s ss)
  have "[0..<Suc (length ss)] = 0 # map Suc [0..<length ss]"
    by (simp only: upt_conv_Cons map_Suc_upt zero_less_Suc)
  with Cons show ?case
    by (simp add: frame_settings_def NumSettings_def SettingsFrame_Setting_0 SettingsFrame_Setting_Suc
        comp_def del: upt_Suc)
qed (simp add: frame_settings_def NumSettings_def)

lemma dup_scan_iff: "dup_scan ids \<longleftrightarrow> \<not> distinct ids"
proof -
  have "dup_scan ids \<longleftrightarrow> (\<exists>i j. i < j \<and> j < length ids \<and> ids ! i = ids ! j)"
  proof
    assume "\<exists>i j. i < j \<and> j < length ids \<and> ids ! i = ids ! j"
    then obtain i j where "i \<in> set [0..<length ids]" "j \<in> set [i + 1..<length ids]" "ids ! i = ids ! j"
      by (auto simp: Suc_le_eq)
    then show "dup_scan ids" unfolding dup_scan_def list_ex_iff by blast
  next
    assume "dup_scan ids"
    then obtain i j where "j \<in> set [i + 1..<length ids]" "ids ! i = ids ! j"
      unfolding dup_scan_def list_ex_iff by blast
    then have "i < j" "j < length ids" by simp_all
    with \<open>ids ! i = ids ! j\<close> show "\<exists>i j. i < j \<and> j < length ids \<and> ids ! i = ids ! j" by blast
  qed
  also have "\<dots> \<longleftrightarrow> \<not> distinct ids"
  proof
    assume "\<not> distinct ids"
    then obtain i j where "i < length ids" "j < length ids" "i \<noteq> j" "ids ! i = ids ! j"
      unfolding distinct_conv_nth by blast
    then show "\<exists>i j. i < j \<and> j < length ids \<and> ids ! i = ids ! j"
      by (cases i j rule: linorder_cases) force+
  next
    assume "\<exists>i j. i < j \<and> j < length ids \<and> ids ! i = ids ! j"
    then obtain i j where "i < j" "j < length ids" "ids ! i = ids ! j" by blast
    then show "\<not> distinct ids" using nth_eq_iff_index_eq [of ids i j] by auto
  qed
  finally show ?thesis .
qed

lemma dup_seen_iff: "dup_seen seen ids \<longleftrightarrow> \<not> distinct ids \<or> set seen \<inter> set ids \<noteq> {}"
  by (induction seen ids rule: dup_seen.induct) auto

lemma HasDuplicates_iff: "HasDuplicates p \<longleftrightarrow> \<not> distinct (map ID (frame_settings p))"
  by (auto simp: HasDuplicates_def frame_settings_def dup_scan_iff dup_seen_iff Let_def comp_def)

text \<open>The duplicate check of a SETTINGS frame is exact: with either of its two searches it
  returns true if and only if some identifier occurs twice in the payload.\<close>
theorem HasDuplicates_exact: "HasDuplicates p \<longleftrightarrow> \<not> distinct (map ID (frame_settings p))"
  by (rule HasDuplicates_iff)

section \<open>WebTransport settings reach the peer\<close>

definition wt_apply_all :: "Setting list \<Rightarrow> WebTransportSettings \<Rightarrow> WebTransportSettings" where
  "wt_apply_all ss w = fold (\<lambda>s w. snd (peer_apply w s)) ss w"

lemma wt_apply_all_simps [simp]:
  "wt_apply_all [] w = w"
  "wt_apply_all (s # ss) w = wt_apply_all ss (snd (peer_apply w s))"
  by (simp_all add: wt_apply_all_def)

lemma wt_apply_all_append [simp]: "wt_apply_all (xs @ ys) w = wt_apply_all ys (wt_apply_all xs w)"
  by (simp add: wt_apply_all_def)

lemma peer_apply_other [simp]: "\<not> is_wt_setting (ID s) \<Longrightarrow> peer_apply w s = (False, w)"
  by (simp add: is_wt_setting_def peer_apply_def)

lemma wt_apply_all_other: "\<forall>s\<in>set ss. \<not> is_wt_setting (ID s) \<Longrightarrow> wt_apply_all ss w = w"
  by (induction ss) simp_all

lemma wt_apply_all_settings:
  "wt_apply_all (wt_settings (Some w)) w0 = w\<lparr>Enabled := (Enabled w \<or> Enabled w0)\<rparr>"
  by (simp add: wt_settings_def peer_apply_def setting_ids)

lemma wt_settings_valid: "s \<in> set (wt_settings w) \<Longrightarrow> Setting_Valid s = None"
  by (auto simp: wt_settings_def Setting_Valid_def setting_ids split: option.splits if_splits)

lemma SetMax_roomy:
  assumes "roomy (enc_dynTab e)"
  shows "\<exists>e'. Encoder_SetMaxDynamicTableSize e v = Some e' \<and> roomy (enc_dynTab e')"
  using setMaxSize_fit [OF assms, of "if v > enc_maxSizeLimit e then enc_maxSizeLimit e else v"]
  by (fastforce simp: Encoder_SetMaxDynamicTableSize_def Let_def)

lemma client_setting_step:
  assumes "roomy (enc_dynTab (henc cc))" and "Setting_Valid s = None"
  shows "\<exists>cc' seen'. client_setting (cc, seen) s = Some (None, cc', seen') \<and>
    roomy (enc_dynTab (henc cc')) \<and>
    cc_peerWebTransport cc' = snd (peer_apply (cc_peerWebTransport cc) s)"
  using SetMax_roomy [OF assms(1), of "Val s"] assms
  by (auto simp: client_setting_def Setting_Valid_def Let_def setting_ids is_wt_setting_def peer_apply_def
      split: if_splits)

lemma client_settings_run:
  assumes "roomy (enc_dynTab (henc cc))" and "\<forall>s\<in>set ss. Setting_Valid s = None"
  shows "\<exists>cc' seen'. foreach client_setting (cc, seen) ss = Some (None, cc', seen') \<and>
    cc_peerWebTransport cc' = wt_apply_all ss (cc_peerWebTransport cc)"
  using assms
proof (induction ss arbitrary: cc seen)
  case (Cons s ss)
  obtain cc' seen' where "client_setting (cc, seen) s = Some (None, cc', seen')"
    "roomy (enc_dynTab (henc cc'))" "cc_peerWebTransport cc' = snd (peer_apply (cc_peerWebTransport cc) s)"
    using client_setting_step [OF Cons.prems(1), of s seen] Cons.prems(2) by auto
  with Cons.IH [of cc' seen'] Cons.prems(2) show ?case by auto
qed simp

lemma processSettingsNoWrite_wt:
  assumes "roomy (enc_dynTab (henc cc))" and "\<forall>s\<in>set ss. Setting_Valid s = None"
  shows "\<exists>cc'. processSettingsNoWrite cc False (settings_payload ss) = Some (None, cc') \<and> seenSettings cc' \<and>
    cc_peerWebTransport cc' = wt_apply_all ss (cc_peerWebTransport cc)"
  using client_settings_run [OF assms, of False]
  by (auto simp: processSettingsNoWrite_def ForeachSetting_def)

text \<open>The server also refuses a NO\_RFC7540\_PRIORITIES above one, and a window that overflows.\<close>

definition server_valid :: "Setting \<Rightarrow> bool" where
  "server_valid s \<longleftrightarrow> Setting_Valid s = None \<and> (ID s = SettingNoRFC7540Priorities \<longrightarrow> Val s \<le> 1)"

lemma processSetting_step:
  assumes "roomy (enc_dynTab (hpackEncoder sc))" and "server_valid s" and "sc_streams sc = []"
  shows "\<exists>sc'. processSetting sc s = Some (None, sc') \<and> roomy (enc_dynTab (hpackEncoder sc')) \<and>
    sc_streams sc' = [] \<and> sc_peerWebTransport sc' = snd (peer_apply (sc_peerWebTransport sc) s)"
  using SetMax_roomy [OF assms(1), of "Val s"] assms
  by (auto simp: processSetting_def server_valid_def processSettingInitialWindowSize_def Let_def setting_ids
      is_wt_setting_def peer_apply_def not_less)

lemma server_settings_run:
  assumes "roomy (enc_dynTab (hpackEncoder sc))" and "\<forall>s\<in>set ss. server_valid s" and "sc_streams sc = []"
  shows "\<exists>sc'. foreach processSetting sc ss = Some (None, sc') \<and>
    sc_peerWebTransport sc' = wt_apply_all ss (sc_peerWebTransport sc)"
  using assms
proof (induction ss arbitrary: sc)
  case (Cons s ss)
  obtain sc' where "processSetting sc s = Some (None, sc')" "roomy (enc_dynTab (hpackEncoder sc'))"
    "sc_streams sc' = []" "sc_peerWebTransport sc' = snd (peer_apply (sc_peerWebTransport sc) s)"
    using processSetting_step [OF Cons.prems(1) _ Cons.prems(3), of s] Cons.prems(2) by auto
  with Cons.IH [of sc'] Cons.prems(2) show ?case by auto
qed simp

lemma processSettings_wt:
  assumes "roomy (enc_dynTab (hpackEncoder sc))" and "\<forall>s\<in>set ss. server_valid s" and "sc_streams sc = []"
    and "distinct (map ID ss)" and "length ss \<le> 100"
  shows "\<exists>sc'. processSettings sc False (settings_payload ss) = Some (None, sc') \<and> needToSendSettingsAck sc' \<and>
    sc_peerWebTransport sc' = wt_apply_all ss (sc_peerWebTransport sc)"
proof -
  have "\<not> HasDuplicates (settings_payload ss)"
    using assms(4) HasDuplicates_iff [of "settings_payload ss"] by simp
  with assms(5) server_settings_run [OF assms(1-3)] show ?thesis
    by (auto simp: processSettings_def ForeachSetting_def NumSettings_def)
qed

text \<open>The values a configuration has once \<^verbatim>\<open>setConfigDefaults\<close> has filled it in.\<close>

definition config_in_range :: "initialConfig \<Rightarrow> bool" where
  "config_in_range c \<longleftrightarrow> 16384 \<le> cfg_MaxReadFrameSize c \<and> cfg_MaxReadFrameSize c \<le> 0xffffff \<and>
     cfg_recvWindow c \<le> 0x7fffffff"

lemma initial_settings_valid:
  assumes "config_in_range c"
  shows "\<forall>s\<in>set (server_initial_settings c). Setting_Valid s = None"
    and "\<forall>s\<in>set (client_initial_settings c). server_valid s"
proof -
  have r: "\<not> cfg_MaxReadFrameSize c < 16384" "\<not> 0xffffff < cfg_MaxReadFrameSize c" "\<not> 0x7fffffff < cfg_recvWindow c"
    using assms by (simp_all add: config_in_range_def not_less)
  have w: "\<forall>s\<in>set (wt_settings (cfg_WebTransport c)). Setting_Valid s = None"
    "\<forall>s\<in>set (wt_settings (cfg_WebTransport c)). server_valid s"
    by (auto simp: server_valid_def wt_settings_valid)
      (auto simp: wt_settings_def setting_ids split: option.splits if_splits)
  show "\<forall>s\<in>set (server_initial_settings c). Setting_Valid s = None"
    using w(1) r unfolding server_initial_settings_def set_append ball_Un
    by (simp add: Setting_Valid_def setting_ids)
  show "\<forall>s\<in>set (client_initial_settings c). server_valid s"
    using w(2) r unfolding client_initial_settings_def set_append ball_Un
    by (simp add: Setting_Valid_def server_valid_def setting_ids)
qed

lemma wt_ids:
  "distinct (map ID (wt_settings w)) \<and> set (map ID (wt_settings w)) \<subseteq> {0x2b60..0x2b66} \<and> length (wt_settings w) \<le> 7"
  by (auto simp: wt_settings_def setting_ids split: option.split)

lemma client_initial_settings_distinct:
  "distinct (map ID (client_initial_settings c)) \<and> length (client_initial_settings c) \<le> 100"
proof -
  define ws where "ws = wt_settings (cfg_WebTransport c)"
  have w: "distinct (map ID ws)" "set (map ID ws) \<subseteq> {0x2b60..0x2b66}" "length ws \<le> 7"
    unfolding ws_def using wt_ids by blast+
  have "i \<notin> set (map ID ws)" if "i < 0x2b60" for i using w(2) that by (auto simp: subset_iff not_less)
  then have "1 \<notin> ID ` set ws" "2 \<notin> ID ` set ws" "4 \<notin> ID ` set ws" "5 \<notin> ID ` set ws" "6 \<notin> ID ` set ws"
    by simp_all
  with w show ?thesis
    unfolding client_initial_settings_def ws_def [symmetric] by (simp add: setting_ids)
qed

lemma wt_apply_all_initial:
  assumes "cfg_WebTransport c = Some w"
  shows "wt_apply_all (server_initial_settings c) zero_WebTransportSettings = w"
    and "wt_apply_all (client_initial_settings c) zero_WebTransportSettings = w"
proof -
  have z: "w\<lparr>Enabled := (Enabled w \<or> Enabled zero_WebTransportSettings)\<rparr> = w"
    by (simp add: zero_WebTransportSettings_def)
  show "wt_apply_all (server_initial_settings c) zero_WebTransportSettings = w"
    by (simp add: server_initial_settings_def assms wt_apply_all_settings z is_wt_setting_def setting_ids)
  show "wt_apply_all (client_initial_settings c) zero_WebTransportSettings = w"
    by (simp add: client_initial_settings_def assms wt_apply_all_settings z is_wt_setting_def setting_ids)
qed

lemma NewEncoder_roomy: "\<exists>e. NewEncoder = Some e \<and> roomy (enc_dynTab e)"
proof -
  have "roomy new_dynamicTable"
    using table_ok_empty by (simp add: roomy_def new_dynamicTable_def dynamic_ok_def empty_table_def table_bytes_def)
  from setMaxSize_fit [OF this, of initialHeaderTableSize] show ?thesis by (auto simp: NewEncoder_def)
qed

lemma settings_arrive_at_client:
  assumes "config_in_range c" and "cfg_WebTransport c = Some w"
    and "roomy (enc_dynTab (henc cc))" and "cc_peerWebTransport cc = zero_WebTransportSettings"
  shows "\<exists>cc'. processSettingsNoWrite cc False (settings_payload (server_initial_settings c)) = Some (None, cc') \<and>
    seenSettings cc' \<and> cc_peerWebTransport cc' = w"
  using processSettingsNoWrite_wt [OF assms(3), of "server_initial_settings c"]
    initial_settings_valid(1) [OF assms(1)] wt_apply_all_initial(1) [OF assms(2)] assms(4) by auto

lemma settings_arrive_at_server:
  assumes "config_in_range c" and "cfg_WebTransport c = Some w"
    and "roomy (enc_dynTab (hpackEncoder sc))" and "sc_streams sc = []"
    and "sc_peerWebTransport sc = zero_WebTransportSettings"
  shows "\<exists>sc'. processSettings sc False (settings_payload (client_initial_settings c)) = Some (None, sc') \<and>
    needToSendSettingsAck sc' \<and> sc_peerWebTransport sc' = w"
  using processSettings_wt [OF assms(3), of "client_initial_settings c"]
    initial_settings_valid(2) [OF assms(1)] wt_apply_all_initial(2) [OF assms(2)] client_initial_settings_distinct
    assms(4,5) by auto

section \<open>A change of the initial window\<close>

definition window_fits :: "int \<Rightarrow> outflow \<Rightarrow> bool" where
  "window_fits d f \<longleftrightarrow> - (2 ^ 31) \<le> s32 (of_n f) + d \<and> s32 (of_n f) + d < 2 ^ 31"

lemma grow_windows_fst: "fst (grow_windows d xs) \<longleftrightarrow> (\<forall>x\<in>set xs. window_fits (s32 d) (snd x))"
  by (induction xs) (auto simp: outflow_add_cases window_fits_def Let_def)

lemma grow_windows_snd:
  "\<forall>x\<in>set xs. window_fits (s32 d) (snd x) \<Longrightarrow>
   map (\<lambda>x. (fst x, s32 (of_n (snd x)))) (snd (grow_windows d xs)) =
   map (\<lambda>x. (fst x, s32 (of_n (snd x)) + s32 d)) xs"
  by (induction xs) (auto simp: outflow_add_cases window_fits_def Let_def s32_of_int simp del: of_int_add)

lemma s32_diff_nonneg:
  assumes "0 \<le> s32 a" and "0 \<le> s32 b"
  shows "s32 (a - b) = s32 a - s32 b"
proof -
  have e: "a - b = of_int (s32 a - s32 b)" by simp
  have "- (2 ^ 31) \<le> s32 a - s32 b" "s32 a - s32 b < 2 ^ 31"
    using assms s32_range [of a] s32_range [of b] by linarith+
  then show ?thesis unfolding e by (rule s32_of_int)
qed

lemma s32_small: "v \<le> 0x7fffffff \<Longrightarrow> s32 v = uint v"
  using signed_take_bit_31 [of "uint v"] uint_nonnegative [of v]
  by (simp add: word_le_def sint_uint)

text \<open>A peer that changes SETTINGS\_INITIAL\_WINDOW\_SIZE to \<open>v\<close> moves the send window of every open
  stream of the server by exactly the difference between the new and the old value, negative
  windows included, and the connection fails with a flow-control error if and only if some window
  would leave the 32-bit range; either way \<open>v\<close> is the new initial window.\<close>
theorem initial_window_change:
  assumes "0 \<le> s32 (initialStreamSendWindowSize sc)" and "v \<le> 0x7fffffff"
  shows "let d = uint v - s32 (initialStreamSendWindowSize sc);
             r = processSettingInitialWindowSize sc v
         in initialStreamSendWindowSize (snd r) = v \<and>
            (if \<forall>x\<in>set (sc_streams sc). window_fits d (snd x)
             then fst r = None \<and>
               map (\<lambda>x. (fst x, s32 (of_n (snd x)))) (sc_streams (snd r)) =
               map (\<lambda>x. (fst x, s32 (of_n (snd x)) + d)) (sc_streams sc)
             else fst r = Some (H2ConnectionError ErrCodeFlowControl))"
proof -
  let ?o = "initialStreamSendWindowSize sc"
  have "s32 v = uint v" using assms(2) by (rule s32_small)
  then have "uint v - s32 ?o = s32 (v - ?o)" using assms(1) s32_diff_nonneg [of v ?o] by simp
  then show ?thesis
    by (simp add: processSettingInitialWindowSize_def Let_def grow_windows_fst grow_windows_snd)
qed

definition demo_serverConn :: serverConn where
  "demo_serverConn =
    \<lparr>unackedSettings = 1, needToSendSettingsAck = False,
     hpackEncoder = \<lparr>enc_dynTab = new_dynamicTable, enc_minSize = uint32Max,
       enc_maxSizeLimit = initialHeaderTableSize, enc_tableSizeUpdate = False\<rparr>, pushEnabled = True,
     clientMaxStreams = 0xffffffff, initialStreamSendWindowSize = 65535,
     sc_streams = [(1, \<lparr>of_n = 100, of_conn = None\<rparr>), (3, \<lparr>of_n = 65535, of_conn = None\<rparr>)],
     sc_maxFrameSize = 16384, sc_peerMaxHeaderListSize = 0, sc_peerWebTransport = zero_WebTransportSettings\<rparr>"

theorem initial_window_change_witness:
  "map (\<lambda>x. (fst x, s32 (of_n (snd x)))) (sc_streams (snd (processSettingInitialWindowSize demo_serverConn 1000))) =
     [(1, - 64435), (3, 1000)]"
  using initial_window_change [of demo_serverConn 1000]
  by (simp add: demo_serverConn_def window_fits_def Let_def)

end
