(* ===== verification/Handshake.thy ===== *)
theory Handshake
  imports Session_Delivery H2_Settings Go_Text
begin

text \<open>
  client.go and server.go: the extended CONNECT that opens a session. \<^verbatim>\<open>Connect\<close> builds the
  request and turns the response into a client session, \<^verbatim>\<open>Upgrade\<close> answers it and makes the
  server session. The structured-field library go-sfv is the parameter \<open>sfv_ops\<close> with the laws of
  the locale \<open>sfv_codec\<close>; the round tripper, the selection callback and the URL parser are
  arguments. Header maps have canonical keys, as net/http keeps them.
\<close>

section \<open>Header maps\<close>

text \<open>The bytes of a header name: \<^verbatim>\<open>textproto.CanonicalMIMEHeaderKey\<close> leaves a name with any other byte
  alone.\<close>

definition validHeaderFieldByte :: "char \<Rightarrow> bool" where
  "validHeaderFieldByte c \<longleftrightarrow>
     (let n = of_char c :: nat
      in 48 \<le> n \<and> n \<le> 57 \<or> 65 \<le> n \<and> n \<le> 90 \<or> 97 \<le> n \<and> n \<le> 122 \<or>
         c \<in> set [CHR ''!'', CHR ''#'', CHR ''$'', CHR ''%'', CHR ''&'', CHR 0x27, CHR ''*'', CHR ''+'',
                  CHR ''-'', CHR ''.'', CHR ''^'', CHR ''_'', CHR 0x60, CHR ''|'', CHR ''~''])"

definition upper_char :: "char \<Rightarrow> char" where
  "upper_char c = (let n = of_char c :: nat in if 97 \<le> n \<and> n \<le> 122 then char_of (n - 32) else c)"

definition lower_char :: "char \<Rightarrow> char" where
  "lower_char c = (let n = of_char c :: nat in if 65 \<le> n \<and> n \<le> 90 then char_of (n + 32) else c)"

fun canonical_from :: "bool \<Rightarrow> string \<Rightarrow> string" where
  "canonical_from up [] = []"
| "canonical_from up (c # cs) =
     (if up then upper_char c else lower_char c) # canonical_from (c = CHR ''-'') cs"

definition CanonicalHeaderKey :: "string \<Rightarrow> string" where
  "CanonicalHeaderKey k = (if list_all validHeaderFieldByte k then canonical_from True k else k)"

type_synonym Header = "string \<rightharpoonup> string list"

definition Header_Set :: "Header \<Rightarrow> string \<Rightarrow> string \<Rightarrow> Header" where
  "Header_Set h k v = h(CanonicalHeaderKey k \<mapsto> [v])"

definition Header_Values :: "Header \<Rightarrow> string \<Rightarrow> string list" where
  "Header_Values h k = (case h (CanonicalHeaderKey k) of None \<Rightarrow> [] | Some vs \<Rightarrow> vs)"

definition Header_Get :: "Header \<Rightarrow> string \<Rightarrow> string" where
  "Header_Get h k = (case Header_Values h k of [] \<Rightarrow> '''' | v # vs \<Rightarrow> v)"

definition Header_Del :: "Header \<Rightarrow> string \<Rightarrow> Header" where
  "Header_Del h k = h(CanonicalHeaderKey k := None)"

section \<open>Structured fields\<close>

text \<open>A bare item of go-sfv: a string, or a value of another type with the text \<^verbatim>\<open>%v\<close> prints.\<close>

datatype sfv_value = SfvString string | SfvOther string

fun sfv_text :: "sfv_value \<Rightarrow> string" where
  "sfv_text (SfvString s) = s"
| "sfv_text (SfvOther s) = s"

record sfv_ops =
  sfv_EncodeList :: "sfv_value list \<Rightarrow> go_err + string"
  sfv_DecodeList :: "string list \<Rightarrow> go_err + sfv_value list"
  sfv_EncodeItem :: "sfv_value \<Rightarrow> go_err + string"
  sfv_DecodeItem :: "string list \<Rightarrow> go_err + sfv_value"

text \<open>RFC 8941: what is encoded is decoded again, an encoded string is not empty, and strings of
  printable ASCII characters have an encoding.\<close>

definition sfv_printable :: "string \<Rightarrow> bool" where
  "sfv_printable s \<longleftrightarrow> list_all (\<lambda>c. 32 \<le> (of_char c :: nat) \<and> (of_char c :: nat) < 127) s"

locale sfv_codec =
  fixes F :: sfv_ops
  assumes list_roundtrip:
      "sfv_EncodeList F (map SfvString ps) = Inr h \<Longrightarrow> sfv_DecodeList F [h] = Inr (map SfvString ps)"
    and item_roundtrip: "sfv_EncodeItem F (SfvString p) = Inr h \<Longrightarrow> sfv_DecodeItem F [h] = Inr (SfvString p)"
    and item_nonempty: "sfv_EncodeItem F (SfvString p) = Inr h \<Longrightarrow> h \<noteq> ''''"
    and list_encodes: "\<forall>p\<in>set ps. sfv_printable p \<Longrightarrow> \<exists>h. sfv_EncodeList F (map SfvString ps) = Inr h"
    and item_encodes: "sfv_printable p \<Longrightarrow> \<exists>h. sfv_EncodeItem F (SfvString p) = Inr h"
begin
end

section \<open>The client\<close>

definition encodeAvailableProtocolsHeader :: "sfv_ops \<Rightarrow> string list \<Rightarrow> go_err + string" where
  "encodeAvailableProtocolsHeader F availableProtocols = sfv_EncodeList F (map SfvString availableProtocols)"

definition peerLimitsFromSettings :: "WebTransportSettings \<Rightarrow> peerInitialLimits" where
  "peerLimitsFromSettings s =
    \<lparr>peer_maxData = ucast (InitialMaxData s),
     peer_maxStreamsUni = ucast (InitialMaxStreamsUni s),
     peer_maxStreamsBidi = ucast (InitialMaxStreamsBidi s),
     peer_streamDataUni = ucast (InitialMaxStreamDataUni s),
     peer_streamDataBidiLocal = ucast (InitialMaxStreamDataBidiLocal s),
     peer_streamDataBidiRemote = ucast (InitialMaxStreamDataBidiRemote s)\<rparr>"

definition parseSelectedProtocolHeader :: "sfv_ops \<Rightarrow> string list \<Rightarrow> go_err + string" where
  "parseSelectedProtocolHeader F h =
     (if h = [] \<or> length h = 1 \<and> h ! 0 = '''' then Inr ''''
      else case sfv_DecodeItem F h of
        Inl err \<Rightarrow> Inl (Errorf ''invalid WT-Protocol header: '' err '''')
      | Inr (SfvString protocol) \<Rightarrow> Inr protocol
      | Inr v \<Rightarrow> Inl (ErrorsNew (''invalid WT-Protocol header: expected string item, got '' @ sfv_text v)))"

text \<open>A request as the client hands it to the round tripper; the URL parser has split the URL.\<close>

record req_url =
  url_Host :: string
  url_RequestURI :: string

record request =
  req_Method :: string
  req_URL :: req_url
  req_Header :: Header
  req_capture :: peerWTSettingsCapture

record response =
  res_StatusCode :: int
  res_Status :: string
  res_Header :: Header

text \<open>
  What \<^verbatim>\<open>Connect\<close> does to the request pipe and the response body. The round tripper returns the
  response and the capture as it left it. The result \<open>None\<close> is the panic of an assignment to a nil
  map: \<^verbatim>\<open>headers.Clone()\<close> of nil headers is nil.
\<close>

record connect_effects =
  pw_closed :: bool
  body_closed :: bool

text \<open>The headers of the request: \<^verbatim>\<open>headers.Clone()\<close> with the two headers set.\<close>

definition connect_header :: "sfv_ops \<Rightarrow> string list \<Rightarrow> Header \<Rightarrow> go_err + Header" where
  "connect_header F availableProtocols headers =
     (let h1 = Header_Set headers '':protocol'' ''webtransport''
      in if length availableProtocols > 0 then
           (case encodeAvailableProtocolsHeader F availableProtocols of
              Inl err \<Rightarrow> Inl err
            | Inr enc \<Rightarrow> Inr (Header_Set h1 ''WT-Available-Protocols'' enc))
         else Inr h1)"

text \<open>What follows the round trip.\<close>

definition connect_result ::
  "sfv_ops \<Rightarrow> req_url \<Rightarrow> (go_err + response) \<times> peerWTSettingsCapture \<Rightarrow>
   (go_err + Session \<times> sessionMeta) \<times> connect_effects" where
  "connect_result F u rt =
     (case rt of
        (Inl err, cap) \<Rightarrow>
          (Inl (Errorf ''webtransport connection failed: '' err ''''), \<lparr>pw_closed = True, body_closed = False\<rparr>)
      | (Inr res, cap) \<Rightarrow>
          if res_StatusCode res < 200 \<or> res_StatusCode res \<ge> 300 then
            (Inl (ErrorsNew (''webtransport connection failed: '' @ fmt_int (res_StatusCode res) @ '' '' @
               res_Status res)), \<lparr>pw_closed = True, body_closed = True\<rparr>)
          else case parseSelectedProtocolHeader F (Header_Values (res_Header res) ''WT-Protocol'') of
            Inl err \<Rightarrow>
              (Inl (Errorf ''invalid WT-Protocol header: '' err ''''), \<lparr>pw_closed = True, body_closed = True\<rparr>)
          | Inr protocol \<Rightarrow>
              let peer = (case capture_get cap of
                            (settings, ok) \<Rightarrow> if ok then Some (peerLimitsFromSettings settings) else None);
                  meta = \<lparr>peerAddr = url_Host u, meta_path = url_RequestURI u\<rparr>
              in (Inr (newSessionConfigured protocol False peer, meta), \<lparr>pw_closed = False, body_closed = False\<rparr>))"

definition Connect ::
  "sfv_ops \<Rightarrow> (string \<Rightarrow> go_err + req_url) \<Rightarrow> (request \<Rightarrow> (go_err + response) \<times> peerWTSettingsCapture) \<Rightarrow>
   string \<Rightarrow> string list \<Rightarrow> Header option \<Rightarrow> ((go_err + Session \<times> sessionMeta) \<times> connect_effects) option" where
  "Connect F parseURL RoundTrip url availableProtocols headers =
     (case parseURL url of
        Inl err \<Rightarrow> Some (Inl err, \<lparr>pw_closed = False, body_closed = False\<rparr>)
      | Inr u \<Rightarrow>
        (case headers of
           None \<Rightarrow> None
         | Some hs \<Rightarrow>
           (case connect_header F availableProtocols hs of
              Inl err \<Rightarrow> Some (Inl err, \<lparr>pw_closed = False, body_closed = False\<rparr>)
            | Inr h \<Rightarrow>
                Some (connect_result F u (RoundTrip
                  \<lparr>req_Method = ''CONNECT'', req_URL = u, req_Header = h,
                   req_capture = ContextWithPeerWebTransportSettings\<rparr>)))))"

section \<open>The server\<close>

record server_request =
  r_Method :: string
  r_Proto :: string
  r_Header :: Header
  r_RemoteAddr :: string
  r_RequestURI :: string
  r_peerSettings :: "WebTransportSettings option"

record ResponseWriter =
  rw_Header :: Header
  rw_status :: "nat option"
  rw_flushed :: bool
  rw_body :: string

definition new_ResponseWriter :: ResponseWriter where
  "new_ResponseWriter = \<lparr>rw_Header = Map.empty, rw_status = None, rw_flushed = False, rw_body = ''''\<rparr>"

text \<open>A second call of \<^verbatim>\<open>WriteHeader\<close> changes nothing.\<close>

definition WriteHeader :: "ResponseWriter \<Rightarrow> nat \<Rightarrow> ResponseWriter" where
  "WriteHeader w code = (if rw_status w = None then w\<lparr>rw_status := Some code\<rparr> else w)"

definition http_Error :: "ResponseWriter \<Rightarrow> string \<Rightarrow> nat \<Rightarrow> ResponseWriter" where
  "http_Error w msg code =
     (let h = Header_Set (Header_Set (Header_Del (rw_Header w) ''Content-Length'')
                ''Content-Type'' ''text/plain; charset=utf-8'') ''X-Content-Type-Options'' ''nosniff'';
          w1 = WriteHeader (w\<lparr>rw_Header := h\<rparr>) code
      in w1\<lparr>rw_body := rw_body w1 @ msg @ [CHR 0x0a]\<rparr>)"

text \<open>The slice made with the length of the list is appended to.\<close>

fun append_protocols :: "string list \<Rightarrow> sfv_value list \<Rightarrow> go_err + string list" where
  "append_protocols protocols [] = Inr protocols"
| "append_protocols protocols (item # items) =
     (case item of
        SfvString protocol \<Rightarrow> append_protocols (protocols @ [protocol]) items
      | SfvOther t \<Rightarrow>
          Inl (ErrorsNew (''invalid WT-Available-Protocols header: expected string item, got '' @ t)))"

definition parseAvailableProtocolsHeader :: "sfv_ops \<Rightarrow> string list \<Rightarrow> go_err + string list" where
  "parseAvailableProtocolsHeader F h =
     (case sfv_DecodeList F h of
        Inl err \<Rightarrow> Inl (Errorf ''invalid WT-Available-Protocols header: '' err '''')
      | Inr lst \<Rightarrow> append_protocols (replicate (length lst) '''') lst)"

definition encodeSelectedProtocolHeader :: "sfv_ops \<Rightarrow> string \<Rightarrow> go_err + string" where
  "encodeSelectedProtocolHeader F protocol = sfv_EncodeItem F (SfvString protocol)"

text \<open>The part of \<^verbatim>\<open>Upgrade\<close> under \<^verbatim>\<open>s.SelectProtocol != nil\<close>: the protocol and the response header.\<close>

definition negotiate ::
  "sfv_ops \<Rightarrow> (server_request \<Rightarrow> string list \<Rightarrow> go_err + string) option \<Rightarrow> server_request \<Rightarrow> Header \<Rightarrow>
   go_err + string \<times> Header" where
  "negotiate F sel r h =
     (case sel of
        None \<Rightarrow> Inr ('''', h)
      | Some f \<Rightarrow>
        (case parseAvailableProtocolsHeader F (Header_Values (r_Header r) ''WT-Available-Protocols'') of
           Inl err \<Rightarrow> Inl err
         | Inr availableProtocols \<Rightarrow>
           (case f r availableProtocols of
              Inl err \<Rightarrow> Inl err
            | Inr protocol \<Rightarrow>
                if protocol \<noteq> '''' then
                  (if protocol \<notin> set availableProtocols then
                     Inl (ErrorsNew (''selected protocol '' @ fmt_q protocol @ '' not in available protocols''))
                   else case encodeSelectedProtocolHeader F protocol of
                     Inl err \<Rightarrow> Inl err
                   | Inr enc \<Rightarrow> Inr (protocol, Header_Set h ''WT-Protocol'' enc))
                else Inr (protocol, h))))"

definition Upgrade ::
  "sfv_ops \<Rightarrow> (server_request \<Rightarrow> string list \<Rightarrow> go_err + string) option \<Rightarrow> go_err option \<Rightarrow>
   ResponseWriter \<Rightarrow> server_request \<Rightarrow> (go_err + Session \<times> sessionMeta) \<times> ResponseWriter" where
  "Upgrade F sel fullDuplex w r =
     (if r_Method r \<noteq> ''CONNECT'' then (Inl (ErrorsNew ''expected CONNECT method''), w)
      else if r_Proto r \<noteq> ''HTTP/2.0'' then (Inl (ErrorsNew ''expected HTTP/2.0 protocol''), w)
      else if Header_Get (r_Header r) '':protocol'' \<noteq> ''webtransport'' then
        (Inl (ErrorsNew ''expected :protocol header to be set to webtransport''), w)
      else case negotiate F sel r (rw_Header w) of
        Inl err \<Rightarrow> (Inl err, w)
      | Inr (protocol, h) \<Rightarrow>
          let w1 = w\<lparr>rw_Header := h\<rparr>
          in case fullDuplex of
               Some err \<Rightarrow> (Inl err, w1)
             | None \<Rightarrow>
                 let w2 = (WriteHeader w1 200)\<lparr>rw_flushed := True\<rparr>;
                     peer = map_option peerLimitsFromSettings (r_peerSettings r);
                     meta = \<lparr>peerAddr = r_RemoteAddr r, meta_path = r_RequestURI r\<rparr>
                 in (Inr (newSessionConfigured protocol True peer, meta), w2))"

section \<open>Headers survive both ends\<close>

lemma Header_Values_Set:
  "Header_Values (Header_Set h k v) l =
     (if CanonicalHeaderKey l = CanonicalHeaderKey k then [v] else Header_Values h l)"
  by (simp add: Header_Values_def Header_Set_def)

lemma Header_Get_Set:
  "Header_Get (Header_Set h k v) l =
     (if CanonicalHeaderKey l = CanonicalHeaderKey k then v else Header_Get h l)"
  by (simp add: Header_Get_def Header_Values_Set)

lemma protocol_header_keys [simp]:
  "CanonicalHeaderKey '':protocol'' = '':protocol''"
  "CanonicalHeaderKey ''WT-Available-Protocols'' = ''Wt-Available-Protocols''"
  "CanonicalHeaderKey ''WT-Protocol'' = ''Wt-Protocol''"
  by code_simp+

lemma append_protocols_strings: "append_protocols acc (map SfvString ps) = Inr (acc @ ps)"
  by (induction ps arbitrary: acc) simp_all

lemma append_protocols_Inr: "append_protocols acc vs = Inr ps \<Longrightarrow> \<exists>qs. vs = map SfvString qs \<and> ps = acc @ qs"
proof (induction vs arbitrary: acc)
  case (Cons v vs)
  then obtain q where "v = SfvString q" "append_protocols (acc @ [q]) vs = Inr ps"
    by (cases v) auto
  with Cons.IH [of "acc @ [q]"] obtain qs where "vs = map SfvString qs" "ps = acc @ q # qs" by auto
  with \<open>v = SfvString q\<close> have "v # vs = map SfvString (q # qs) \<and> ps = acc @ q # qs" by simp
  then show ?case by (rule exI)
qed simp

context sfv_codec
begin

lemma available_roundtrip:
  assumes "encodeAvailableProtocolsHeader F ps = Inr h"
  shows "parseAvailableProtocolsHeader F [h] = Inr (replicate (length ps) '''' @ ps)"
  using list_roundtrip [of ps h] assms
  by (simp add: encodeAvailableProtocolsHeader_def parseAvailableProtocolsHeader_def append_protocols_strings)

lemma selected_roundtrip:
  assumes "encodeSelectedProtocolHeader F p = Inr h"
  shows "parseSelectedProtocolHeader F [h] = Inr p"
  using item_roundtrip [of p h] item_nonempty [of p h] assms
  by (simp add: encodeSelectedProtocolHeader_def parseSelectedProtocolHeader_def)

end

section \<open>An instance of the structured-field laws\<close>

text \<open>Lists of quoted strings, enough to meet the laws.\<close>

definition sf_char :: "char \<Rightarrow> string" where
  "sf_char c = (if c = CHR 0x22 \<or> c = CHR 0x5c then [CHR 0x5c, c] else [c])"

definition sf_string :: "string \<Rightarrow> string" where
  "sf_string s = CHR 0x22 # concat (map sf_char s) @ [CHR 0x22]"

fun sf_list :: "string list \<Rightarrow> string" where
  "sf_list [] = []"
| "sf_list [p] = sf_string p"
| "sf_list (p # q # ps) = sf_string p @ '', '' @ sf_list (q # ps)"

fun sf_chars :: "string \<Rightarrow> (string \<times> string) option" where
  "sf_chars [] = None"
| "sf_chars (c # cs) =
     (if c = CHR 0x22 then Some ([], cs)
      else if c = CHR 0x5c then
        (case cs of [] \<Rightarrow> None | d # ds \<Rightarrow> map_option (apfst ((#) d)) (sf_chars ds))
      else map_option (apfst ((#) c)) (sf_chars cs))"

fun sf_parse :: "nat \<Rightarrow> string \<Rightarrow> string list option" where
  "sf_parse 0 cs = None"
| "sf_parse (Suc n) cs =
     (if cs = [] then None
      else if hd cs \<noteq> CHR 0x22 then None
      else case sf_chars (tl cs) of
        None \<Rightarrow> None
      | Some (s, rest) \<Rightarrow>
          if rest = [] then Some [s]
          else if take 2 rest = '', '' then map_option ((#) s) (sf_parse n (drop 2 rest))
          else None)"

fun sf_strings :: "sfv_value list \<Rightarrow> string list option" where
  "sf_strings [] = Some []"
| "sf_strings (SfvString s # vs) = (if sfv_printable s then map_option ((#) s) (sf_strings vs) else None)"
| "sf_strings (SfvOther s # vs) = None"

definition sf_join :: "string list \<Rightarrow> string" where
  "sf_join hs = (case hs of [] \<Rightarrow> [] | h # t \<Rightarrow> h @ concat (map (\<lambda>x. '', '' @ x) t))"

definition quoted_sfv :: sfv_ops where
  "quoted_sfv =
    \<lparr>sfv_EncodeList = (\<lambda>vs. case sf_strings vs of None \<Rightarrow> Inl (ErrorsNew ''sfv'') | Some ps \<Rightarrow> Inr (sf_list ps)),
     sfv_DecodeList = (\<lambda>hs. let h = sf_join hs in
        if h = [] then Inr []
        else case sf_parse (length h) h of
          None \<Rightarrow> Inl (ErrorsNew ''sfv'') | Some ps \<Rightarrow> Inr (map SfvString ps)),
     sfv_EncodeItem = (\<lambda>v. case sf_strings [v] of None \<Rightarrow> Inl (ErrorsNew ''sfv'') | Some ps \<Rightarrow> Inr (sf_list ps)),
     sfv_DecodeItem = (\<lambda>hs. let h = sf_join hs in
        case sf_parse (length h) h of Some [p] \<Rightarrow> Inr (SfvString p) | _ \<Rightarrow> Inl (ErrorsNew ''sfv''))\<rparr>"

lemma sf_chars_string: "sf_chars (concat (map sf_char s) @ CHR 0x22 # rest) = Some (s, rest)"
  by (induction s) (simp_all add: sf_char_def)

lemma sf_list_nonempty: "ps \<noteq> [] \<Longrightarrow> sf_list ps \<noteq> []"
  by (cases ps rule: sf_list.cases) (simp_all add: sf_string_def)

lemma sf_parse_list: "ps \<noteq> [] \<Longrightarrow> length (sf_list ps) \<le> n \<Longrightarrow> sf_parse n (sf_list ps) = Some ps"
proof (induction ps arbitrary: n rule: sf_list.induct)
  case (2 p)
  then obtain m where "n = Suc m" by (cases n) (simp_all add: sf_string_def)
  then show ?case using sf_chars_string [of p "[]"] by (simp add: sf_string_def)
next
  case (3 p q ps)
  then obtain m where n: "n = Suc m" by (cases n) (simp_all add: sf_string_def)
  with "3.prems" have "length (sf_list (q # ps)) \<le> m" by (simp add: sf_string_def)
  with "3.IH" have "sf_parse m (sf_list (q # ps)) = Some (q # ps)" by simp
  then show ?case
    using sf_chars_string [of p "'', '' @ sf_list (q # ps)"] n by (simp add: sf_string_def)
qed simp

lemma sf_strings_map: "sf_strings (map SfvString ps) = (if \<forall>p\<in>set ps. sfv_printable p then Some ps else None)"
  by (induction ps) auto

interpretation qs: sfv_codec quoted_sfv
proof
  fix ps h
  assume "sfv_EncodeList quoted_sfv (map SfvString ps) = Inr h"
  then have h: "h = sf_list ps" by (auto simp: quoted_sfv_def sf_strings_map split: if_splits)
  show "sfv_DecodeList quoted_sfv [h] = Inr (map SfvString ps)"
  proof (cases "ps = []")
    case False
    then show ?thesis using sf_parse_list [OF False] sf_list_nonempty [OF False] h
      by (simp add: quoted_sfv_def sf_join_def)
  qed (simp add: h quoted_sfv_def sf_join_def)
next
  fix p h
  assume "sfv_EncodeItem quoted_sfv (SfvString p) = Inr h"
  then have h: "h = sf_string p" by (auto simp: quoted_sfv_def split: if_splits)
  then show "sfv_DecodeItem quoted_sfv [h] = Inr (SfvString p)"
    using sf_parse_list [of "[p]" "length h"] by (simp add: quoted_sfv_def sf_join_def)
next
  fix p h
  assume "sfv_EncodeItem quoted_sfv (SfvString p) = Inr h"
  then show "h \<noteq> ''''" by (auto simp: quoted_sfv_def sf_string_def split: if_splits)
qed (simp_all add: quoted_sfv_def sf_strings_map)

section \<open>Properties\<close>

lemma negotiate_cases:
  assumes "negotiate F sel r h = Inr (p, h')"
  shows "p = '''' \<and> h' = h \<or>
    (\<exists>ps enc. p \<noteq> '''' \<and> parseAvailableProtocolsHeader F (Header_Values (r_Header r) ''WT-Available-Protocols'') = Inr ps \<and>
       p \<in> set ps \<and> encodeSelectedProtocolHeader F p = Inr enc \<and> h' = Header_Set h ''WT-Protocol'' enc)"
  using assms by (auto simp: negotiate_def split: option.splits sum.splits if_splits)

text \<open>C33: What a call of Upgrade has done when it returns. An error leaves the response unwritten (no
  status, no body, nothing flushed), so the handler can still answer. A session is returned only for a
  CONNECT over HTTP/2 whose \<open>:protocol\<close> is webtransport, after a status of 200 has been written and
  flushed, and its protocol is empty or one the request offered.\<close>
theorem Upgrade_outcomes:
  assumes "rw_status w = None" and "Upgrade F sel fullDuplex w r = (res, w')"
  shows "case res of
      Inl err \<Rightarrow> rw_status w' = None \<and> rw_body w' = rw_body w \<and> rw_flushed w' = rw_flushed w
    | Inr (s, meta) \<Rightarrow> r_Method r = ''CONNECT'' \<and> r_Proto r = ''HTTP/2.0'' \<and>
        Header_Get (r_Header r) '':protocol'' = ''webtransport'' \<and>
        rw_status w' = Some 200 \<and> rw_flushed w' \<and> isServer s \<and>
        (Protocol s = '''' \<or>
         (\<exists>ps. parseAvailableProtocolsHeader F (Header_Values (r_Header r) ''WT-Available-Protocols'') = Inr ps \<and>
               Protocol s \<in> set ps))"
  using assms negotiate_cases [of F sel r "rw_Header w"]
  by (fastforce simp: Upgrade_def WriteHeader_def newSessionConfigured_def Let_def
      split: if_splits sum.splits option.splits prod.splits)

theorem Upgrade_outcomes_witness:
  "rw_status (snd (Upgrade quoted_sfv None None new_ResponseWriter
     \<lparr>r_Method = ''GET'', r_Proto = ''HTTP/2.0'', r_Header = Map.empty, r_RemoteAddr = '''', r_RequestURI = '''',
      r_peerSettings = None\<rparr>)) = None"
proof -
  let ?r = "\<lparr>r_Method = ''GET'', r_Proto = ''HTTP/2.0'', r_Header = Map.empty, r_RemoteAddr = '''', r_RequestURI = '''',
      r_peerSettings = None\<rparr>"
  have e: "Upgrade quoted_sfv None None new_ResponseWriter ?r =
      (Inl (ErrorsNew ''expected CONNECT method''), new_ResponseWriter)" by (simp add: Upgrade_def)
  have "rw_status new_ResponseWriter = None" by (simp add: new_ResponseWriter_def)
  from Upgrade_outcomes [OF this e] e show ?thesis by simp
qed

lemma connect_result_outcomes:
  "case connect_result F u x of
      (Inr (s, meta), eff) \<Rightarrow> \<not> pw_closed eff \<and> \<not> body_closed eff \<and> \<not> isServer s
    | (Inl err, eff) \<Rightarrow> pw_closed eff \<and> (body_closed eff \<or> isl (fst x))"
  by (simp add: connect_result_def newSessionConfigured_def Let_def split: sum.split prod.split)


text \<open>The list a server hands to its selection callback is not the list the client offered: it is
  preceded by as many empty strings.\<close>
theorem available_protocols_padded:
  assumes "sfv_codec F" and "encodeAvailableProtocolsHeader F ps = Inr h"
  shows "parseAvailableProtocolsHeader F [h] = Inr (replicate (length ps) '''' @ ps)"
  using assms by (rule sfv_codec.available_roundtrip)

theorem available_protocols_padded_witness:
  "\<exists>h. encodeAvailableProtocolsHeader quoted_sfv [''echo'', ''chat''] = Inr h \<and>
     parseAvailableProtocolsHeader quoted_sfv [h] = Inr ['''', '''', ''echo'', ''chat'']"
proof -
  obtain h where h: "encodeAvailableProtocolsHeader quoted_sfv [''echo'', ''chat''] = Inr h"
    using qs.list_encodes [of "[''echo'', ''chat'']"]
    by (auto simp: encodeAvailableProtocolsHeader_def sfv_printable_def)
  from available_protocols_padded [OF qs.sfv_codec_axioms h] h show ?thesis by (simp add: numeral_2_eq_2)
qed

section \<open>The whole handshake\<close>

text \<open>
  A transport that delivers: the request reaches the handler of the server connection, the response
  and the headers come back, and the client connection records its peer's settings when it writes
  the request. A status that was not written is 200.
\<close>

definition http2_link ::
  "string \<Rightarrow> ClientConn \<Rightarrow> serverConn \<Rightarrow> (server_request \<Rightarrow> ResponseWriter) \<Rightarrow> request \<Rightarrow>
   (go_err + response) \<times> peerWTSettingsCapture" where
  "http2_link addr cc sc handler q =
     (let w = handler \<lparr>r_Method = req_Method q, r_Proto = ''HTTP/2.0'', r_Header = req_Header q, r_RemoteAddr = addr,
                r_RequestURI = url_RequestURI (req_URL q), r_peerSettings = Some (sc_peerWebTransport sc)\<rparr>;
          code = (case rw_status w of None \<Rightarrow> 200 | Some n \<Rightarrow> n)
      in (Inr \<lparr>res_StatusCode = int code, res_Status = fmt_d code, res_Header = rw_Header w\<rparr>,
          case recordPeerWebTransportSettings cc (Some (req_capture q)) of Some c \<Rightarrow> c | None \<Rightarrow> req_capture q))"

text \<open>A handler that upgrades, or answers 400, as those of internal/echo and internal/baton do.\<close>

definition upgrade_handler ::
  "sfv_ops \<Rightarrow> (server_request \<Rightarrow> string list \<Rightarrow> go_err + string) option \<Rightarrow> go_err option \<Rightarrow> server_request \<Rightarrow>
   (Session \<times> sessionMeta) option \<times> ResponseWriter" where
  "upgrade_handler F sel fullDuplex r =
     (case Upgrade F sel fullDuplex new_ResponseWriter r of
        (Inl err, w) \<Rightarrow> (None, http_Error w (Error err) 400)
      | (Inr x, w) \<Rightarrow> (Some x, w))"

text \<open>The request Connect sends, as the server sees it.\<close>

definition arriving :: "string \<Rightarrow> serverConn \<Rightarrow> req_url \<Rightarrow> Header \<Rightarrow> server_request" where
  "arriving addr sc u h =
    \<lparr>r_Method = ''CONNECT'', r_Proto = ''HTTP/2.0'', r_Header = h, r_RemoteAddr = addr,
     r_RequestURI = url_RequestURI u, r_peerSettings = Some (sc_peerWebTransport sc)\<rparr>"

lemma connect_header_protocol:
  "connect_header F ps hs = Inr h \<Longrightarrow> Header_Get h '':protocol'' = ''webtransport''"
  by (auto simp: connect_header_def Let_def Header_Get_Set split: if_splits sum.splits)

lemma connect_header_available:
  assumes "sfv_codec F" and "connect_header F ps hs = Inr h" and "ps \<noteq> []"
  shows "parseAvailableProtocolsHeader F (Header_Values h ''WT-Available-Protocols'') =
    Inr (replicate (length ps) '''' @ ps)"
  using assms sfv_codec.available_roundtrip [OF assms(1), of ps]
  by (auto simp: connect_header_def Header_Values_Set Let_def split: if_splits sum.splits)

lemma Upgrade_success:
  assumes "connect_header F ps hs = Inr h" and "negotiate F sel (arriving addr sc u h) Map.empty = Inr (p, h')"
  shows "upgrade_handler F sel None (arriving addr sc u h) =
    (Some (newSessionConfigured p True (Some (peerLimitsFromSettings (sc_peerWebTransport sc))),
           \<lparr>peerAddr = addr, meta_path = url_RequestURI u\<rparr>),
     \<lparr>rw_Header = h', rw_status = Some 200, rw_flushed = True, rw_body = ''''\<rparr>)"
  using assms connect_header_protocol [OF assms(1)]
  by (simp add: upgrade_handler_def Upgrade_def arriving_def new_ResponseWriter_def WriteHeader_def Let_def)

lemma negotiated_header:
  assumes "sfv_codec F" and "negotiate F sel r Map.empty = Inr (p, h')"
  shows "parseSelectedProtocolHeader F (Header_Values h' ''WT-Protocol'') = Inr p"
  using negotiate_cases [OF assms(2)] sfv_codec.selected_roundtrip [OF assms(1), of p]
  by (auto simp: Header_Values_Set) (simp_all add: Header_Values_def parseSelectedProtocolHeader_def)

lemma Connect_link:
  assumes "parseURL url = Inr u" and "connect_header F ps hs = Inr h" and "sfv_codec F"
    and "negotiate F sel (arriving addr sc u h) Map.empty = Inr (p, h')"
  shows "Connect F parseURL (http2_link addr cc sc (snd \<circ> upgrade_handler F sel None)) url ps (Some hs) =
    Some (Inr (newSessionConfigured p False (Some (peerLimitsFromSettings (cc_peerWebTransport cc))),
               \<lparr>peerAddr = url_Host u, meta_path = url_RequestURI u\<rparr>),
          \<lparr>pw_closed = False, body_closed = False\<rparr>)"
  using assms(1,2) Upgrade_success [OF assms(2,4)] negotiated_header [OF assms(3,4)]
  by (simp add: Connect_def http2_link_def arriving_def [symmetric] recordPeerWebTransportSettings_def
      capture_store_def capture_get_def connect_result_def Let_def)

lemma handshake_runs:
  assumes F: "sfv_codec F" and u: "parseURL url = Inr u"
    and ps: "ps \<noteq> []" "\<forall>p\<in>set ps. sfv_printable p"
    and sel: "\<And>r av. \<exists>p. sel r av = Inr p \<and> (p = '''' \<or> p \<in> set av)"
  shows "\<exists>h p h'. connect_header F ps hs = Inr h \<and> (p = '''' \<or> p \<in> set ps) \<and>
    negotiate F (Some sel) (arriving addr sc u h) Map.empty = Inr (p, h')"
proof -
  obtain enc where "encodeAvailableProtocolsHeader F ps = Inr enc"
    using sfv_codec.list_encodes [OF F ps(2)] by (auto simp: encodeAvailableProtocolsHeader_def)
  with ps(1) obtain h where h: "connect_header F ps hs = Inr h" by (auto simp: connect_header_def Let_def)
  let ?r = "arriving addr sc u h"
  let ?av = "replicate (length ps) '''' @ ps"
  have av: "parseAvailableProtocolsHeader F (Header_Values (r_Header ?r) ''WT-Available-Protocols'') = Inr ?av"
    using connect_header_available [OF F h ps(1)] by (simp add: arriving_def)
  obtain p where p: "sel ?r ?av = Inr p" "p = '''' \<or> p \<in> set ?av" using sel by blast
  then have mem: "p = '''' \<or> p \<in> set ps" by auto
  have "\<exists>h'. negotiate F (Some sel) ?r Map.empty = Inr (p, h')"
  proof (cases "p = ''''")
    case False
    with mem ps(2) have "sfv_printable p" by blast
    then obtain v where "encodeSelectedProtocolHeader F p = Inr v"
      using sfv_codec.item_encodes [OF F] by (auto simp: encodeSelectedProtocolHeader_def)
    with False p(1) mem av show ?thesis by (simp add: negotiate_def)
  qed (simp add: negotiate_def av p(1))
  with h mem show ?thesis by blast
qed


definition demo_config :: "WebTransportSettings \<Rightarrow> initialConfig" where
  "demo_config w =
    \<lparr>cfg_MaxReadFrameSize = 1048576, cfg_maxStreams = 250, cfg_maxHeaderListSize = 10485760,
     cfg_MaxDecoderHeaderTableSize = 4096, cfg_recvWindow = 1048576,
     cfg_disableExtendedConnectProtocol = False, cfg_writeSchedIgnoresRFC7540 = True,
     cfg_WebTransport = Some w\<rparr>"

definition demo_select :: "server_request \<Rightarrow> string list \<Rightarrow> go_err + string" where
  "demo_select r available = Inr (if ''echo'' \<in> set available then ''echo'' else '''')"

definition demo_url :: "string \<Rightarrow> go_err + req_url" where
  "demo_url url = Inr \<lparr>url_Host = ''localhost'', url_RequestURI = ''/webtransport/echo''\<rparr>"


end
