(* ===== verification/Credit.thy ===== *)
theory Credit
  imports Echo_Trip Handshake
begin

text \<open>
  The credit an endpoint advertises against the buffer it keeps. A stream's receive buffer takes a capsule whole or
  refuses it, and a refusal ends the read loop and with it the session; the buffer holds 64 KiB, and the default
  settings grant the peer 1 MiB a stream.
\<close>

lemma default_grant:
  "unat (peer_maxData (peerLimitsFromSettings DefaultWebTransportSettings)) = 2 ^ 20"
  "unat (peer_streamDataBidiRemote (peerLimitsFromSettings DefaultWebTransportSettings)) = 2 ^ 20"
  "0 < peer_maxStreamsBidi (peerLimitsFromSettings DefaultWebTransportSettings)"
  by (simp_all add: peerLimitsFromSettings_def DefaultWebTransportSettings_def Let_def)

lemma reserve_first:
  assumes "dataSent l = 0" and "streamSent l = Map.empty" and "n < 2 ^ 63"
    and "n \<le> unat (maxData l)" and "n \<le> unat (go_index (streamMax l) sid)"
  shows "fst (reserveSendData l sid n) = None"
proof -
  have "unat (of_nat n :: u64) = n" using assms(3) by (simp add: unat_of_nat_u64)
  with assms show ?thesis
    by (simp add: reserveSendData_def Let_def go_index_def word_less_nat_alt not_less split: option.splits)
qed

text \<open>The first write of a client on its first stream, within the grant.\<close>

lemma first_write:
  assumes "vappend V 0 = Some h" and "length p < 2 ^ 63" and "0 < peer_maxStreamsBidi pl"
    and "length p \<le> unat (peer_maxData pl)" and "length p \<le> unat (peer_streamDataBidiRemote pl)"
  shows "\<exists>c1 c2. OpenStream (newSessionConfigured pr False (Some pl)) = (Inr \<lparr>st_ID = 0, st_recv = 0, st_send = 0\<rparr>, c1) \<and>
    SendStream_Write V c1 0 p None = Some ((length p, None), c2) \<and> written c2 = [(CapsuleWTStream, h @ p)]"
proof -
  let ?l = "(adoptPeerSendLimits zero_sendLimits pl)\<lparr>openedBidi := 1, streamMax := [0 \<mapsto> peer_streamDataBidiRemote pl]\<rparr>"
  have "fst (reserveSendData ?l 0 (length p)) = None"
    using assms by (intro reserve_first) (simp_all add: adoptPeerSendLimits_def zero_sendLimits_def go_index_def)
  then obtain l where "reserveSendData ?l 0 (length p) = (None, l)" by (metis prod.collapse)
  moreover have "allocLocalStream False 0 (adoptPeerSendLimits zero_sendLimits pl) True = (Inr 0, 4, ?l)"
    using assms(3) by (simp add: allocLocalStream_def nextStreamID_def ensureStreamSendLimitLocked_def adoptPeerSendLimits_def
        zero_sendLimits_def initialStreamSendLimitLocked_def isBidirectionalStream_def isOurStream_def Let_def word_gt_0
        not_le)
  ultimately show ?thesis
    using assms(1)
    by (simp add: OpenStream_def newSessionConfigured_def newStream_def newReceiveStream_def
        newSendStream_def SendStream_Write_def writeCapsule_def Let_def)
qed

text \<open>A capsule larger than the buffer, on a new stream of a fresh server.\<close>

lemma too_large_exits:
  assumes "65536 < length p"
  shows "\<exists>s'. (\<forall>k rest. readLoop_stream k (newSessionConfigured pr True peer) 0 p False rest = Exit s') \<and>
    closeErr s' = None \<and> closeReason s' = '''' \<and> \<not> closeOnce s' \<and> ends s' = [] \<and> \<not> closeDatagramDeliveryOnce s' \<and>
    map (srb_data \<circ> recvBuffer) (recvs s') = [[]]"
  using assms
  by (simp add: readLoop_stream_def newSessionConfigured_def isBidirectionalStream_def isOurStream_def newStream_def
      newReceiveStream_def newSendStream_def accept_bidi_def enqueueIncomingStream_def select_ready_def
      incoming_capacity_def deliver_bidi_def receiveStreamData_def streamReceiveBuffer_write_def
      newStreamReceiveBuffer_def upd_recv_def defaultReceiveBufferSize_def Let_def)

text \<open>C15: A write within the peer's grant can end the peer's session. Between a client and a server with the default
  settings, the client may write up to 1 MiB on its first stream and the write succeeds; when it is over
  64 KiB, the server cannot buffer the capsule, whatever its application reads: its read loop returns, the session
  ends, it is logged as closed locally, and not a byte of the write reaches the application.\<close>
theorem granted_write_ends_session:
  assumes "wire V K" and "65536 < length p" and "length p \<le> 2 ^ 20"
  shows "\<exists>st c1 c2 d bs r.
    OpenStream (newSessionConfigured pr False (Some (peerLimitsFromSettings DefaultWebTransportSettings))) = (Inr st, c1) \<and>
    SendStream_Write V c1 (st_send st) p None = Some ((length p, None), c2) \<and>
    written c2 = [(CapsuleWTStream, d)] \<and> cap_write K CapsuleWTStream d = Some bs \<and>
    readLoop V K ks (Suc fuel) (newSessionConfigured pr True peer) (bs @ rest) e = Returned r \<and>
    done_ch r \<and> ends r = [EndReason ''local_close''] \<and> map (srb_data \<circ> recvBuffer) (recvs r) = [[]]"
proof -
  have wv: "varint_codec V" and wk: "capsule_codec K" using assms(1) by (simp_all add: wire_def)
  obtain h where h: "vappend V 0 = Some h" using varint_codec.append_small [OF wv, of 0] by auto
  obtain c1 c2 where w: "OpenStream (newSessionConfigured pr False (Some (peerLimitsFromSettings DefaultWebTransportSettings))) =
      (Inr \<lparr>st_ID = 0, st_recv = 0, st_send = 0\<rparr>, c1)"
    "SendStream_Write V c1 0 p None = Some ((length p, None), c2)" "written c2 = [(CapsuleWTStream, h @ p)]"
    using first_write [OF h, of p "peerLimitsFromSettings DefaultWebTransportSettings"] assms(3) default_grant by fastforce
  have len: "length (h @ p) < 2 ^ 62" using varint_codec.append_nonempty [OF wv h] assms(3) by simp
  obtain bs where bs: "cap_write K CapsuleWTStream (h @ p) = Some bs"
    using capsule_codec.write_ok [OF wk, of CapsuleWTStream "h @ p"] len by (auto simp: CapsuleWTStream_def)
  let ?s = "newSessionConfigured pr True peer"
  obtain s' where s': "\<And>k rest. readLoop_stream k ?s 0 p False rest = Exit s'"
    "closeErr s' = None" "closeReason s' = ''''" "\<not> closeOnce s'" "ends s' = []" "\<not> closeDatagramDeliveryOnce s'"
    "map (srb_data \<circ> recvBuffer) (recvs s') = [[]]"
    using too_large_exits [OF assms(2), of pr peer] by (elim exE conjE) (rule that, simp_all)
  have "readLoop V K ks (Suc fuel) ?s (bs @ rest) e = Returned (Session_Close s')"
    by (rule wire.exit_on_capsule [OF assms(1) _ bs len])
      (simp_all add: newSessionConfigured_def [of pr True peer, THEN arg_cong [where f = stop]]
        wire.data_capsule_dispatch(1) [OF assms(1) h] s'(1))
  moreover have "done_ch (Session_Close s') \<and> ends (Session_Close s') = [EndReason ''local_close''] \<and>
      map (srb_data \<circ> recvBuffer) (recvs (Session_Close s')) = [[]]"
    using s'(2-) by (simp add: Session_Close_def Let_def logSessionEnd_def session_end_of_def closeDatagramDelivery_def)
  ultimately show ?thesis using w bs by fastforce
qed

theorem granted_write_ends_session_witness:
  "\<exists>bs r. readLoop quicwire_varint quicwire_capsule (\<lambda>_. 0) 1 (newSessionConfigured ''p'' True None) bs EOF = Returned r \<and>
     ends r = [EndReason ''local_close'']"
proof -
  have "65536 < length (replicate 70000 (0 :: 8 word))" "length (replicate 70000 (0 :: 8 word)) \<le> 2 ^ 20"
    unfolding length_replicate by simp_all
  from granted_write_ends_session [OF qwk.wire_axioms this, of "''p''" "\<lambda>_. 0" 0 None "[]" EOF] show ?thesis
    unfolding One_nat_def by blast
qed

end
