(* ===== verification/Huffman_Table.thy ===== *)
theory Huffman_Table
  imports Hpack_Codec "HOL-Library.Sublist"
begin

unbundle bit_operations_syntax

text \<open>
  third\_party/net/http2/hpack/tables.go: the table of the Huffman code. The code of a byte is the list of its
  bits, the most significant first. The table is a complete prefix code together with the end-of-string code of
  30 ones; this is checked once, along the codes in increasing order, and the rest of the theory derives from it
  that no code begins another, that no code is all ones, and that any other eight bits agree with some code.
\<close>

section \<open>The tables\<close>

definition huffman_values :: "int list" where
  "huffman_values = [
    0x1ff8, 0x7fffd8, 0xfffffe2, 0xfffffe3, 0xfffffe4, 0xfffffe5, 0xfffffe6, 0xfffffe7, 0xfffffe8,
    0xffffea, 0x3ffffffc, 0xfffffe9, 0xfffffea, 0x3ffffffd, 0xfffffeb, 0xfffffec, 0xfffffed,
    0xfffffee, 0xfffffef, 0xffffff0, 0xffffff1, 0xffffff2, 0x3ffffffe, 0xffffff3, 0xffffff4,
    0xffffff5, 0xffffff6, 0xffffff7, 0xffffff8, 0xffffff9, 0xffffffa, 0xffffffb, 0x14, 0x3f8,
    0x3f9, 0xffa, 0x1ff9, 0x15, 0xf8, 0x7fa, 0x3fa, 0x3fb, 0xf9, 0x7fb, 0xfa, 0x16, 0x17, 0x18,
    0x0, 0x1, 0x2, 0x19, 0x1a, 0x1b, 0x1c, 0x1d, 0x1e, 0x1f, 0x5c, 0xfb, 0x7ffc, 0x20, 0xffb,
    0x3fc, 0x1ffa, 0x21, 0x5d, 0x5e, 0x5f, 0x60, 0x61, 0x62, 0x63, 0x64, 0x65, 0x66, 0x67, 0x68,
    0x69, 0x6a, 0x6b, 0x6c, 0x6d, 0x6e, 0x6f, 0x70, 0x71, 0x72, 0xfc, 0x73, 0xfd, 0x1ffb, 0x7fff0,
    0x1ffc, 0x3ffc, 0x22, 0x7ffd, 0x3, 0x23, 0x4, 0x24, 0x5, 0x25, 0x26, 0x27, 0x6, 0x74, 0x75,
    0x28, 0x29, 0x2a, 0x7, 0x2b, 0x76, 0x2c, 0x8, 0x9, 0x2d, 0x77, 0x78, 0x79, 0x7a, 0x7b, 0x7ffe,
    0x7fc, 0x3ffd, 0x1ffd, 0xffffffc, 0xfffe6, 0x3fffd2, 0xfffe7, 0xfffe8, 0x3fffd3, 0x3fffd4,
    0x3fffd5, 0x7fffd9, 0x3fffd6, 0x7fffda, 0x7fffdb, 0x7fffdc, 0x7fffdd, 0x7fffde, 0xffffeb,
    0x7fffdf, 0xffffec, 0xffffed, 0x3fffd7, 0x7fffe0, 0xffffee, 0x7fffe1, 0x7fffe2, 0x7fffe3,
    0x7fffe4, 0x1fffdc, 0x3fffd8, 0x7fffe5, 0x3fffd9, 0x7fffe6, 0x7fffe7, 0xffffef, 0x3fffda,
    0x1fffdd, 0xfffe9, 0x3fffdb, 0x3fffdc, 0x7fffe8, 0x7fffe9, 0x1fffde, 0x7fffea, 0x3fffdd,
    0x3fffde, 0xfffff0, 0x1fffdf, 0x3fffdf, 0x7fffeb, 0x7fffec, 0x1fffe0, 0x1fffe1, 0x3fffe0,
    0x1fffe2, 0x7fffed, 0x3fffe1, 0x7fffee, 0x7fffef, 0xfffea, 0x3fffe2, 0x3fffe3, 0x3fffe4,
    0x7ffff0, 0x3fffe5, 0x3fffe6, 0x7ffff1, 0x3ffffe0, 0x3ffffe1, 0xfffeb, 0x7fff1, 0x3fffe7,
    0x7ffff2, 0x3fffe8, 0x1ffffec, 0x3ffffe2, 0x3ffffe3, 0x3ffffe4, 0x7ffffde, 0x7ffffdf,
    0x3ffffe5, 0xfffff1, 0x1ffffed, 0x7fff2, 0x1fffe3, 0x3ffffe6, 0x7ffffe0, 0x7ffffe1, 0x3ffffe7,
    0x7ffffe2, 0xfffff2, 0x1fffe4, 0x1fffe5, 0x3ffffe8, 0x3ffffe9, 0xffffffd, 0x7ffffe3, 0x7ffffe4,
    0x7ffffe5, 0xfffec, 0xfffff3, 0xfffed, 0x1fffe6, 0x3fffe9, 0x1fffe7, 0x1fffe8, 0x7ffff3,
    0x3fffea, 0x3fffeb, 0x1ffffee, 0x1ffffef, 0xfffff4, 0xfffff5, 0x3ffffea, 0x7ffff4, 0x3ffffeb,
    0x7ffffe6, 0x3ffffec, 0x3ffffed, 0x7ffffe7, 0x7ffffe8, 0x7ffffe9, 0x7ffffea, 0x7ffffeb,
    0xffffffe, 0x7ffffec, 0x7ffffed, 0x7ffffee, 0x7ffffef, 0x7fffff0, 0x3ffffee]"

definition huffman_lengths :: "int list" where
  "huffman_lengths = [
    13, 23, 28, 28, 28, 28, 28, 28, 28, 24, 30, 28, 28, 30, 28, 28, 28, 28, 28, 28, 28, 28, 30, 28,
    28, 28, 28, 28, 28, 28, 28, 28, 6, 10, 10, 12, 13, 6, 8, 11, 10, 10, 8, 11, 8, 6, 6, 6, 5, 5,
    5, 6, 6, 6, 6, 6, 6, 6, 7, 8, 15, 6, 12, 10, 13, 6, 7, 7, 7, 7, 7, 7, 7, 7, 7, 7, 7, 7, 7, 7,
    7, 7, 7, 7, 7, 7, 7, 7, 8, 7, 8, 13, 19, 13, 14, 6, 15, 5, 6, 5, 6, 5, 6, 6, 6, 5, 7, 7, 6, 6,
    6, 5, 6, 7, 6, 5, 5, 6, 7, 7, 7, 7, 7, 15, 11, 14, 13, 28, 20, 22, 20, 20, 22, 22, 22, 23, 22,
    23, 23, 23, 23, 23, 24, 23, 24, 24, 22, 23, 24, 23, 23, 23, 23, 21, 22, 23, 22, 23, 23, 24, 22,
    21, 20, 22, 22, 23, 23, 21, 23, 22, 22, 24, 21, 22, 23, 23, 21, 21, 22, 21, 23, 22, 23, 23, 20,
    22, 22, 22, 23, 22, 22, 23, 26, 26, 20, 19, 22, 23, 22, 25, 26, 26, 26, 27, 27, 26, 24, 25, 19,
    21, 26, 27, 27, 26, 27, 24, 21, 21, 26, 26, 28, 27, 27, 27, 20, 24, 20, 21, 22, 21, 21, 23, 22,
    22, 25, 25, 24, 24, 26, 23, 26, 27, 26, 26, 27, 27, 27, 27, 27, 28, 27, 27, 27, 27, 27, 26]"

definition huffmanCodes :: "u32 list" where
  "huffmanCodes = map word_of_int huffman_values"

definition huffmanCodeLen :: "nat list" where
  "huffmanCodeLen = map nat huffman_lengths"

text \<open>The codes in increasing order: by their lengths, and among those of one length in the order of the table.\<close>

definition by_length :: "('a \<times> int) list \<Rightarrow> ('a \<times> int) list" where
  "by_length t = concat (map (\<lambda>l. filter (\<lambda>x. snd x = l) t) [5..30])"

text \<open>The intervals of the codes, as fractions of \<open>2^30\<close>, adjoin one another; what is left is the end of string.\<close>

fun code_chain :: "int \<Rightarrow> (int \<times> int) list \<Rightarrow> bool" where
  "code_chain pos [] \<longleftrightarrow> pos = 2 ^ 30 - 1"
| "code_chain pos ((code, len) # cs) \<longleftrightarrow> 0 \<le> code \<and> code < 2 ^ nat len \<and> code * 2 ^ nat (30 - len) = pos \<and>
     code_chain ((code + 1) * 2 ^ nat (30 - len)) cs"

lemma table_lengths: "length huffman_values = 256" "length huffman_lengths = 256"
  by (simp_all add: huffman_values_def huffman_lengths_def)

lemma lens: "list_all (\<lambda>l. 5 \<le> l \<and> l \<le> 30) huffman_lengths"
  by (simp add: huffman_lengths_def)

lemma codes_chain: "code_chain 0 (by_length (zip huffman_values huffman_lengths))"
  by code_simp

section \<open>A complete prefix code\<close>

lemma one_hit: "distinct ls \<Longrightarrow> a \<in> set ls \<Longrightarrow> (\<Sum>l\<leftarrow>ls. if a = l then 1 else 0 :: nat) = 1"
proof (induction ls)
  case (Cons l ls)
  have "(\<Sum>l\<leftarrow>ls. if a = l then 1 else 0 :: nat) = 0" if "a \<notin> set ls" using that by (induction ls) auto
  with Cons show ?case by auto
qed simp

lemma length_groups:
  assumes "distinct ls" and "\<forall>x\<in>set t. snd x \<in> set ls"
  shows "length (concat (map (\<lambda>l. filter (\<lambda>x. snd x = l) t) ls)) = length t"
  using assms(2)
proof (induction t)
  case Nil
  then show ?case by (simp add: length_concat comp_def)
next
  case (Cons x t)
  have "length (concat (map (\<lambda>l. filter (\<lambda>x. snd x = l) (x # t)) ls)) =
      (\<Sum>l\<leftarrow>ls. (if snd x = l then 1 else 0) + length (filter (\<lambda>x. snd x = l) t))"
    unfolding length_concat map_map comp_def by (intro arg_cong [of _ _ sum_list] map_cong) simp_all
  also have "\<dots> = 1 + length t"
    using one_hit [OF assms(1), of "snd x"] Cons by (simp add: sum_list_addf length_concat comp_def)
  finally show ?case by simp
qed

lemma length_by_length: "\<forall>x\<in>set t. 5 \<le> snd x \<and> snd x \<le> 30 \<Longrightarrow> length (by_length t) = length t"
  unfolding by_length_def by (rule length_groups) (simp_all only: distinct_upto set_upto atLeastAtMost_iff)

lemma set_by_length: "\<forall>x\<in>set t. 5 \<le> snd x \<and> snd x \<le> 30 \<Longrightarrow> set (by_length t) = set t"
  unfolding by_length_def set_concat set_map set_upto by fastforce

definition interval_low :: "int \<times> int \<Rightarrow> int" where
  "interval_low x = fst x * 2 ^ nat (30 - snd x)"

definition interval_high :: "int \<times> int \<Rightarrow> int" where
  "interval_high x = (fst x + 1) * 2 ^ nat (30 - snd x)"

lemma chain_bounds:
  "code_chain pos cs \<Longrightarrow> x \<in> set cs \<Longrightarrow>
   pos \<le> interval_low x \<and> interval_low x < interval_high x \<and> interval_high x \<le> 2 ^ 30 - 1 \<and> 0 \<le> fst x \<and> fst x < 2 ^ nat (snd x)"
proof (induction pos cs rule: code_chain.induct)
  case (2 pos code len cs)
  have lt: "code * 2 ^ nat (30 - len) < (code + 1) * 2 ^ nat (30 - len)" by simp
  have end_: "pos' \<le> 2 ^ 30 - 1" if "code_chain pos' cs'" for pos' cs'
    using that
  proof (induction pos' cs' rule: code_chain.induct)
    case (2 p c l ds)
    then have "p < (c + 1) * 2 ^ nat (30 - l)" by auto
    with 2 show ?case by fastforce
  qed simp
  from 2 lt end_ [of "(code + 1) * 2 ^ nat (30 - len)" cs] show ?case
    by (fastforce simp: interval_low_def interval_high_def)
qed simp

lemma chain_distinct: "code_chain pos cs \<Longrightarrow> distinct cs"
proof (induction pos cs rule: code_chain.induct)
  case (2 pos code len cs)
  have "(code, len) \<notin> set cs"
  proof
    assume "(code, len) \<in> set cs"
    with 2 have "(code + 1) * 2 ^ nat (30 - len) \<le> interval_low (code, len)" using chain_bounds by fastforce
    then show False by (simp add: interval_low_def)
  qed
  with 2 show ?case by simp
qed simp

lemma chain_disjoint:
  "code_chain pos cs \<Longrightarrow> x \<in> set cs \<Longrightarrow> y \<in> set cs \<Longrightarrow> x \<noteq> y \<Longrightarrow>
   interval_high x \<le> interval_low y \<or> interval_high y \<le> interval_low x"
proof (induction pos cs rule: code_chain.induct)
  case (2 pos code len cs)
  have "interval_high (code, len) \<le> interval_low z" if "z \<in> set cs" for z
    using 2 that chain_bounds [of "interval_high (code, len)" cs z] by (simp add: interval_high_def)
  with 2 show ?case by (metis code_chain.simps(2) set_ConsD)
qed simp

definition code_len :: "byte \<Rightarrow> nat" where
  "code_len c = huffmanCodeLen ! unat c"

definition code_word :: "byte \<Rightarrow> u32" where
  "code_word c = huffmanCodes ! unat c"

definition code_pair :: "byte \<Rightarrow> int \<times> int" where
  "code_pair c = (huffman_values ! unat c, huffman_lengths ! unat c)"

lemma unat_byte [simp]: "unat (c :: byte) < 256"
  using unsigned_less [of c, where ?'a = nat] by simp

lemma table_range: "\<forall>x\<in>set (zip huffman_values huffman_lengths). 5 \<le> snd x \<and> snd x \<le> 30"
  using lens by (auto simp: list_all_iff dest: set_zip_rightD)

lemma table_chain:
  "code_chain 0 (by_length (zip huffman_values huffman_lengths))"
  "set (by_length (zip huffman_values huffman_lengths)) = set (zip huffman_values huffman_lengths)"
  using codes_chain set_by_length [OF table_range] by simp_all

lemma table_distinct: "distinct (zip huffman_values huffman_lengths)"
  using chain_distinct [OF table_chain(1)] length_by_length [OF table_range] table_chain(2)
  by (metis card_distinct distinct_card)

lemma code_pair_in: "code_pair c \<in> set (by_length (zip huffman_values huffman_lengths))"
  unfolding table_chain(2) code_pair_def
  by (metis length_zip min.idem nth_mem nth_zip table_lengths(1) table_lengths(2) unat_byte)

lemma code_pair_inj: "code_pair c = code_pair d \<Longrightarrow> c = d"
proof -
  assume "code_pair c = code_pair d"
  then have "zip huffman_values huffman_lengths ! unat c = zip huffman_values huffman_lengths ! unat d"
    by (simp add: code_pair_def table_lengths)
  then have "unat c = unat d"
    using nth_eq_iff_index_eq [OF table_distinct, of "unat c" "unat d"] by (simp only: length_zip table_lengths min.idem unat_byte)
  then show "c = d" by (rule word_unat_eq_iff [THEN iffD2])
qed

lemma code_len_range: "5 \<le> code_len c" "code_len c \<le> 30" "snd (code_pair c) = int (code_len c)"
proof -
  have "huffman_lengths ! unat c \<in> set huffman_lengths" by (simp add: table_lengths)
  then have r: "5 \<le> huffman_lengths ! unat c \<and> huffman_lengths ! unat c \<le> 30" using lens by (simp add: list_all_iff)
  have "code_len c = nat (huffman_lengths ! unat c)" by (simp add: code_len_def huffmanCodeLen_def table_lengths)
  with r show "5 \<le> code_len c" "code_len c \<le> 30" "snd (code_pair c) = int (code_len c)"
    unfolding code_pair_def snd_conv by linarith+
qed

lemma code_word_value: "fst (code_pair c) = int (unat (code_word c))" "unat (code_word c) < 2 ^ code_len c"
proof -
  have b: "0 \<le> fst (code_pair c)" "fst (code_pair c) < 2 ^ code_len c"
    using chain_bounds [OF table_chain(1) code_pair_in, of c] code_len_range(3) [of c] by simp_all
  have "(2 :: int) ^ code_len c \<le> 2 ^ 30" using code_len_range(2) by (rule power_increasing) simp
  with b have "fst (code_pair c) < 2 ^ 32" by simp
  with b have u: "uint (word_of_int (fst (code_pair c)) :: u32) = fst (code_pair c)"
    by (simp add: unsigned_of_int take_bit_int_eq_self)
  have w: "code_word c = word_of_int (fst (code_pair c))" by (simp add: code_word_def huffmanCodes_def code_pair_def table_lengths)
  show v: "fst (code_pair c) = int (unat (code_word c))" unfolding w using u by simp
  with b(2) show "unat (code_word c) < 2 ^ code_len c" by (metis of_nat_less_iff of_nat_numeral of_nat_power)
qed

text \<open>The intervals as natural numbers.\<close>

definition code_low :: "byte \<Rightarrow> nat" where "code_low c = unat (code_word c) * 2 ^ (30 - code_len c)"
definition code_high :: "byte \<Rightarrow> nat" where "code_high c = (unat (code_word c) + 1) * 2 ^ (30 - code_len c)"

lemma code_intervals: "int (code_low c) = interval_low (code_pair c)" "int (code_high c) = interval_high (code_pair c)"
proof -
  have "nat (30 - int (code_len c)) = 30 - code_len c" by linarith
  then show "int (code_low c) = interval_low (code_pair c)" "int (code_high c) = interval_high (code_pair c)"
    by (simp_all add: code_low_def code_high_def interval_low_def interval_high_def code_len_range(3) code_word_value(1) algebra_simps)
qed

lemma codes_disjoint:
  assumes "c \<noteq> d"
  shows "code_high c \<le> code_low d \<or> code_high d \<le> code_low c"
  using chain_disjoint [OF table_chain(1) code_pair_in code_pair_in, of c d] assms code_pair_inj code_intervals
  by (metis of_nat_le_iff)

lemma code_below_eos: "code_high c \<le> 2 ^ 30 - 1"
proof -
  have "int (code_high c) \<le> 2 ^ 30 - 1"
    using chain_bounds [OF table_chain(1) code_pair_in, of c] by (simp add: code_intervals)
  then show ?thesis by simp
qed

section \<open>Words as lists of bits\<close>

definition wbits :: "nat \<Rightarrow> 'a::len word \<Rightarrow> bool list" where
  "wbits n x = map (bit x) (rev [0..<n])"

definition bval :: "bool list \<Rightarrow> nat" where
  "bval = foldl (\<lambda>n b. 2 * n + of_bool b) 0"

lemma length_wbits [simp]: "length (wbits n x) = n"
  by (simp add: wbits_def)

lemma wbits_0 [simp]: "wbits 0 x = []"
  by (simp add: wbits_def)

lemma nth_wbits: "i < n \<Longrightarrow> wbits n x ! i = bit x (n - Suc i)"
  by (simp add: wbits_def rev_nth)

lemma wbits_add: "wbits (m + k) x = wbits m (drop_bit k x) @ wbits k x"
proof (rule nth_equalityI)
  fix i assume "i < length (wbits (m + k) x)"
  then show "wbits (m + k) x ! i = (wbits m (drop_bit k x) @ wbits k x) ! i"
    by (cases "i < m") (simp_all add: nth_append nth_wbits bit_drop_bit_eq add.commute)
qed simp

lemma wbits_cong: "(\<And>i. i < n \<Longrightarrow> bit x i = bit y i) \<Longrightarrow> wbits n x = wbits n y"
  by (simp add: wbits_def)

lemma wbits_ucast: "n \<le> LENGTH('b::len) \<Longrightarrow> wbits n (ucast x :: 'b word) = wbits n (x :: 'a::len word)"
  by (cases "n \<le> LENGTH('a)") (auto intro!: wbits_cong simp: bit_unsigned_iff dest: bit_imp_le_length)

lemma bval_append: "bval (xs @ ys) = bval xs * 2 ^ length ys + bval ys"
proof (induction ys rule: rev_induct)
  case (snoc y ys)
  then show ?case by (simp add: bval_def algebra_simps flip: append_assoc)
qed (simp add: bval_def)

lemma bval_simps [simp]: "bval [] = 0" "bval [b] = of_bool b"
  by (simp_all add: bval_def)

lemma bval_less: "bval xs < 2 ^ length xs"
  by (induction xs rule: rev_induct) (simp_all add: bval_append)

lemma bval_inj: "bval xs = bval ys \<Longrightarrow> length xs = length ys \<Longrightarrow> xs = ys"
proof (induction xs arbitrary: ys rule: rev_induct)
  case (snoc x xs)
  then obtain y zs where ys: "ys = zs @ [y]" by (metis length_append_singleton length_greater_0_conv rev_exhaust zero_less_Suc list.size(3))
  with snoc.prems have e: "2 * bval xs + of_bool x = 2 * bval zs + (of_bool y :: nat)" by (simp add: bval_append)
  then have "x = y" "bval xs = bval zs" by (cases x; cases y; simp; presburger)+
  with snoc ys show ?case by simp
qed simp

lemma bval_wbits: "bval (wbits n x) = unat x mod 2 ^ n"
proof (induction n arbitrary: x)
  case (Suc n)
  have "bval (wbits (Suc n) x) = of_bool (bit x n) * 2 ^ n + unat x mod 2 ^ n"
    using Suc [of x] wbits_add [of 1 n x] by (simp add: bval_append) (simp add: wbits_def bit_drop_bit_eq)
  also have "\<dots> = unat x mod 2 ^ Suc n"
    using take_bit_Suc_from_most [of n "unat x"] by (simp add: take_bit_eq_mod bit_unsigned_iff)
  finally show ?case .
qed simp

lemma bval_replicate: "bval (replicate n True) = 2 ^ n - 1"
proof (induction n)
  case (Suc n)
  have "bval (replicate (Suc n) True) = bval (replicate n True) * 2 + 1"
    by (simp add: replicate_append_same [symmetric] bval_append del: replicate_append_same)
  moreover have "1 \<le> (2 :: nat) ^ n" by simp
  ultimately show ?case using Suc by (simp only: power_Suc)
qed simp

lemma prefix_bval: "prefix w v \<longleftrightarrow> length w \<le> length v \<and> bval w = bval v div 2 ^ (length v - length w)"
proof
  assume "prefix w v"
  then obtain u where "v = w @ u" by (auto simp: prefix_def)
  then show "length w \<le> length v \<and> bval w = bval v div 2 ^ (length v - length w)" using bval_less [of u] by (simp add: bval_append)
next
  assume a: "length w \<le> length v \<and> bval w = bval v div 2 ^ (length v - length w)"
  let ?p = "take (length w) v" and ?u = "drop (length w) v"
  have "bval v = bval ?p * 2 ^ length ?u + bval ?u" using bval_append [of ?p ?u] by simp
  then have "bval v div 2 ^ length ?u = bval ?p" using bval_less [of ?u] by simp
  with a have "bval w = bval ?p" by simp
  then have "w = ?p" using a by (intro bval_inj) simp_all
  then show "prefix w v" by (metis take_is_prefix)
qed

section \<open>The prefix code\<close>

definition code_bits :: "byte \<Rightarrow> bool list" where
  "code_bits c = wbits (code_len c) (code_word c)"

lemma length_code_bits [simp]: "length (code_bits c) = code_len c"
  by (simp add: code_bits_def)

lemma bval_code_bits: "bval (code_bits c) = unat (code_word c)"
  using code_word_value(2) [of c] by (simp add: code_bits_def bval_wbits)

lemma code_prefix_free:
  assumes "prefix (code_bits c) (code_bits d)"
  shows "c = d"
proof (rule ccontr)
  assume ne: "c \<noteq> d"
  let ?k = "code_len d - code_len c"
  have l: "code_len c \<le> code_len d" and v: "unat (code_word c) = unat (code_word d) div 2 ^ ?k"
    using assms by (simp_all add: prefix_bval bval_code_bits)
  have e: "30 - code_len c = ?k + (30 - code_len d)" using l code_len_range(2) [of d] by simp
  let ?m = "2 ^ (30 - code_len d) :: nat"
  have "unat (code_word c) * 2 ^ ?k \<le> unat (code_word d)" "unat (code_word d) < (unat (code_word c) + 1) * 2 ^ ?k"
    unfolding v using dividend_less_times_div [of "2 ^ ?k" "unat (code_word d)"] by (simp_all add: div_times_less_eq_dividend algebra_simps)
  then have "unat (code_word c) * 2 ^ ?k * ?m \<le> unat (code_word d) * ?m" "unat (code_word d) * ?m < (unat (code_word c) + 1) * 2 ^ ?k * ?m"
    by (simp_all only: mult_le_mono1 mult_less_mono1 zero_less_power zero_less_numeral)
  then have "code_low c \<le> code_low d" "code_low d < code_high c"
    unfolding code_low_def code_high_def e by (simp_all only: power_add mult.assoc)
  moreover have "code_low d < code_high d" by (simp add: code_low_def code_high_def)
  ultimately show False using codes_disjoint [OF ne] by linarith
qed

lemma code_not_ones: "\<not> prefix (code_bits c) (replicate n True)"
proof
  assume "prefix (code_bits c) (replicate n True)"
  then have "code_bits c = replicate (code_len c) True"
    by (metis append_eq_conv_conj length_code_bits prefix_def take_replicate min_def prefix_length_le length_replicate)
  then have "unat (code_word c) = 2 ^ code_len c - 1" by (metis bval_code_bits bval_replicate)
  then have "code_high c = 2 ^ code_len c * 2 ^ (30 - code_len c)" by (simp add: code_high_def)
  also have "\<dots> = 2 ^ 30" using code_len_range(2) [of c] by (simp flip: power_add)
  finally show False using code_below_eos [of c] by simp
qed

text \<open>Every string of eight bits other than eight ones agrees with some code.\<close>

lemma chain_cover:
  "code_chain pos cs \<Longrightarrow> pos \<le> v \<Longrightarrow> v < 2 ^ 30 - 1 \<Longrightarrow> \<exists>x\<in>set cs. interval_low x \<le> v \<and> v < interval_high x"
proof (induction pos cs rule: code_chain.induct)
  case (2 pos code len cs)
  show ?case
  proof (cases "v < (code + 1) * 2 ^ nat (30 - len)")
    case True
    with 2 show ?thesis by (auto simp: interval_low_def interval_high_def)
  next
    case False
    with 2 show ?thesis by auto
  qed
qed simp

lemma code_covers:
  assumes "length w = 8" and "w \<noteq> replicate 8 True"
  shows "\<exists>c. prefix (code_bits c) w \<or> prefix w (code_bits c)"
proof -
  have "bval w \<noteq> 2 ^ 8 - 1" using assms bval_inj [of w "replicate 8 True"] bval_replicate [of 8] by auto
  then have b: "bval w < 255" using bval_less [of w] assms(1) by simp
  let ?v = "bval w * 2 ^ 22"
  have "int ?v < 2 ^ 30 - 1" using b by simp
  then obtain x where x: "x \<in> set (by_length (zip huffman_values huffman_lengths))" "interval_low x \<le> int ?v" "int ?v < interval_high x"
    using chain_cover [OF table_chain(1), of "int ?v"] by auto
  obtain i where i: "i < 256" "x = (huffman_values ! i, huffman_lengths ! i)"
    using x(1) unfolding table_chain(2) set_zip by (auto simp: table_lengths)
  then have "x = code_pair (of_nat i)" by (simp add: code_pair_def unat_of_nat)
  with x(2,3) have "code_low (of_nat i) \<le> ?v" "?v < code_high (of_nat i)"
    by (metis code_intervals(1) of_nat_le_iff, metis code_intervals(2) of_nat_less_iff)
  then obtain c where c: "code_low c \<le> ?v" "?v < code_high c" by blast
  show ?thesis
  proof (cases "code_len c \<le> 8")
    case True
    then have e: "30 - code_len c = (8 - code_len c) + 22" by simp
    have "unat (code_word c) * 2 ^ (8 - code_len c) \<le> bval w" "bval w < (unat (code_word c) + 1) * 2 ^ (8 - code_len c)"
      using c unfolding code_low_def code_high_def e power_add by (simp_all flip: mult.assoc)
    then have "unat (code_word c) = bval w div 2 ^ (8 - code_len c)"
      by (intro div_nat_eqI [symmetric]) (simp_all add: algebra_simps)
    then have "prefix (code_bits c) w" using True assms(1) by (simp add: prefix_bval bval_code_bits)
    then show ?thesis by blast
  next
    case False
    let ?k = "code_len c - 8"
    have e: "22 = ?k + (30 - code_len c)" using False code_len_range(2) [of c] by simp
    have "?v = bval w * 2 ^ ?k * 2 ^ (30 - code_len c)" by (subst e) (simp only: power_add mult.assoc)
    then have "unat (code_word c) \<le> bval w * 2 ^ ?k" "bval w * 2 ^ ?k < unat (code_word c) + 1"
      using c unfolding code_low_def code_high_def by (simp_all only: mult_le_cancel2 mult_less_cancel2)
    then have "unat (code_word c) = bval w * 2 ^ ?k" by simp
    then have "prefix w (code_bits c)" using False assms(1) by (simp add: prefix_bval bval_code_bits)
    then show ?thesis by blast
  qed
qed

end
