(* ===== verification/Huffman_Encode.thy ===== *)
theory Huffman_Encode
  imports Huffman_Table
begin

unbundle bit_operations_syntax

text \<open>
  third\_party/net/http2/hpack/huffman.go, the encoder: \<open>AppendHuffmanString\<close> with its 64-bit buffer, which it
  empties four bytes at a time, and \<open>HuffmanEncodeLength\<close>. What it appends is the codes of the bytes, filled up
  with fewer than eight ones, and those bits determine the string.
\<close>

text \<open>The bits of a string of bytes, as codes and as bytes.\<close>

definition huff_bits :: "bytes \<Rightarrow> bool list" where
  "huff_bits s = concat (map code_bits s)"

definition byte_bits :: "bytes \<Rightarrow> bool list" where
  "byte_bits v = concat (map (wbits 8) v)"

lemma huff_bits_simps [simp]: "huff_bits [] = []" "huff_bits (c # s) = code_bits c @ huff_bits s"
  "huff_bits (s @ t) = huff_bits s @ huff_bits t"
  by (simp_all add: huff_bits_def)

lemma byte_bits_simps [simp]: "byte_bits [] = []" "byte_bits (b # v) = wbits 8 b @ byte_bits v"
  "byte_bits (v @ u) = byte_bits v @ byte_bits u"
  by (simp_all add: byte_bits_def)

lemma length_byte_bits [simp]: "length (byte_bits v) = 8 * length v"
  by (induction v) simp_all

lemma wbits_inj: "wbits LENGTH('a) x = wbits LENGTH('a) y \<Longrightarrow> x = (y :: 'a::len word)"
proof -
  assume "wbits LENGTH('a) x = wbits LENGTH('a) y"
  then have "unat x mod 2 ^ LENGTH('a) = unat y mod 2 ^ LENGTH('a)" by (metis bval_wbits)
  then have "unat x = unat y" using unsigned_less [of x, where ?'a = nat] unsigned_less [of y, where ?'a = nat] by simp
  then show "x = y" by (rule word_unat_eq_iff [THEN iffD2])
qed

lemma wbits8_inj: "wbits 8 x = wbits 8 y \<longleftrightarrow> x = (y :: byte)"
  using wbits_inj [of x y] by auto

lemma byte_bits_inj: "byte_bits v = byte_bits u \<Longrightarrow> v = u"
proof (induction v arbitrary: u)
  case Nil
  then show ?case by (cases u) (simp_all, metis length_wbits list.size(3) zero_neq_numeral)
next
  case (Cons b v)
  then show ?case by (cases u) (auto simp: wbits8_inj dest: arg_cong [where f = length])
qed

text \<open>Unique decoding: of two readings of the same bits, one is a beginning of the other, unless codes
  hide in what follows.\<close>

lemma code_bits_nonempty [simp]: "code_bits c \<noteq> []"
  using code_len_range(1) [of c] length_code_bits [of c] by (metis list.size(3) not_numeral_le_zero)

lemma unique_decoding:
  assumes "huff_bits s @ x = huff_bits t @ y"
  shows "(\<exists>u. t = s @ u \<and> x = huff_bits u @ y) \<or> (\<exists>u. s = t @ u \<and> y = huff_bits u @ x)"
  using assms
proof (induction s arbitrary: t)
  case (Cons c s)
  show ?case
  proof (cases t)
    case Nil
    with Cons.prems show ?thesis by simp
  next
    case (Cons d t')
    have e: "code_bits c @ (huff_bits s @ x) = code_bits d @ (huff_bits t' @ y)" using Cons.prems Cons by simp
    then have "prefix (code_bits c) (code_bits d) \<or> prefix (code_bits d) (code_bits c)"
      by (metis prefixI prefix_same_cases)
    then have "c = d" using code_prefix_free by blast
    with e Cons.IH [of t'] Cons show ?thesis by simp
  qed
qed simp

text \<open>The codes of a string and fewer than eight ones determine the string.\<close>

lemma padded_unique:
  assumes "huff_bits s @ x = huff_bits t @ replicate k True"
  shows "\<exists>u. t = s @ u \<and> x = huff_bits u @ replicate k True"
proof -
  have "u = []" if "replicate k True = huff_bits u @ x" for u
  proof (rule ccontr)
    assume "u \<noteq> []"
    then obtain c u' where "u = c # u'" by (cases u) auto
    with that have "prefix (code_bits c) (replicate k True)" by simp
    then show False using code_not_ones by blast
  qed
  with unique_decoding [OF assms] show ?thesis by (metis append_Nil append_Nil2 huff_bits_simps(1))
qed

section \<open>The encoder\<close>

fun AppendHuffman_loop :: "bytes \<Rightarrow> u64 \<Rightarrow> nat \<Rightarrow> bytes \<Rightarrow> bytes \<times> u64 \<times> nat" where
  "AppendHuffman_loop dst x n [] = (dst, x, n)"
| "AppendHuffman_loop dst x n (c # s) =
     (let n1 = n + huffmanCodeLen ! unat c;
          x1 = push_bit (huffmanCodeLen ! unat c mod 64) x OR ucast (huffmanCodes ! unat c)
      in if n1 \<ge> 32 then
           (let n2 = n1 mod 32; y = (ucast (drop_bit n2 x1) :: u32)
            in AppendHuffman_loop
                 (dst @ [ucast (drop_bit 24 y), ucast (drop_bit 16 y), ucast (drop_bit 8 y), ucast y]) x1 n2 s)
         else AppendHuffman_loop dst x1 n1 s)"

definition AppendHuffmanString :: "bytes \<Rightarrow> bytes \<Rightarrow> bytes" where
  "AppendHuffmanString dst s =
     (case AppendHuffman_loop dst 0 0 s of (dst, x0, n0) \<Rightarrow>
        let over = n0 mod 8; pad = 8 - over;
            x = (if over > 0 then push_bit pad x0 OR drop_bit over 0xff else x0);
            n = (if over > 0 then n0 + pad else n0)
        in if n div 8 = 0 then dst
           else if n div 8 = 1 then dst @ [ucast x]
           else if n div 8 = 2 then (let y = (ucast x :: u16) in dst @ [ucast (drop_bit 8 y), ucast y])
           else if n div 8 = 3 then
             (let y = (ucast (drop_bit 8 x) :: u16) in dst @ [ucast (drop_bit 8 y), ucast y, ucast x])
           else (let y = (ucast x :: u32)
                 in dst @ [ucast (drop_bit 24 y), ucast (drop_bit 16 y), ucast (drop_bit 8 y), ucast y]))"

definition HuffmanEncodeLength :: "bytes \<Rightarrow> u64" where
  "HuffmanEncodeLength s = (foldl (\<lambda>n c. n + of_nat (huffmanCodeLen ! unat c)) 0 s + 7) div 8"

lemma wbits_shift_or:
  assumes "n + k \<le> LENGTH('a)" and "\<And>i. bit y i \<Longrightarrow> i < k"
  shows "wbits (n + k) (push_bit k x OR y) = wbits n (x :: 'a::len word) @ wbits k y"
proof -
  have "wbits n (drop_bit k (push_bit k x OR y)) = wbits n x"
    using assms by (intro wbits_cong) (auto simp: bit_drop_bit_eq bit_or_iff bit_push_bit_iff)
  moreover have "wbits k (push_bit k x OR y) = wbits k y"
    by (intro wbits_cong) (auto simp: bit_or_iff bit_push_bit_iff)
  ultimately show ?thesis by (simp add: wbits_add)
qed

lemma wbits_bytes:
  "wbits 16 y = byte_bits [ucast (drop_bit 8 y), ucast y]"
  "wbits 24 y = byte_bits [ucast (drop_bit 16 y), ucast (drop_bit 8 y), ucast y]"
  "wbits 32 y = byte_bits [ucast (drop_bit 24 y), ucast (drop_bit 16 y), ucast (drop_bit 8 y), ucast y]"
  using wbits_add [of 8 8 y] wbits_add [of 8 16 y] wbits_add [of 8 24 y] by (simp_all add: wbits_ucast)

lemma code_step:
  assumes "n < 32"
  shows "wbits (n + code_len c) (push_bit (code_len c mod 64) x OR ucast (code_word c) :: u64) = wbits n x @ code_bits c"
proof -
  have "code_len c mod 64 = code_len c" using code_len_range(2) [of c] by simp
  moreover have "i < code_len c" if "bit (ucast (code_word c) :: u64) i" for i
    using that bit_lt_exp [OF code_word_value(2), of c i] by (simp add: bit_unsigned_iff)
  ultimately have "wbits (n + code_len c) (push_bit (code_len c mod 64) x OR ucast (code_word c) :: u64) =
      wbits n x @ wbits (code_len c) (ucast (code_word c) :: u64)"
    using assms code_len_range(2) [of c] by (simp add: wbits_shift_or)
  then show ?thesis using code_len_range(2) [of c] by (simp add: wbits_ucast code_bits_def)
qed

lemma AppendHuffman_loop_bits:
  "n < 32 \<Longrightarrow> AppendHuffman_loop dst x n s = (dst', x', n') \<Longrightarrow>
   n' < 32 \<and> byte_bits dst' @ wbits n' x' = byte_bits dst @ wbits n x @ huff_bits s \<and> (\<exists>v. dst' = dst @ v)"
proof (induction s arbitrary: dst x n)
  case (Cons c s)
  let ?n1 = "n + code_len c" and ?x1 = "push_bit (code_len c mod 64) x OR ucast (code_word c) :: u64"
  note st = code_step [OF Cons.prems(1), of c x]
  show ?case
  proof (cases "?n1 \<ge> 32")
    case False
    then have "AppendHuffman_loop dst ?x1 ?n1 s = (dst', x', n')"
      using Cons.prems(2) by (simp add: Let_def code_len_def code_word_def)
    from Cons.IH [OF _ this] False st show ?thesis by simp
  next
    case True
    have "?n1 - 32 < 32" using Cons.prems(1) code_len_range(2) [of c] by linarith
    then have m: "?n1 mod 32 = ?n1 - 32" using True by (simp add: le_mod_geq)
    define n2 where "n2 = ?n1 mod 32"
    have lt: "?n1 = 32 + n2" using True m by (simp add: n2_def)
    define y :: u32 where "y = ucast (drop_bit n2 ?x1)"
    define v :: bytes where "v = [ucast (drop_bit 24 y), ucast (drop_bit 16 y), ucast (drop_bit 8 y), ucast y]"
    have n2: "n2 < 32" by (simp add: n2_def)
    have "wbits ?n1 ?x1 = wbits 32 y @ wbits n2 ?x1"
      unfolding y_def lt wbits_add by (simp add: wbits_ucast)
    then have b: "wbits n x @ code_bits c = byte_bits v @ wbits n2 ?x1" unfolding st v_def by (simp only: wbits_bytes(3))
    have "AppendHuffman_loop (dst @ v) ?x1 n2 s = (dst', x', n')"
      using Cons.prems(2) True by (simp add: Let_def code_len_def code_word_def n2_def y_def v_def)
    note h = Cons.IH [OF n2 this]
    have "byte_bits (dst @ v) @ wbits n2 ?x1 @ huff_bits s = byte_bits dst @ wbits n x @ huff_bits (c # s)"
      using b by (metis append.assoc byte_bits_simps(3) huff_bits_simps(2))
    with h show ?thesis by (metis append.assoc)
  qed
qed auto

lemma ones_bits:
  assumes "over < 8"
  shows "wbits (8 - over) (drop_bit over 0xff :: u64) = replicate (8 - over) True"
    and "bit (drop_bit over 0xff :: u64) i \<Longrightarrow> i < 8 - over"
proof -
  have m: "(0xff :: u64) = mask 8" by (simp add: mask_eq_exp_minus_1)
  show "wbits (8 - over) (drop_bit over 0xff :: u64) = replicate (8 - over) True"
    unfolding m using assms by (intro nth_equalityI) (auto simp: nth_wbits bit_drop_bit_eq bit_mask_iff)
  show "i < 8 - over" if "bit (drop_bit over 0xff :: u64) i" using that unfolding m by (auto simp: bit_drop_bit_eq bit_mask_iff)
qed

text \<open>The encoding of a string is its codes, filled up with fewer than eight ones.\<close>

lemma AppendHuffmanString_bits:
  "\<exists>v k. AppendHuffmanString dst s = dst @ v \<and> k < 8 \<and> byte_bits v = huff_bits s @ replicate k True"
proof -
  obtain d x0 n0 where l: "AppendHuffman_loop dst 0 0 s = (d, x0, n0)" by (metis prod.exhaust)
  then obtain v0 where v0: "n0 < 32" "d = dst @ v0" "byte_bits v0 @ wbits n0 x0 = huff_bits s"
    using AppendHuffman_loop_bits [OF _ l] by auto
  define over where "over = n0 mod 8"
  define x where "x = (if over > 0 then push_bit (8 - over) x0 OR drop_bit over 0xff else x0)"
  define n where "n = (if over > 0 then n0 + (8 - over) else n0)"
  define k where "k = (if over > 0 then 8 - over else 0)"
  have o: "over < 8" by (simp add: over_def)
  have w: "wbits n x = wbits n0 x0 @ replicate k True" "k < 8"
    using wbits_shift_or [of n0 "8 - over" "drop_bit over 0xff" x0] ones_bits [OF o] v0(1)
    by (auto simp: x_def n_def k_def)
  define q where "q = n0 div 8"
  have "n0 = 8 * q + over" by (simp add: over_def q_def)
  then have nn: "n = 8 * (q + (if over > 0 then 1 else 0))" using o by (auto simp: n_def)
  have "q < 4" using v0(1) by (simp add: q_def)
  then have "q = 0 \<or> q = 1 \<or> q = 2 \<or> q = 3" by linarith
  then consider "n = 0" | "n = 8" | "n = 16" | "n = 24" | "n = 32" using nn by (elim disjE) (cases "over > 0"; simp)+
  note cs = this
  have A: "AppendHuffmanString dst s =
     (if n div 8 = 0 then d
      else if n div 8 = 1 then d @ [ucast x]
      else if n div 8 = 2 then d @ [ucast (drop_bit 8 (ucast x :: u16)), ucast (ucast x :: u16)]
      else if n div 8 = 3 then d @ [ucast (drop_bit 8 (ucast (drop_bit 8 x) :: u16)), ucast (ucast (drop_bit 8 x) :: u16), ucast x]
      else d @ [ucast (drop_bit 24 (ucast x :: u32)), ucast (drop_bit 16 (ucast x :: u32)),
        ucast (drop_bit 8 (ucast x :: u32)), ucast (ucast x :: u32)])"
    unfolding AppendHuffmanString_def l prod.case Let_def over_def [symmetric] x_def [symmetric] n_def [symmetric] by (rule refl)
  have b1: "byte_bits [ucast x] = wbits 8 x" by (simp add: wbits_ucast)
  have b2: "byte_bits [ucast (drop_bit 8 (ucast y :: u16)), ucast (ucast y :: u16)] = wbits 16 y" for y :: u64
    unfolding wbits_bytes(1) [symmetric] by (simp add: wbits_ucast)
  have b3: "byte_bits [ucast (drop_bit 8 (ucast (drop_bit 8 x) :: u16)), ucast (ucast (drop_bit 8 x) :: u16), ucast x] = wbits 24 x"
    using b1 b2 [of "drop_bit 8 x"] wbits_add [of 16 8 x] by simp
  have b4: "byte_bits [ucast (drop_bit 24 (ucast x :: u32)), ucast (drop_bit 16 (ucast x :: u32)),
        ucast (drop_bit 8 (ucast x :: u32)), ucast (ucast x :: u32)] = wbits 32 x"
    unfolding wbits_bytes(3) [symmetric] by (simp add: wbits_ucast)
  have "\<exists>u. AppendHuffmanString dst s = d @ u \<and> byte_bits u = wbits n x"
    by (rule cs) (simp_all add: A b1 b2 b3 b4 del: byte_bits_simps(2))
  with v0(2,3) w show ?thesis by (metis append.assoc byte_bits_simps(3))
qed

lemma huffman_canonical:
  assumes "byte_bits v = huff_bits s @ replicate k True" and "k < 8"
  shows "AppendHuffmanString dst s = dst @ v"
proof -
  obtain u j where u: "AppendHuffmanString dst s = dst @ u" "j < 8" "byte_bits u = huff_bits s @ replicate j True"
    using AppendHuffmanString_bits by blast
  have "8 * length v = length (huff_bits s) + k" "8 * length u = length (huff_bits s) + j"
    using arg_cong [OF assms(1), of length] arg_cong [OF u(3), of length] by simp_all
  with assms(2) u(2) have "k = j" by presburger
  with assms(1) u(3) have "v = u" by (intro byte_bits_inj) simp
  with u(1) show ?thesis by simp
qed

lemma AppendHuffmanString_append: "AppendHuffmanString dst s = dst @ AppendHuffmanString [] s"
proof -
  obtain v k where "AppendHuffmanString [] s = v" "k < 8" "byte_bits v = huff_bits s @ replicate k True"
    using AppendHuffmanString_bits [of "[]" s] by auto
  then show ?thesis using huffman_canonical by simp
qed

lemma encoded_bits: "\<exists>k<8. byte_bits (AppendHuffmanString [] s) = huff_bits s @ replicate k True"
  using AppendHuffmanString_bits [of "[]" s] by auto

lemma AppendHuffmanString_inj:
  assumes "AppendHuffmanString [] s = AppendHuffmanString [] t"
  shows "s = t"
proof -
  obtain j k where jk: "j < 8" "k < 8" "huff_bits s @ replicate j True = huff_bits t @ replicate k True"
    using encoded_bits [of s] encoded_bits [of t] assms by metis
  then obtain u where u: "t = s @ u" "replicate j True = huff_bits u @ replicate k True" using padded_unique by blast
  have "u = []"
  proof (rule ccontr)
    assume "u \<noteq> []"
    then obtain c u' where "u = c # u'" by (cases u) auto
    with u(2) show False using code_not_ones [of c j] by simp
  qed
  with u(1) show ?thesis by simp
qed

lemma length_huff_bits: "length (huff_bits s) = sum_list (map code_len s)"
  by (induction s) simp_all

lemma huff_bits_le: "length (huff_bits s) \<le> 30 * length s"
proof (induction s)
  case (Cons c s)
  then show ?case using code_len_range(2) [of c] by simp
qed simp

lemma length_encoded: "length (AppendHuffmanString [] s) = (length (huff_bits s) + 7) div 8"
proof -
  obtain k where "k < 8" "byte_bits (AppendHuffmanString [] s) = huff_bits s @ replicate k True" using encoded_bits by blast
  then have "8 * length (AppendHuffmanString [] s) = length (huff_bits s) + k" "k < 8"
    by (metis length_append length_byte_bits length_replicate)+
  then show ?thesis by (intro div_nat_eqI [symmetric]) simp_all
qed

lemma HuffmanEncodeLength_exact:
  assumes "length s < 2 ^ 58"
  shows "unat (HuffmanEncodeLength s) = length (AppendHuffmanString [] s)"
proof -
  have f: "foldl (\<lambda>n c. n + of_nat (huffmanCodeLen ! unat c)) a s = a + of_nat (length (huff_bits s))" for a :: u64
    by (induction s arbitrary: a) (simp_all add: length_huff_bits code_len_def algebra_simps)
  have "length (huff_bits s) < 2 ^ 63" using huff_bits_le [of s] assms by simp
  then have "unat (of_nat (length (huff_bits s) + 7) :: u64) = length (huff_bits s) + 7" by (intro unat_of_nat_u64) simp
  then have "unat (of_nat (length (huff_bits s)) + 7 :: u64) = length (huff_bits s) + 7" by simp
  then show ?thesis by (simp add: HuffmanEncodeLength_def f unat_div length_encoded)
qed

end
