(* ===== verification/Huffman_Decode.thy ===== *)
theory Huffman_Decode
  imports Huffman_Encode
begin

unbundle bit_operations_syntax

text \<open>
  third\_party/net/http2/hpack/huffman.go, the decoder: the tree of 256-way nodes it is built on, the loop that
  feeds the bytes of the input into it, and the end of the input. The bit buffer is a 64-bit word; the
  counters of its bits stay small and are natural numbers. A nil dereference is \<open>None\<close>.
\<close>

section \<open>The tree\<close>

datatype node = Internal "byte \<Rightarrow> node option" | Leaf nat byte

definition newInternalNode :: node where
  "newInternalNode = Internal (\<lambda>_. None)"

text \<open>The way of one code through the tree, with the nodes it needs.\<close>

fun insert_code :: "u32 \<Rightarrow> nat \<Rightarrow> byte \<Rightarrow> node \<Rightarrow> node option" where
  "insert_code code codeLen symb (Leaf l c) = None"
| "insert_code code codeLen symb (Internal children) =
     (if codeLen > 8 then
        (let i = ucast (drop_bit (codeLen - 8) code);
             cur = (case children i of None \<Rightarrow> newInternalNode | Some n \<Rightarrow> n)
         in map_option (\<lambda>n. Internal (children(i \<mapsto> n))) (insert_code code (codeLen - 8) symb cur))
      else
        (let shift = 8 - codeLen;
             start = unat (ucast (push_bit shift code) :: byte)
         in Some (Internal (foldl (\<lambda>ch i. ch(of_nat i \<mapsto> Leaf codeLen symb)) children [start..<start + 2 ^ shift]))))"

definition add_code :: "node option \<Rightarrow> nat \<Rightarrow> node option" where
  "add_code root symb = Option.bind root (insert_code (huffmanCodes ! symb) (huffmanCodeLen ! symb) (of_nat symb))"

definition buildRootHuffmanNode :: "node option" where
  "buildRootHuffmanNode =
     (if length huffmanCodes \<noteq> 256 then None else foldl add_code (Some newInternalNode) [0..<256])"

section \<open>The decoder\<close>

text \<open>The loop over the bits of the buffer while there are at least eight of them.\<close>

partial_function (option) decode_bits ::
  "node \<Rightarrow> int \<Rightarrow> node \<Rightarrow> u64 \<Rightarrow> nat \<Rightarrow> nat \<Rightarrow> bytes \<Rightarrow> (hpack_err + node \<times> nat \<times> nat \<times> bytes) option" where
  "decode_bits root maxLen n cur cbits sbits buf =
     (if cbits \<ge> 8 then
        (case n of
           Leaf l c \<Rightarrow> None
         | Internal children \<Rightarrow>
             (case children (ucast (drop_bit (cbits - 8) cur)) of
                None \<Rightarrow> Some (Inl ErrInvalidHuffman)
              | Some (Leaf codeLen symb) \<Rightarrow>
                  if maxLen \<noteq> 0 \<and> int (length buf) = maxLen then Some (Inl ErrStringLength)
                  else decode_bits root maxLen root cur (cbits - codeLen) (cbits - codeLen) (buf @ [symb])
              | Some (Internal ch) \<Rightarrow> decode_bits root maxLen (Internal ch) cur (cbits - 8) sbits buf))
      else Some (Inr (n, cbits, sbits, buf)))"

fun decode_bytes ::
  "node \<Rightarrow> int \<Rightarrow> node \<Rightarrow> u64 \<Rightarrow> nat \<Rightarrow> nat \<Rightarrow> bytes \<Rightarrow> bytes \<Rightarrow> (hpack_err + node \<times> u64 \<times> nat \<times> nat \<times> bytes) option" where
  "decode_bytes root maxLen n cur cbits sbits buf [] = Some (Inr (n, cur, cbits, sbits, buf))"
| "decode_bytes root maxLen n cur cbits sbits buf (b # v) =
     (let cur = push_bit 8 cur OR ucast b
      in case decode_bits root maxLen n cur (cbits + 8) (sbits + 8) buf of
           None \<Rightarrow> None
         | Some (Inl e) \<Rightarrow> Some (Inl e)
         | Some (Inr (n, cbits, sbits, buf)) \<Rightarrow> decode_bytes root maxLen n cur cbits sbits buf v)"

text \<open>The symbols in the last bits, padded with zeros.\<close>

partial_function (option) decode_last ::
  "node \<Rightarrow> int \<Rightarrow> node \<Rightarrow> u64 \<Rightarrow> nat \<Rightarrow> nat \<Rightarrow> bytes \<Rightarrow> (hpack_err + nat \<times> nat \<times> bytes) option" where
  "decode_last root maxLen n cur cbits sbits buf =
     (if cbits > 0 then
        (case n of
           Leaf l c \<Rightarrow> None
         | Internal children \<Rightarrow>
             (case children (ucast (push_bit (8 - cbits) cur)) of
                None \<Rightarrow> Some (Inl ErrInvalidHuffman)
              | Some (Internal ch) \<Rightarrow> Some (Inr (cbits, sbits, buf))
              | Some (Leaf codeLen symb) \<Rightarrow>
                  if codeLen > cbits then Some (Inr (cbits, sbits, buf))
                  else if maxLen \<noteq> 0 \<and> int (length buf) = maxLen then Some (Inl ErrStringLength)
                  else decode_last root maxLen root cur (cbits - codeLen) (cbits - codeLen) (buf @ [symb])))
      else Some (Inr (cbits, sbits, buf)))"

definition huffmanDecode :: "int \<Rightarrow> bytes \<Rightarrow> (hpack_err + bytes) option" where
  "huffmanDecode maxLen v =
     (case buildRootHuffmanNode of
        None \<Rightarrow> None
      | Some root \<Rightarrow>
          (case decode_bytes root maxLen root 0 0 0 [] v of
             None \<Rightarrow> None
           | Some (Inl e) \<Rightarrow> Some (Inl e)
           | Some (Inr (n, cur, cbits, sbits, buf)) \<Rightarrow>
               (case decode_last root maxLen n cur cbits sbits buf of
                  None \<Rightarrow> None
                | Some (Inl e) \<Rightarrow> Some (Inl e)
                | Some (Inr (cbits, sbits, buf)) \<Rightarrow>
                    if sbits > 7 then Some (Inl ErrInvalidHuffman)
                    else let mask = push_bit cbits 1 - 1
                         in if cur AND mask \<noteq> mask then Some (Inl ErrInvalidHuffman) else Some (Inr buf))))"

declare decode_bits.simps [code] decode_last.simps [code]

text \<open>\<^verbatim>\<open>HuffmanDecode\<close> makes at most one call of the writer and returns what it returns.\<close>

definition HuffmanDecode :: "(bytes \<Rightarrow> nat \<times> 'e option) \<Rightarrow> bytes \<Rightarrow> (hpack_err + nat \<times> 'e option) option" where
  "HuffmanDecode write v = map_option (map_sum id write) (huffmanDecode 0 v)"

definition HuffmanDecodeToString :: "bytes \<Rightarrow> (hpack_err + string) option" where
  "HuffmanDecodeToString v = map_option (map_sum id go_string) (huffmanDecode 0 v)"

section \<open>What a node stands for\<close>

type_synonym words = "(bool list \<times> byte) set"

text \<open>The codes that end within the next byte, and those that go on after it.\<close>

definition ending :: "words \<Rightarrow> byte \<Rightarrow> words" where
  "ending S i = {(w, c) \<in> S. length w \<le> 8 \<and> prefix w (wbits 8 i)}"

definition after :: "words \<Rightarrow> bool list \<Rightarrow> words" where
  "after S p = {(w, c). w \<noteq> [] \<and> (p @ w, c) \<in> S}"

inductive reps :: "(byte \<Rightarrow> node option) \<Rightarrow> words \<Rightarrow> bool" where
  reps: "(\<And>i. ch i = None \<and> ending S i = {} \<and> after S (wbits 8 i) = {} \<or>
      (\<exists>w c. ch i = Some (Leaf (length w) c) \<and> (w, c) \<in> ending S i) \<or>
      (\<exists>ch'. ch i = Some (Internal ch') \<and> ending S i = {} \<and> after S (wbits 8 i) \<noteq> {} \<and> reps ch' (after S (wbits 8 i)))) \<Longrightarrow>
   reps ch S"

lemma after_after: "after (after S p) q = after S (p @ q)"
  by (auto simp: after_def)

lemma after_Nil: "\<forall>(w, c) \<in> S. w \<noteq> [] \<Longrightarrow> after S [] = S"
  by (auto simp: after_def)

lemma reps_empty: "reps (\<lambda>_. None) {}"
  by (rule reps) (simp add: ending_def after_def)

lemma fill_range:
  "foldl (\<lambda>ch i. ch(of_nat i \<mapsto> v)) ch xs b = (if b \<in> of_nat ` set xs then Some v else ch b)"
  by (induction xs arbitrary: ch) auto

text \<open>The bytes whose first bits are a code of at most eight bits.\<close>

lemma code_range:
  assumes "1 \<le> l" "l \<le> 8" and start_def: "start = unat (ucast (push_bit (8 - l) (code :: u32)) :: byte)"
  shows "b \<in> of_nat ` set [start..<start + 2 ^ (8 - l)] \<longleftrightarrow> prefix (wbits l code) (wbits 8 (b :: byte))"
proof -
  let ?k = "8 - l"
  have "start = unat (push_bit ?k code) mod 2 ^ 8"
    unfolding start_def by (simp add: unsigned_ucast_eq take_bit_eq_mod)
  also have "\<dots> = bval (wbits 8 (push_bit ?k code))" by (simp add: bval_wbits)
  also have "wbits 8 (push_bit ?k code) = wbits l code @ replicate ?k False"
    using assms(1,2) by (intro nth_equalityI) (auto simp: nth_append nth_wbits bit_push_bit_iff intro!: arg_cong [of _ _ "bit code"])
  also have "bval \<dots> = bval (wbits l code) * 2 ^ ?k"
  proof -
    have "bval (replicate m False) = 0" for m
      by (induction m) (simp_all add: replicate_append_same [symmetric] bval_append del: replicate_append_same)
    then show ?thesis by (simp add: bval_append)
  qed
  finally have s: "start = bval (wbits l code) * 2 ^ ?k" .
  have "bval (wbits l code) < 2 ^ l" using bval_less [of "wbits l code"] by simp
  then have "bval (wbits l code) + 1 \<le> 2 ^ l" by simp
  then have "(bval (wbits l code) + 1) * 2 ^ ?k \<le> 2 ^ l * 2 ^ ?k" by (rule mult_le_mono1)
  then have top: "start + 2 ^ ?k \<le> 256" using assms(2) by (simp add: s flip: power_add)
  have "b \<in> of_nat ` set [start..<start + 2 ^ ?k] \<longleftrightarrow> start \<le> unat b \<and> unat b < start + 2 ^ ?k"
  proof
    assume "b \<in> of_nat ` set [start..<start + 2 ^ ?k]"
    then obtain i where "b = of_nat i" "start \<le> i" "i < start + 2 ^ ?k" by auto
    with top show "start \<le> unat b \<and> unat b < start + 2 ^ ?k" by (simp add: unat_of_nat)
  next
    assume "start \<le> unat b \<and> unat b < start + 2 ^ ?k"
    then show "b \<in> of_nat ` set [start..<start + 2 ^ ?k]" by (intro image_eqI [of _ _ "unat b"]) simp_all
  qed
  also have "\<dots> \<longleftrightarrow> bval (wbits l code) = unat b div 2 ^ ?k"
  proof
    assume "start \<le> unat b \<and> unat b < start + 2 ^ ?k"
    then show "bval (wbits l code) = unat b div 2 ^ ?k"
      unfolding s by (intro div_nat_eqI [symmetric]) (simp_all add: algebra_simps)
  next
    assume "bval (wbits l code) = unat b div 2 ^ ?k"
    then show "start \<le> unat b \<and> unat b < start + 2 ^ ?k"
      unfolding s using dividend_less_times_div [of "2 ^ ?k" "unat b"] by (simp add: div_times_less_eq_dividend algebra_simps)
  qed
  also have "\<dots> \<longleftrightarrow> prefix (wbits l code) (wbits 8 b)"
    using assms(2) unat_byte [of b] by (simp add: prefix_bval bval_wbits [of 8 b] del: unat_byte)
  finally show ?thesis .
qed

declare insert_code.simps [simp del]

lemma ending_insert: "ending (insert (w, c) S) i = (if length w \<le> 8 \<and> prefix w (wbits 8 i) then insert (w, c) (ending S i) else ending S i)"
  by (auto simp: ending_def)

lemma after_insert_long: "w' \<noteq> [] \<Longrightarrow> after (insert (wbits 8 (j :: byte) @ w', c) S) (wbits 8 (i :: byte)) =
    (if i = j then insert (w', c) (after S (wbits 8 i)) else after S (wbits 8 i))"
  by (cases "i = j") (auto simp: after_def dest: wbits8_inj [THEN iffD1])

lemma after_insert_short: "length w \<le> 8 \<Longrightarrow> after (insert (w, c) S) (wbits 8 i) = after S (wbits 8 i)"
  by (auto simp: after_def dest: arg_cong [where f = length])

lemma reps_cases_at:
  assumes "reps ch S"
  shows "ch i = None \<and> ending S i = {} \<and> after S (wbits 8 i) = {} \<or>
      (\<exists>w c. ch i = Some (Leaf (length w) c) \<and> (w, c) \<in> ending S i) \<or>
      (\<exists>ch'. ch i = Some (Internal ch') \<and> ending S i = {} \<and> after S (wbits 8 i) \<noteq> {} \<and> reps ch' (after S (wbits 8 i)))"
  using assms by (cases rule: reps.cases) blast

lemma reps_at [consumes 1, case_names none leaf inner]:
  assumes "reps ch S"
  obtains "ch i = None" "ending S i = {}" "after S (wbits 8 i) = {}"
  | w c where "ch i = Some (Leaf (length w) c)" "(w, c) \<in> ending S i"
  | ch' where "ch i = Some (Internal ch')" "ending S i = {}" "after S (wbits 8 i) \<noteq> {}" "reps ch' (after S (wbits 8 i))"
  using reps_cases_at [OF assms, of i] by (elim disjE exE conjE)

text \<open>A code that none of the codes so far begins or continues finds its place.\<close>

lemma insert_code_reps:
  assumes "reps ch S" and "1 \<le> l" and "\<forall>(w, c) \<in> S. \<not> prefix w (wbits l code) \<and> \<not> prefix (wbits l code) w"
  shows "\<exists>ch'. insert_code code l symb (Internal ch) = Some (Internal ch') \<and> reps ch' (insert (wbits l code, symb) S)"
  using assms
proof (induction l arbitrary: ch S rule: less_induct)
  case (less l)
  let ?w = "wbits l code" and ?S = "insert (wbits l code, symb) S"
  show ?case
  proof (cases "l > 8")
    case False
    then have l: "1 \<le> l" "l \<le> 8" using less.prems(2) by simp_all
    let ?start = "unat (ucast (push_bit (8 - l) code) :: byte)"
    let ?ch = "foldl (\<lambda>ch i. ch(of_nat i \<mapsto> Leaf l symb)) ch [?start..<?start + 2 ^ (8 - l)]"
    have at: "?ch i = (if prefix ?w (wbits 8 i) then Some (Leaf l symb) else ch i)" for i
      unfolding fill_range code_range [OF l refl] by simp
    have "reps ?ch ?S"
    proof (rule reps)
      fix i
      show "?ch i = None \<and> ending ?S i = {} \<and> after ?S (wbits 8 i) = {} \<or>
        (\<exists>w c. ?ch i = Some (Leaf (length w) c) \<and> (w, c) \<in> ending ?S i) \<or>
        (\<exists>ch'. ?ch i = Some (Internal ch') \<and> ending ?S i = {} \<and> after ?S (wbits 8 i) \<noteq> {} \<and> reps ch' (after ?S (wbits 8 i)))"
      proof (cases "prefix ?w (wbits 8 i)")
        case True
        then have "?ch i = Some (Leaf (length ?w) symb) \<and> (?w, symb) \<in> ending ?S i" using l by (simp add: at ending_def)
        then show ?thesis by blast
      next
        case no: False
        then have "?ch i = ch i" "ending ?S i = ending S i" "after ?S (wbits 8 i) = after S (wbits 8 i)"
          using l by (simp_all add: at ending_insert after_insert_short)
        with reps_cases_at [OF less.prems(1), of i] show ?thesis by (simp only:)
      qed
    qed
    with False show ?thesis by (simp add: Let_def insert_code.simps(2))
  next
    case True
    define j :: byte where "j = ucast (drop_bit (l - 8) code)"
    have w: "?w = wbits 8 j @ wbits (l - 8) code"
      using wbits_add [of 8 "l - 8" code] True by (simp add: j_def wbits_ucast)
    have free: "\<not> prefix v ?w \<and> \<not> prefix ?w v" if "(v, c) \<in> S" for v c using less.prems(3) that by blast
    have "ending S j = {}" using free by (auto simp: ending_def w dest: prefix_prefix)
    with reps_cases_at [OF less.prems(1), of j] obtain ch0 where
      c0: "(case ch j of None \<Rightarrow> newInternalNode | Some n \<Rightarrow> n) = Internal ch0" "reps ch0 (after S (wbits 8 j))"
      using reps_empty by (auto simp: newInternalNode_def)
    have "\<forall>(v, c) \<in> after S (wbits 8 j). \<not> prefix v (wbits (l - 8) code) \<and> \<not> prefix (wbits (l - 8) code) v"
    proof (clarify, rule conjI)
      fix v c assume "(v, c) \<in> after S (wbits 8 j)"
      then have "(wbits 8 j @ v, c) \<in> S" by (simp add: after_def)
      from free [OF this] show "\<not> prefix v (wbits (l - 8) code)" "\<not> prefix (wbits (l - 8) code) v" by (simp_all add: w)
    qed
    moreover have "l - 8 < l" "1 \<le> l - 8" using True by simp_all
    ultimately obtain ch1 where
      c1: "insert_code code (l - 8) symb (Internal ch0) = Some (Internal ch1)"
      "reps ch1 (insert (wbits (l - 8) code, symb) (after S (wbits 8 j)))"
      using less.IH c0(2) by blast
    let ?ch = "ch(j \<mapsto> Internal ch1)"
    have ne: "wbits (l - 8) code \<noteq> []" using True by (metis length_wbits list.size(3) zero_less_diff less_numeral_extra(3))
    have "reps ?ch ?S"
    proof (rule reps)
      fix i
      have e: "ending ?S i = ending S i" using True by (simp add: ending_insert)
      have a: "after ?S (wbits 8 i) = (if i = j then insert (wbits (l - 8) code, symb) (after S (wbits 8 i)) else after S (wbits 8 i))"
        unfolding w by (rule after_insert_long [OF ne])
      show "?ch i = None \<and> ending ?S i = {} \<and> after ?S (wbits 8 i) = {} \<or>
        (\<exists>w c. ?ch i = Some (Leaf (length w) c) \<and> (w, c) \<in> ending ?S i) \<or>
        (\<exists>ch'. ?ch i = Some (Internal ch') \<and> ending ?S i = {} \<and> after ?S (wbits 8 i) \<noteq> {} \<and> reps ch' (after ?S (wbits 8 i)))"
      proof (cases "i = j")
        case True
        with c1(2) \<open>ending S j = {}\<close> show ?thesis unfolding e a by simp
      next
        case False
        with reps_cases_at [OF less.prems(1), of i] show ?thesis unfolding e a by simp
      qed
    qed
    moreover have "insert_code code l symb (Internal ch) = Some (Internal ?ch)"
      using True c0(1) c1(1) by (subst insert_code.simps(2)) (simp add: Let_def j_def [symmetric])
    ultimately show ?thesis by blast
  qed
qed

text \<open>The tree stands for all codes.\<close>

definition all_codes :: words where
  "all_codes = {(code_bits c, c) | c. True}"

definition codes_below :: "nat \<Rightarrow> words" where
  "codes_below n = {(code_bits c, c) | c. unat c < n}"

lemma codes_below_Suc:
  assumes "unat c = n"
  shows "codes_below (Suc n) = insert (code_bits c, c) (codes_below n)"
proof -
  have "unat d < Suc n \<longleftrightarrow> d = c \<or> unat d < n" for d :: byte
    using assms word_unat_eq_iff [of d c] by linarith
  then show ?thesis unfolding codes_below_def by auto
qed

lemma insert_next_code:
  assumes "reps ch (codes_below (unat c))"
  shows "\<exists>ch'. insert_code (code_word c) (code_len c) c (Internal ch) = Some (Internal ch') \<and> reps ch' (codes_below (Suc (unat c)))"
proof -
  have "\<not> prefix (code_bits d) (code_bits c) \<and> \<not> prefix (code_bits c) (code_bits d)" if "unat d < unat c" for d
    using that code_prefix_free by blast
  then have "\<forall>(w, d) \<in> codes_below (unat c). \<not> prefix w (wbits (code_len c) (code_word c)) \<and> \<not> prefix (wbits (code_len c) (code_word c)) w"
    unfolding code_bits_def [symmetric] by (auto simp: codes_below_def)
  moreover have "1 \<le> code_len c" using code_len_range(1) [of c] by linarith
  ultimately show ?thesis
    using insert_code_reps [OF assms] unfolding codes_below_Suc [OF refl] code_bits_def by blast
qed

lemma codes_added:
  "n \<le> 256 \<Longrightarrow> \<exists>ch. foldl add_code (Some newInternalNode) [0..<n] = Some (Internal ch) \<and> reps ch (codes_below n)"
proof (induction n)
  case 0
  then show ?case using reps_empty by (simp add: newInternalNode_def codes_below_def)
next
  case (Suc n)
  then obtain ch where ch: "foldl add_code (Some newInternalNode) [0..<n] = Some (Internal ch)" "reps ch (codes_below n)" by auto
  have c: "unat (of_nat n :: byte) = n" using Suc.prems by (simp add: unat_of_nat)
  obtain ch' where ch': "insert_code (code_word (of_nat n)) (code_len (of_nat n)) (of_nat n) (Internal ch) = Some (Internal ch')"
    "reps ch' (codes_below (Suc n))"
    using insert_next_code [of ch "of_nat n"] ch(2) unfolding c by blast
  have "foldl add_code (Some newInternalNode) [0..<Suc n] = Some (Internal ch')"
    using ch'(1) by (simp add: ch(1) add_code_def code_word_def code_len_def c)
  with ch'(2) show ?case by blast
qed

lemma tree_built: "\<exists>ch. buildRootHuffmanNode = Some (Internal ch) \<and> reps ch all_codes"
proof -
  obtain ch where ch: "foldl add_code (Some newInternalNode) [0..<256] = Some (Internal ch)" "reps ch (codes_below 256)"
    using codes_added [OF order_refl] by blast
  have "length huffmanCodes = 256" by (simp add: huffmanCodes_def table_lengths)
  then have "buildRootHuffmanNode = foldl add_code (Some newInternalNode) [0..<256]"
    unfolding buildRootHuffmanNode_def by (simp only: simp_thms if_False)
  moreover have "codes_below 256 = all_codes" by (simp add: all_codes_def codes_below_def)
  ultimately show ?thesis using ch by (simp only:) blast
qed

section \<open>What the decoder has read\<close>

text \<open>Bits that no encoding begins with, and bits that begin with the codes of more than \<open>m\<close> bytes.\<close>

definition dead :: "bool list \<Rightarrow> bool" where
  "dead B \<longleftrightarrow> (\<forall>s k B'. k < 8 \<longrightarrow> B @ B' \<noteq> huff_bits s @ replicate k True)"

definition too_long :: "int \<Rightarrow> bool list \<Rightarrow> bool" where
  "too_long m B \<longleftrightarrow> 0 < m \<and> (\<exists>t. length t = Suc (nat m) \<and> prefix (huff_bits t) B)"

fun decode_error :: "int \<Rightarrow> bool list \<Rightarrow> hpack_err \<Rightarrow> bool" where
  "decode_error m B ErrInvalidHuffman \<longleftrightarrow> dead B"
| "decode_error m B ErrStringLength \<longleftrightarrow> too_long m B"
| "decode_error m B _ \<longleftrightarrow> False"

text \<open>\<open>p\<close> are the bits on the way from the root to the current node.\<close>

definition read_so_far :: "int \<Rightarrow> bool list \<Rightarrow> node \<Rightarrow> u64 \<Rightarrow> nat \<Rightarrow> nat \<Rightarrow> bytes \<Rightarrow> bool" where
  "read_so_far m B n cur cbits sbits buf \<longleftrightarrow>
     (\<exists>ch p. n = Internal ch \<and> reps ch (after all_codes p) \<and> after all_codes p \<noteq> {} \<and> 8 dvd length p \<and>
        sbits = length p + cbits \<and> B = huff_bits buf @ p @ wbits cbits cur) \<and>
     (0 < m \<longrightarrow> int (length buf) \<le> m)"

lemma decode_error_mono: "decode_error m B e \<Longrightarrow> decode_error m (B @ B') e"
  by (cases e) (auto simp: dead_def too_long_def)

lemma too_longI: "0 < m \<Longrightarrow> int (length buf) = m \<Longrightarrow> B = huff_bits (buf @ [c]) @ x \<Longrightarrow> too_long m B"
  by (auto simp: too_long_def intro!: exI [of _ "buf @ [c]"])

lemma after_all: "(w, c) \<in> after all_codes p \<longleftrightarrow> w \<noteq> [] \<and> p @ w = code_bits c"
  by (auto simp: after_def all_codes_def)

lemma after_all_Nil [simp]: "after all_codes [] = all_codes"
  by (rule after_Nil) (auto simp: all_codes_def)

lemma all_codes_nonempty: "all_codes \<noteq> {}"
  by (simp add: all_codes_def)

lemma no_code_within:
  assumes "after all_codes p \<noteq> {}"
  shows "\<not> prefix (code_bits c) p"
proof
  assume c: "prefix (code_bits c) p"
  obtain w d where "w \<noteq> []" "p @ w = code_bits d" using assms by (force simp: after_all)
  moreover from this c have "c = d" by (metis code_prefix_free prefix_append)
  ultimately show False using c by (metis append_self_conv prefix_def append.assoc append_is_Nil_conv)
qed

text \<open>A missing child: no code agrees with the bits that lead there.\<close>

lemma no_child:
  assumes "after all_codes p \<noteq> {}" and "ending (after all_codes p) i = {}" and "after (after all_codes p) (wbits 8 i) = {}"
  shows "\<not> prefix (code_bits c) (p @ wbits 8 i) \<and> \<not> prefix (p @ wbits 8 i) (code_bits c)"
proof (rule conjI; rule notI)
  assume c: "prefix (code_bits c) (p @ wbits 8 i)"
  then have "\<exists>w. w \<noteq> [] \<and> code_bits c = p @ w \<and> prefix w (wbits 8 i)"
    using no_code_within [OF assms(1), of c] by (auto simp: prefix_append)
  then obtain w where "(w, c) \<in> ending (after all_codes p) i"
    using prefix_length_le [of _ "wbits 8 i"] by (fastforce simp: ending_def after_all)
  with assms(2) show False by simp
next
  assume "prefix (p @ wbits 8 i) (code_bits c)"
  then obtain u where u: "code_bits c = p @ wbits 8 i @ u" by (auto simp: prefix_def)
  have ne: "wbits 8 i \<noteq> []" by (metis length_wbits list.size(3) zero_neq_numeral)
  show False
  proof (cases "u = []")
    case True
    with u ne have "(wbits 8 i, c) \<in> ending (after all_codes p) i" by (simp add: ending_def after_all)
    with assms(2) show False by simp
  next
    case False
    with u have "(u, c) \<in> after (after all_codes p) (wbits 8 i)" by (simp add: after_after after_all)
    with assms(3) show False by simp
  qed
qed

lemma deadI:
  assumes "\<forall>c. \<not> prefix (code_bits c) q \<and> \<not> prefix q (code_bits c)" and "8 \<le> length q" and "B = huff_bits t @ q @ x"
  shows "dead B"
  unfolding dead_def
proof (intro allI impI notI)
  fix s k B'
  assume k: "k < (8 :: nat)" and "B @ B' = huff_bits s @ replicate k True"
  then have "huff_bits t @ (q @ x @ B') = huff_bits s @ replicate k True" using assms(3) by simp
  then obtain u where u: "q @ x @ B' = huff_bits u @ replicate k True" using padded_unique by blast
  show False
  proof (cases u)
    case Nil
    with u have "length (q @ x @ B') = k" by (metis append_Nil huff_bits_simps(1) length_replicate)
    with k assms(2) show False by simp
  next
    case (Cons c u')
    with u have "q @ (x @ B') = code_bits c @ (huff_bits u' @ replicate k True)" by simp
    then have "prefix q (code_bits c) \<or> prefix (code_bits c) q" by (metis prefixI prefix_same_cases)
    with assms(1) show False by blast
  qed
qed

lemma wbits_take:
  assumes "l \<le> n"
  shows "wbits n x = take l (wbits n x) @ wbits (n - l) x"
proof -
  have "wbits n x = wbits l (drop_bit (n - l) x) @ wbits (n - l) x" using wbits_add [of l "n - l" x] assms by simp
  then show ?thesis by (metis append_eq_conv_conj length_wbits)
qed

text \<open>A leaf below the current node ends the code of a byte.\<close>

lemma leaf_read:
  assumes "(w, c) \<in> ending (after all_codes p) i" and "prefix w (wbits cbits cur)" and "length w \<le> cbits"
    and "B = huff_bits buf @ p @ wbits cbits cur"
  shows "B = huff_bits (buf @ [c]) @ wbits (cbits - length w) cur"
proof -
  have "p @ w = code_bits c" using assms(1) by (auto simp: ending_def after_all)
  moreover have "wbits cbits cur = w @ wbits (cbits - length w) cur"
    using assms(2) wbits_take [OF assms(3), of cur] by (metis append_eq_conv_conj prefix_def)
  ultimately show ?thesis using assms(4) by (metis append.assoc append_Nil2 huff_bits_simps)
qed

lemma at_root: "reps ch0 all_codes \<Longrightarrow> (0 < m \<longrightarrow> int (length buf) \<le> m) \<Longrightarrow> B = huff_bits buf @ wbits cbits cur \<Longrightarrow>
   read_so_far m B (Internal ch0) cur cbits cbits buf"
  unfolding read_so_far_def by (intro conjI exI [of _ ch0] exI [of _ "[]"]) (simp_all add: all_codes_nonempty)

lemma decode_bits_reads:
  assumes "reps ch0 all_codes" and "0 \<le> m" and "read_so_far m B n cur cbits sbits buf"
  shows "\<exists>r. decode_bits (Internal ch0) m n cur cbits sbits buf = Some r \<and>
    (case r of Inl e \<Rightarrow> decode_error m B e
     | Inr (n', cbits', sbits', buf') \<Rightarrow> cbits' < 8 \<and> read_so_far m B n' cur cbits' sbits' buf')"
  using assms(3)
proof (induction cbits arbitrary: n sbits buf rule: less_induct)
  case (less cbits)
  obtain ch p where n: "n = Internal ch" "reps ch (after all_codes p)" "after all_codes p \<noteq> {}" "8 dvd length p"
    "sbits = length p + cbits" "B = huff_bits buf @ p @ wbits cbits cur" and m: "0 < m \<longrightarrow> int (length buf) \<le> m"
    using less.prems by (auto simp: read_so_far_def)
  show ?case
  proof (cases "cbits \<ge> 8")
    case False
    with less.prems show ?thesis by (subst decode_bits.simps) simp
  next
    case True
    define i :: byte where "i = ucast (drop_bit (cbits - 8) cur)"
    have split: "wbits cbits cur = wbits 8 i @ wbits (cbits - 8) cur"
      using wbits_add [of 8 "cbits - 8" cur] True by (simp add: i_def wbits_ucast)
    from n(2) show ?thesis
    proof (cases rule: reps_at [where i = i])
      case none
      have "dead B" by (rule deadI [of "p @ wbits 8 i" B buf]) (use no_child [OF n(3) none(2,3)] n(6) split in auto)
      then have "decode_error m B ErrInvalidHuffman" by simp
      moreover have "decode_bits (Internal ch0) m n cur cbits sbits buf = Some (Inl ErrInvalidHuffman)"
        using True none(1) by (subst decode_bits.simps) (simp add: n(1) i_def [symmetric])
      ultimately show ?thesis by simp
    next
      case (leaf w c)
      have w: "w \<noteq> []" "length w \<le> 8" "prefix w (wbits 8 i)" using leaf(2) by (auto simp: ending_def after_all)
      have B: "B = huff_bits (buf @ [c]) @ wbits (cbits - length w) cur"
        by (rule leaf_read [OF leaf(2) _ _ n(6)]) (use w True split in auto)
      have step: "decode_bits (Internal ch0) m n cur cbits sbits buf =
          (if m \<noteq> 0 \<and> int (length buf) = m then Some (Inl ErrStringLength)
           else decode_bits (Internal ch0) m (Internal ch0) cur (cbits - length w) (cbits - length w) (buf @ [c]))"
        using True leaf(1) by (subst decode_bits.simps) (simp add: n(1) i_def [symmetric])
      show ?thesis
      proof (cases "m \<noteq> 0 \<and> int (length buf) = m")
        case True
        then have "decode_error m B ErrStringLength" using assms(2) too_longI [OF _ _ B, of m] by simp
        with True step show ?thesis by simp
      next
        case False
        then have "read_so_far m B (Internal ch0) cur (cbits - length w) (cbits - length w) (buf @ [c])"
          using at_root [OF assms(1) _ B] m assms(2) by force
        moreover have "cbits - length w < cbits" using w(1) True by simp
        ultimately show ?thesis unfolding step if_not_P [OF False] by (intro less.IH)
      qed
    next
      case (inner ch')
      have "read_so_far m B (Internal ch') cur (cbits - 8) sbits buf"
        unfolding read_so_far_def
      proof (intro conjI exI [of _ ch'] exI [of _ "p @ wbits 8 i"])
        show "B = huff_bits buf @ (p @ wbits 8 i) @ wbits (cbits - 8) cur" using n(6) split by simp
      qed (use inner n m True in \<open>auto simp: after_after\<close>)
      moreover have "decode_bits (Internal ch0) m n cur cbits sbits buf = decode_bits (Internal ch0) m (Internal ch') cur (cbits - 8) sbits buf"
        using True inner(1) by (subst decode_bits.simps) (simp add: n(1) i_def [symmetric])
      ultimately show ?thesis using less.IH [of "cbits - 8"] True by simp
    qed
  qed
qed

lemma decode_bytes_reads:
  assumes "reps ch0 all_codes" and "0 \<le> m" and "read_so_far m B n cur cbits sbits buf" and "cbits < 8"
  shows "\<exists>r. decode_bytes (Internal ch0) m n cur cbits sbits buf v = Some r \<and>
    (case r of Inl e \<Rightarrow> decode_error m (B @ byte_bits v) e
     | Inr (n', cur', cbits', sbits', buf') \<Rightarrow> cbits' < 8 \<and> read_so_far m (B @ byte_bits v) n' cur' cbits' sbits' buf')"
  using assms(3,4)
proof (induction v arbitrary: B n cur cbits sbits buf)
  case Nil
  then show ?case by simp
next
  case (Cons b v)
  let ?cur = "push_bit 8 cur OR ucast b :: u64"
  have "bit (ucast b :: u64) i \<Longrightarrow> i < 8" for i by (auto simp: bit_unsigned_iff dest: bit_imp_le_length)
  then have w: "wbits (cbits + 8) ?cur = wbits cbits cur @ wbits 8 b"
    using wbits_shift_or [of cbits 8 "ucast b" cur] Cons.prems(2) by (simp add: wbits_ucast)
  have "read_so_far m (B @ wbits 8 b) n ?cur (cbits + 8) (sbits + 8) buf"
    using Cons.prems(1) unfolding read_so_far_def w by fastforce
  from decode_bits_reads [OF assms(1,2) this] obtain r where
    r: "decode_bits (Internal ch0) m n ?cur (cbits + 8) (sbits + 8) buf = Some r"
    "case r of Inl e \<Rightarrow> decode_error m (B @ wbits 8 b) e
     | Inr (n', cbits', sbits', buf') \<Rightarrow> cbits' < 8 \<and> read_so_far m (B @ wbits 8 b) n' ?cur cbits' sbits' buf'"
    by blast
  show ?case
  proof (cases r)
    case (Inl e)
    with r decode_error_mono [of m "B @ wbits 8 b" e "byte_bits v"] show ?thesis by simp
  next
    case (Inr q)
    obtain n' cbits' sbits' buf' where q: "q = (n', cbits', sbits', buf')" by (metis prod.exhaust)
    have e: "(B @ wbits 8 b) @ byte_bits v = B @ byte_bits (b # v)" by simp
    have "cbits' < 8 \<and> read_so_far m (B @ wbits 8 b) n' ?cur cbits' sbits' buf'" using r(2) Inr q by simp
    with Cons.IH [of "B @ wbits 8 b" n' ?cur cbits' sbits' buf', unfolded e] r(1) Inr q show ?thesis by (simp add: Let_def)
  qed
qed

text \<open>The end of the input: what is left begins no code that ends within it.\<close>

definition read_all :: "bool list \<Rightarrow> u64 \<Rightarrow> nat \<Rightarrow> nat \<Rightarrow> bytes \<Rightarrow> bool" where
  "read_all B cur cbits sbits buf \<longleftrightarrow>
     (\<exists>p. 8 dvd length p \<and> sbits = length p + cbits \<and> B = huff_bits buf @ p @ wbits cbits cur \<and>
        (\<forall>c. \<not> prefix (code_bits c) (p @ wbits cbits cur)))"

lemma last_bits: "cbits < 8 \<Longrightarrow> wbits 8 (ucast (push_bit (8 - cbits) cur :: u64) :: byte) = wbits cbits cur @ replicate (8 - cbits) False"
  by (intro nth_equalityI)
    (auto simp: wbits_ucast nth_append nth_wbits bit_push_bit_iff intro!: arg_cong [of _ _ "bit cur"])

lemma undecodedI:
  assumes "\<forall>c. \<not> prefix (code_bits c) (q @ z) \<and> \<not> prefix (q @ z) (code_bits c)" and "z = replicate (length z) False"
    and "length q < 8 \<longrightarrow> length (q @ z) = 8" and "z \<noteq> []" and "B = huff_bits t @ q" and "k < 8"
  shows "B \<noteq> huff_bits s @ replicate k True"
proof
  assume "B = huff_bits s @ replicate k True"
  then obtain u where u: "q = huff_bits u @ replicate k True" using assms(5) padded_unique by metis
  show False
  proof (cases u)
    case Nil
    then have q: "q = replicate k True" using u by simp
    then have "length (q @ z) = 8" using assms(3,6) by simp
    moreover have "q @ z \<noteq> replicate 8 True"
    proof
      assume "q @ z = replicate 8 True"
      then have "set z \<subseteq> {True}" by (metis Un_upper2 set_append set_replicate_conv_if subset_trans subset_insertI zero_neq_numeral)
      moreover have "set z = {False}" using assms(2,4) by (metis length_0_conv set_replicate)
      ultimately show False by simp
    qed
    ultimately show False using code_covers assms(1) by blast
  next
    case (Cons c u')
    with u have "prefix (code_bits c) (q @ z)" by simp
    with assms(1) show False by blast
  qed
qed

fun last_error :: "int \<Rightarrow> bool list \<Rightarrow> hpack_err \<Rightarrow> bool" where
  "last_error m B ErrInvalidHuffman \<longleftrightarrow> (\<forall>s k. k < 8 \<longrightarrow> B \<noteq> huff_bits s @ replicate k True)"
| "last_error m B e \<longleftrightarrow> decode_error m B e"

lemma decode_last_reads:
  assumes "reps ch0 all_codes" and "0 \<le> m" and "read_so_far m B n cur cbits sbits buf" and "cbits < 8"
  shows "\<exists>r. decode_last (Internal ch0) m n cur cbits sbits buf = Some r \<and>
    (case r of Inl e \<Rightarrow> last_error m B e
     | Inr (cbits', sbits', buf') \<Rightarrow> cbits' < 8 \<and> read_all B cur cbits' sbits' buf' \<and> (0 < m \<longrightarrow> int (length buf') \<le> m))"
  using assms(3,4)
proof (induction cbits arbitrary: n sbits buf rule: less_induct)
  case (less cbits)
  obtain ch p where n: "n = Internal ch" "reps ch (after all_codes p)" "after all_codes p \<noteq> {}" "8 dvd length p"
    "sbits = length p + cbits" "B = huff_bits buf @ p @ wbits cbits cur" and m: "0 < m \<longrightarrow> int (length buf) \<le> m"
    using less.prems by (auto simp: read_so_far_def)
  have root_if_short: "p = []" if "length p + cbits < 8" using n(4) that by (auto dest: dvd_imp_le)
  define i :: byte where "i = ucast (push_bit (8 - cbits) cur)"
  have bits: "wbits 8 i = wbits cbits cur @ replicate (8 - cbits) False" unfolding i_def by (rule last_bits [OF less.prems(2)])
  have finished: "read_all B cur cbits sbits buf" if "\<And>c w. w \<noteq> [] \<Longrightarrow> code_bits c = p @ w \<Longrightarrow> prefix w (wbits cbits cur) \<Longrightarrow> False"
  proof -
    have "\<not> prefix (code_bits c) (p @ wbits cbits cur)" for c
      using no_code_within [OF n(3), of c] that by (auto simp: prefix_append)
    with n show ?thesis unfolding read_all_def by blast
  qed
  show ?case
  proof (cases "cbits > 0")
    case False
    with finished m show ?thesis by (subst decode_last.simps) simp
  next
    case True
    from n(2) show ?thesis
    proof (cases rule: reps_at [where i = i])
      case none
      have "\<forall>s k. k < 8 \<longrightarrow> B \<noteq> huff_bits s @ replicate k True"
      proof (intro allI impI)
        fix s k assume "k < (8 :: nat)"
        then show "B \<noteq> huff_bits s @ replicate k True"
          by (intro undecodedI [of "p @ wbits cbits cur" "replicate (8 - cbits) False" B buf])
            (use no_child [OF n(3) none(2,3)] bits root_if_short n(6) less.prems(2) in auto)
      qed
      moreover have "decode_last (Internal ch0) m n cur cbits sbits buf = Some (Inl ErrInvalidHuffman)"
        using True none(1) by (subst decode_last.simps) (simp add: n(1) i_def [symmetric])
      ultimately show ?thesis by simp
    next
      case (inner ch')
      have "decode_last (Internal ch0) m n cur cbits sbits buf = Some (Inr (cbits, sbits, buf))"
        using True inner(1) by (subst decode_last.simps) (simp add: n(1) i_def [symmetric])
      moreover have "read_all B cur cbits sbits buf"
      proof (rule finished)
        fix c w assume w: "w \<noteq> []" "code_bits c = p @ w" "prefix w (wbits cbits cur)"
        then have "(w, c) \<in> ending (after all_codes p) i"
          using prefix_length_le [OF w(3)] less.prems(2) by (simp add: ending_def after_all bits)
        with inner(2) show False by simp
      qed
      ultimately show ?thesis using m less.prems(2) by simp
    next
      case (leaf w c)
      have w: "w \<noteq> []" "p @ w = code_bits c" "prefix w (wbits 8 i)" using leaf(2) by (auto simp: ending_def after_all)
      have step: "decode_last (Internal ch0) m n cur cbits sbits buf =
          (if length w > cbits then Some (Inr (cbits, sbits, buf))
           else if m \<noteq> 0 \<and> int (length buf) = m then Some (Inl ErrStringLength)
           else decode_last (Internal ch0) m (Internal ch0) cur (cbits - length w) (cbits - length w) (buf @ [c]))"
        using True leaf(1) by (subst decode_last.simps) (simp add: n(1) i_def [symmetric])
      show ?thesis
      proof (cases "length w > cbits")
        case long: True
        have "read_all B cur cbits sbits buf"
        proof (rule finished)
          fix d w' assume w': "w' \<noteq> []" "code_bits d = p @ w'" "prefix w' (wbits cbits cur)"
          then have "prefix w' (wbits 8 i)" by (simp add: bits)
          moreover have "length w' \<le> length w" using prefix_length_le [OF w'(3)] long by simp
          ultimately have "prefix w' w" using w(3) by (metis prefix_length_prefix)
          then have "prefix (code_bits d) (code_bits c)" using w(2) w'(2) by (metis prefix_append same_prefix_prefix)
          then have "d = c" by (rule code_prefix_free)
          then have "w' = w" using w(2) w'(2) by simp
          with prefix_length_le [OF w'(3)] long show False by simp
        qed
        with long step m less.prems(2) show ?thesis by simp
      next
        case short: False
        then have pw: "prefix w (wbits cbits cur)"
          using w(3) unfolding bits by (metis length_wbits not_less prefix_length_prefix prefixI)
        have B: "B = huff_bits (buf @ [c]) @ wbits (cbits - length w) cur"
          by (rule leaf_read [OF leaf(2) pw _ n(6)]) (use short in simp)
        show ?thesis
        proof (cases "m \<noteq> 0 \<and> int (length buf) = m")
          case True
          then have "last_error m B ErrStringLength" using assms(2) too_longI [OF _ _ B, of m] by simp
          with True short step show ?thesis by simp
        next
          case False
          then have "read_so_far m B (Internal ch0) cur (cbits - length w) (cbits - length w) (buf @ [c])"
            using at_root [OF assms(1) _ B] m assms(2) by force
          moreover have "cbits - length w < cbits" "cbits - length w < 8" using w(1) True less.prems(2) by simp_all
          ultimately show ?thesis unfolding step if_not_P [OF short] if_not_P [OF False] by (intro less.IH)
        qed
      qed
    qed
  qed
qed

lemma mask_ones: "cbits < 8 \<Longrightarrow> (cur AND (push_bit cbits 1 - 1) = push_bit cbits 1 - 1) \<longleftrightarrow> wbits cbits (cur :: u64) = replicate cbits True"
proof -
  assume "cbits < 8"
  have m: "push_bit cbits 1 - 1 = (mask cbits :: u64)" by (simp add: mask_eq_exp_minus_1)
  have "(cur AND mask cbits = mask cbits) \<longleftrightarrow> (\<forall>i<cbits. bit cur i)"
  proof
    assume e: "cur AND mask cbits = mask cbits"
    show "\<forall>i<cbits. bit cur i"
    proof (intro allI impI)
      fix i assume "i < cbits"
      then have "bit (mask cbits :: u64) i" using \<open>cbits < 8\<close> by (simp add: bit_mask_iff)
      then have "bit (cur AND mask cbits) i" unfolding e .
      then show "bit cur i" by (simp add: bit_and_iff)
    qed
  next
    assume "\<forall>i<cbits. bit cur i"
    then show "cur AND mask cbits = mask cbits" by (auto simp: bit_eq_iff bit_and_iff bit_mask_iff)
  qed
  also have "\<dots> \<longleftrightarrow> wbits cbits cur = replicate cbits True"
  proof
    assume "\<forall>i<cbits. bit cur i"
    then show "wbits cbits cur = replicate cbits True" by (intro nth_equalityI) (simp_all add: nth_wbits)
  next
    assume w: "wbits cbits cur = replicate cbits True"
    show "\<forall>i<cbits. bit cur i"
    proof (intro allI impI)
      fix i assume "i < cbits"
      then show "bit cur i" using arg_cong [OF w, of "\<lambda>xs. xs ! (cbits - Suc i)"] by (simp add: nth_wbits)
    qed
  qed
  finally show ?thesis unfolding m .
qed

lemma read_all_canonical:
  assumes "read_all B cur cbits sbits buf" and "cbits < 8"
  shows "(\<exists>s k. k < 8 \<and> B = huff_bits s @ replicate k True) \<longleftrightarrow> sbits \<le> 7 \<and> wbits cbits cur = replicate cbits True"
    and "sbits \<le> 7 \<Longrightarrow> wbits cbits cur = replicate cbits True \<Longrightarrow> B = huff_bits buf @ replicate cbits True"
proof -
  obtain p where p: "8 dvd length p" "sbits = length p + cbits" "B = huff_bits buf @ p @ wbits cbits cur"
    "\<forall>c. \<not> prefix (code_bits c) (p @ wbits cbits cur)"
    using assms(1) by (auto simp: read_all_def)
  have p0: "p = []" if "sbits \<le> 7" using p(1,2) that by (auto dest: dvd_imp_le)
  show B: "B = huff_bits buf @ replicate cbits True" if "sbits \<le> 7" "wbits cbits cur = replicate cbits True"
    using p(3) p0 [OF that(1)] that(2) by simp
  show "(\<exists>s k. k < 8 \<and> B = huff_bits s @ replicate k True) \<longleftrightarrow> sbits \<le> 7 \<and> wbits cbits cur = replicate cbits True"
  proof
    assume "\<exists>s k. k < 8 \<and> B = huff_bits s @ replicate k True"
    then obtain s k where k: "k < 8" "B = huff_bits s @ replicate k True" by blast
    then obtain u where u: "p @ wbits cbits cur = huff_bits u @ replicate k True" using p(3) padded_unique by metis
    have "u = []"
    proof (cases u)
      case (Cons a l)
      with u have "prefix (code_bits a) (p @ wbits cbits cur)" by simp
      with p(4) show ?thesis by blast
    qed
    with u have e: "p @ wbits cbits cur = replicate k True" by simp
    then have "length p + cbits = k" by (metis length_append length_replicate length_wbits)
    then have s: "sbits \<le> 7" using p(2) k(1) by simp
    then have "wbits cbits cur = replicate k True" using e p0 by simp
    then show "sbits \<le> 7 \<and> wbits cbits cur = replicate cbits True" using s by (metis length_replicate length_wbits)
  next
    assume "sbits \<le> 7 \<and> wbits cbits cur = replicate cbits True"
    with B assms(2) show "\<exists>s k. k < 8 \<and> B = huff_bits s @ replicate k True" by blast
  qed
qed

lemma canonical_iff: "(\<exists>s k. k < 8 \<and> byte_bits v = huff_bits s @ replicate k True) \<longleftrightarrow> (\<exists>s. v = AppendHuffmanString [] s)"
  using huffman_canonical [of v _ _ "[]"] encoded_bits by (metis append_Nil)

fun huffman_error :: "int \<Rightarrow> bytes \<Rightarrow> hpack_err \<Rightarrow> bool" where
  "huffman_error m v ErrInvalidHuffman \<longleftrightarrow> (\<forall>s. v \<noteq> AppendHuffmanString [] s)"
| "huffman_error m v e \<longleftrightarrow> e = ErrStringLength \<and> too_long m (byte_bits v)"

lemma huffman_error_intros:
  "decode_error m (byte_bits v) e \<Longrightarrow> huffman_error m v e" "last_error m (byte_bits v) e \<Longrightarrow> huffman_error m v e"
proof -
  show "huffman_error m v e" if "last_error m (byte_bits v) e" for e
    using that canonical_iff [of v] by (cases e) auto
  then show "huffman_error m v e" if "decode_error m (byte_bits v) e"
  proof -
    have "last_error m (byte_bits v) e" using that by (cases e) (use append_Nil2 in \<open>simp_all add: dead_def, metis\<close>)
    with \<open>\<And>e. last_error m (byte_bits v) e \<Longrightarrow> huffman_error m v e\<close> show ?thesis by blast
  qed
qed

lemma huffmanDecode_reads:
  assumes "0 \<le> m"
  shows "\<exists>r. huffmanDecode m v = Some r \<and>
    (case r of Inl e \<Rightarrow> huffman_error m v e | Inr s \<Rightarrow> v = AppendHuffmanString [] s \<and> (0 < m \<longrightarrow> int (length s) \<le> m))"
proof -
  obtain ch0 where root: "buildRootHuffmanNode = Some (Internal ch0)" "reps ch0 all_codes" using tree_built by blast
  have "read_so_far m [] (Internal ch0) 0 0 0 []" using at_root [OF root(2), of m "[]" "[]" 0 0] assms by simp
  from decode_bytes_reads [OF root(2) assms this, of v, unfolded append_Nil] obtain r where
    r: "decode_bytes (Internal ch0) m (Internal ch0) 0 0 0 [] v = Some r"
    "case r of Inl e \<Rightarrow> decode_error m (byte_bits v) e
     | Inr (n', cur', cbits', sbits', buf') \<Rightarrow> cbits' < 8 \<and> read_so_far m (byte_bits v) n' cur' cbits' sbits' buf'"
    by auto
  show ?thesis
  proof (cases r)
    case (Inl e)
    have "huffmanDecode m v = Some (Inl e)" by (simp add: huffmanDecode_def root(1) r(1) Inl)
    with r(2) Inl huffman_error_intros(1) show ?thesis by simp
  next
    case (Inr q)
    obtain n cur cbits sbits buf where q: "q = (n, cur, cbits, sbits, buf)" by (metis prod.exhaust)
    have "read_so_far m (byte_bits v) n cur cbits sbits buf" "cbits < 8" using r(2) Inr q by simp_all
    from decode_last_reads [OF root(2) assms this] obtain l where
      l: "decode_last (Internal ch0) m n cur cbits sbits buf = Some l"
      "case l of Inl e \<Rightarrow> last_error m (byte_bits v) e
       | Inr (cbits', sbits', buf') \<Rightarrow> cbits' < 8 \<and> read_all (byte_bits v) cur cbits' sbits' buf' \<and> (0 < m \<longrightarrow> int (length buf') \<le> m)"
      by blast
    show ?thesis
    proof (cases l)
      case e: (Inl e)
      have "huffmanDecode m v = Some (Inl e)" by (simp add: huffmanDecode_def root(1) r(1) Inr q l(1) e)
      with l(2) e huffman_error_intros(2) show ?thesis by simp
    next
      case ok: (Inr t)
      obtain cb sb out where t: "t = (cb, sb, out)" by (metis prod.exhaust)
      have c: "cb < 8" "read_all (byte_bits v) cur cb sb out" "0 < m \<longrightarrow> int (length out) \<le> m" using l(2) ok t by simp_all
      note can = read_all_canonical [OF c(2,1)]
      have d: "huffmanDecode m v = Some (if sb \<le> 7 \<and> wbits cb cur = replicate cb True then Inr out else Inl ErrInvalidHuffman)"
        by (simp add: huffmanDecode_def Let_def root(1) r(1) l(1) Inr ok q t mask_ones [OF c(1), of cur, simplified])
      show ?thesis
      proof (cases "sb \<le> 7 \<and> wbits cb cur = replicate cb True")
        case True
        then have "v = AppendHuffmanString [] out" using can(2) huffman_canonical [of v out cb "[]"] c(1) by simp
        with True d c(3) show ?thesis by simp
      next
        case False
        then have "huffman_error m v ErrInvalidHuffman" using can(1) canonical_iff [of v] by auto
        with False d show ?thesis by auto
      qed
    qed
  qed
qed

lemma too_long_encode:
  assumes "too_long m (byte_bits (AppendHuffmanString [] s))"
  shows "0 < m \<and> m < int (length s)"
proof -
  obtain t where t: "0 < m" "length t = Suc (nat m)" "prefix (huff_bits t) (byte_bits (AppendHuffmanString [] s))"
    using assms by (auto simp: too_long_def)
  then obtain k x where "huff_bits s @ replicate k True = huff_bits t @ x" using encoded_bits [of s] by (metis prefixE)
  then obtain u where "s = t @ u" using padded_unique by metis
  with t(1,2) show ?thesis by simp
qed

lemma huffmanDecode_encode:
  assumes "0 \<le> m"
  shows "huffmanDecode m (AppendHuffmanString [] s) =
    Some (if 0 < m \<and> m < int (length s) then Inl ErrStringLength else Inr s)"
proof -
  obtain r where r: "huffmanDecode m (AppendHuffmanString [] s) = Some r"
    "case r of Inl e \<Rightarrow> huffman_error m (AppendHuffmanString [] s) e
     | Inr t \<Rightarrow> AppendHuffmanString [] s = AppendHuffmanString [] t \<and> (0 < m \<longrightarrow> int (length t) \<le> m)"
    using huffmanDecode_reads [OF assms] by blast
  show ?thesis
  proof (cases r)
    case (Inl e)
    with r(2) have "e = ErrStringLength" "0 < m \<and> m < int (length s)" using too_long_encode by (cases e; auto)+
    with r(1) Inl show ?thesis by simp
  next
    case (Inr t)
    with r(2) AppendHuffmanString_inj have "s = t" "0 < m \<longrightarrow> int (length t) \<le> m" by auto
    with r(1) Inr show ?thesis by auto
  qed
qed

text \<open>C13: Decoding inverts encoding and nothing else: with no length limit \<open>huffmanDecode\<close> always returns; it returns
  \<open>s\<close> exactly on the bytes that \<open>AppendHuffmanString\<close> writes for \<open>s\<close>, and \<open>ErrInvalidHuffman\<close> on all other input - so
  every string has one encoding only, and an EOS symbol, a padding of 8 bits or more and a padding that is not all
  ones are refused.\<close>

theorem huffman_exact:
  "huffmanDecode 0 v = Some r \<longleftrightarrow>
    (case r of Inr s \<Rightarrow> v = AppendHuffmanString [] s | Inl e \<Rightarrow> e = ErrInvalidHuffman \<and> (\<nexists>s. v = AppendHuffmanString [] s))"
proof (cases "\<exists>s. v = AppendHuffmanString [] s")
  case True
  then obtain s where s: "v = AppendHuffmanString [] s" by blast
  then have "huffmanDecode 0 v = Some (Inr s)" using huffmanDecode_encode [of 0 s] by simp
  with s show ?thesis using AppendHuffmanString_inj by (auto split: sum.splits)
next
  case False
  obtain r' where r': "huffmanDecode 0 v = Some r'"
    "case r' of Inl e \<Rightarrow> huffman_error 0 v e | Inr s \<Rightarrow> v = AppendHuffmanString [] s \<and> (0 < (0::int) \<longrightarrow> int (length s) \<le> 0)"
    using huffmanDecode_reads [of 0 v] by auto
  then obtain e where e: "r' = Inl e" "huffman_error 0 v e" using False by (cases r') auto
  then have "e = ErrInvalidHuffman" by (cases e) (auto simp: too_long_def)
  with r'(1) e(1) False show ?thesis by (auto split: sum.splits)
qed

end
