(* ===== verification/Hpack_Encode.thy ===== *)
theory Hpack_Encode
  imports Huffman_Decode
begin

unbundle bit_operations_syntax

text \<open>
  third\_party/net/http2/hpack/encode.go, the encoder: string literals, the representations of a header field, and
  \<open>WriteField\<close> with the table size updates before a field and the one write to the underlying writer after it.
\<close>

definition appendHpackString :: "bytes \<Rightarrow> string \<Rightarrow> bytes" where
  "appendHpackString dst s =
     (let huffmanLength = HuffmanEncodeLength (go_bytes s)
      in if huffmanLength < of_nat (length s)
         then dst @ or_first 0x80 (AppendHuffmanString (appendVarInt [] 7 huffmanLength) (go_bytes s))
         else appendVarInt dst 7 (of_nat (length s)) @ go_bytes s)"

definition appendNewName :: "bytes \<Rightarrow> HeaderField \<Rightarrow> bool \<Rightarrow> bytes" where
  "appendNewName dst f indexing =
     appendHpackString (appendHpackString (dst @ [encodeTypeByte indexing (Sensitive f)]) (Name f)) (Value f)"

definition appendIndexedName :: "bytes \<Rightarrow> HeaderField \<Rightarrow> u64 \<Rightarrow> bool \<Rightarrow> bytes" where
  "appendIndexedName dst f i indexing =
     (let n = (if indexing then 6 else 4)
      in appendHpackString (dst @ or_first (encodeTypeByte indexing (Sensitive f)) (appendVarInt [] n i)) (Value f))"

text \<open>\<^verbatim>\<open>WriteField\<close> up to the write: the bytes of the size updates and of the field. \<open>None\<close> is a panic.\<close>

definition encode_field :: "Encoder \<Rightarrow> HeaderField \<Rightarrow> (bytes \<times> Encoder) option" where
  "encode_field e f =
     (let (buf, e) = WriteField_sizes e
      in case searchTable e f of
           None \<Rightarrow> None
         | Some (idx, nameValueMatch) \<Rightarrow>
             if nameValueMatch then Some (appendIndexed buf (of_nat idx), e)
             else
               let indexing = shouldIndex e f
               in case (if indexing then dynamicTable_add (enc_dynTab e) f else Some (enc_dynTab e)) of
                    None \<Rightarrow> None
                  | Some dt \<Rightarrow>
                      Some (if idx = 0 then appendNewName buf f indexing
                            else appendIndexedName buf f (of_nat idx) indexing, e\<lparr>enc_dynTab := dt\<rparr>))"

datatype 'e write_err = WriterErr 'e | ErrShortWrite

text \<open>The writer answers with the number of bytes it took and an error. What it was given is returned too.\<close>

definition WriteField :: "(bytes \<Rightarrow> nat \<times> 'e option) \<Rightarrow> Encoder \<Rightarrow> HeaderField \<Rightarrow> (bytes \<times> Encoder \<times> 'e write_err option) option" where
  "WriteField write e f =
     map_option (\<lambda>(buf, e'). (buf, e',
         case write buf of
           (n, None) \<Rightarrow> if n \<noteq> length buf then Some ErrShortWrite else None
         | (n, Some err) \<Rightarrow> Some (WriterErr err)))
       (encode_field e f)"

definition Encoder_MaxDynamicTableSize :: "Encoder \<Rightarrow> u32" where
  "Encoder_MaxDynamicTableSize e = dt_maxSize (enc_dynTab e)"

end
