(* ===== verification/Hpack_Decode.thy ===== *)
theory Hpack_Decode
  imports Hpack_Encode Go_Text
begin

unbundle bit_operations_syntax

text \<open>
  third\_party/net/http2/hpack/hpack.go, the decoder of header blocks. The unparsed buffer \<^verbatim>\<open>d.buf\<close> is only valid during
  a \<^verbatim>\<open>Write\<close> and is passed beside the decoder; a parser returns the decoder, the buffer and an error, and \<open>None\<close>
  when it panics.
\<close>

section \<open>Texts\<close>

definition HeaderField_String :: "HeaderField \<Rightarrow> string" where
  "HeaderField_String hf =
     ''header field '' @ fmt_q (Name hf) @ '' = '' @ fmt_q (Value hf) @ (if Sensitive hf then '' (sensitive)'' else [])"

text \<open>\<open>DecodingError\<close> holds the text of the error it wraps; an \<open>InvalidIndexError\<close> is always wrapped in one.\<close>

fun hpack_err_Error :: "hpack_err \<Rightarrow> string" where
  "hpack_err_Error errNeedMore = ''need more data''"
| "hpack_err_Error errVarintOverflow = ''decoding error: varint integer overflow''"
| "hpack_err_Error (DecodingError s) = ''decoding error: '' @ s"
| "hpack_err_Error (InvalidIndexError i) = ''decoding error: invalid indexed representation index '' @ fmt_int i"
| "hpack_err_Error ErrStringLength = ''hpack: string too long''"
| "hpack_err_Error ErrInvalidHuffman = ''hpack: invalid Huffman-encoded data''"

section \<open>The decoder\<close>

record undecodedString =
  isHuff :: bool
  undecoded_b :: bytes

datatype indexType = indexedTrue | indexedFalse | indexedNever

definition indexType_indexed :: "indexType \<Rightarrow> bool" where
  "indexType_indexed it \<longleftrightarrow> it = indexedTrue"

definition indexType_sensitive :: "indexType \<Rightarrow> bool" where
  "indexType_sensitive it \<longleftrightarrow> it = indexedNever"

definition SetMaxStringLength :: "Decoder \<Rightarrow> int \<Rightarrow> Decoder" where
  "SetMaxStringLength d n = d\<lparr>dec_maxStrLen := n\<rparr>"

text \<open>\<open>dec_emitted\<close> are the fields the present callback was given; a new one has been given none.\<close>

definition SetEmitFunc :: "Decoder \<Rightarrow> Decoder" where
  "SetEmitFunc d = d\<lparr>dec_emitted := []\<rparr>"

definition SetEmitEnabled :: "Decoder \<Rightarrow> bool \<Rightarrow> Decoder" where
  "SetEmitEnabled d v = d\<lparr>dec_emitEnabled := v\<rparr>"

definition EmitEnabled :: "Decoder \<Rightarrow> bool" where
  "EmitEnabled d = dec_emitEnabled d"

definition readString :: "Decoder \<Rightarrow> bytes \<Rightarrow> (hpack_err + undecodedString \<times> bytes) option" where
  "readString d p =
     (if p = [] then Some (Inl errNeedMore)
      else
        let huff = p ! 0 AND 128 \<noteq> 0
        in case readVarInt 7 p of
             None \<Rightarrow> None
           | Some (Inl e) \<Rightarrow> Some (Inl e)
           | Some (Inr (strLen, p)) \<Rightarrow>
               if dec_maxStrLen d \<noteq> 0 \<and> strLen > word_of_int (dec_maxStrLen d) then Some (Inl ErrStringLength)
               else if length p < unat strLen then Some (Inl errNeedMore)
               else Some (Inr (\<lparr>isHuff = huff, undecoded_b = take (unat strLen) p\<rparr>, drop (unat strLen) p)))"

definition decodeString :: "Decoder \<Rightarrow> undecodedString \<Rightarrow> (hpack_err + string) option" where
  "decodeString d u =
     (if \<not> isHuff u then Some (Inr (go_string (undecoded_b u)))
      else map_option (map_sum id go_string) (huffmanDecode (dec_maxStrLen d) (undecoded_b u)))"

definition callEmit :: "Decoder \<Rightarrow> HeaderField \<Rightarrow> Decoder \<times> hpack_err option" where
  "callEmit d hf =
     (if dec_maxStrLen d \<noteq> 0 \<and> (int (length (Name hf)) > dec_maxStrLen d \<or> int (length (Value hf)) > dec_maxStrLen d)
      then (d, Some ErrStringLength)
      else (if dec_emitEnabled d then d\<lparr>dec_emitted := dec_emitted d @ [hf]\<rparr> else d, None))"

definition parseFieldIndexed :: "Decoder \<Rightarrow> bytes \<Rightarrow> (Decoder \<times> bytes \<times> hpack_err option) option" where
  "parseFieldIndexed d buf =
     (case readVarInt 7 buf of
        None \<Rightarrow> None
      | Some (Inl e) \<Rightarrow> Some (d, buf, Some e)
      | Some (Inr (idx, rest)) \<Rightarrow>
          (case Decoder_at d (unat idx) of
             None \<Rightarrow> Some (d, buf, Some (InvalidIndexError (sint idx)))
           | Some hf \<Rightarrow>
               let (d', err) = callEmit d \<lparr>Name = Name hf, Value = Value hf, Sensitive = False\<rparr>
               in Some (d', rest, err)))"

text \<open>The name of a literal: from a table, or a string in the buffer that is decoded later.\<close>

definition literal_name :: "Decoder \<Rightarrow> u64 \<Rightarrow> bytes \<Rightarrow> (hpack_err + (string + undecodedString) \<times> bytes) option" where
  "literal_name d nameIdx buf =
     (if nameIdx > 0 then
        (case Decoder_at d (unat nameIdx) of
           None \<Rightarrow> Some (Inl (InvalidIndexError (sint nameIdx)))
         | Some ihf \<Rightarrow> Some (Inr (Inl (Name ihf), buf)))
      else map_option (map_sum id (\<lambda>(u, rest). (Inr u, rest))) (readString d buf))"

text \<open>The decoding of the strings; one that is not wanted stays empty.\<close>

definition literal_decode :: "Decoder \<Rightarrow> bool \<Rightarrow> string + undecodedString \<Rightarrow> undecodedString \<Rightarrow> (hpack_err + string \<times> string) option" where
  "literal_decode d wantStr name value =
     (if \<not> wantStr then Some (Inr (case name of Inl n \<Rightarrow> n | Inr _ \<Rightarrow> '''', ''''))
      else
        (case (case name of Inl n \<Rightarrow> Some (Inr n) | Inr u \<Rightarrow> decodeString d u) of
           None \<Rightarrow> None
         | Some (Inl e) \<Rightarrow> Some (Inl e)
         | Some (Inr n) \<Rightarrow> map_option (map_sum id (Pair n)) (decodeString d value)))"

definition parseFieldLiteral :: "Decoder \<Rightarrow> nat \<Rightarrow> indexType \<Rightarrow> bytes \<Rightarrow> (Decoder \<times> bytes \<times> hpack_err option) option" where
  "parseFieldLiteral d n it buf =
     (case readVarInt n buf of
        None \<Rightarrow> None
      | Some (Inl e) \<Rightarrow> Some (d, buf, Some e)
      | Some (Inr (nameIdx, buf1)) \<Rightarrow>
     (case literal_name d nameIdx buf1 of
        None \<Rightarrow> None
      | Some (Inl e) \<Rightarrow> Some (d, buf, Some e)
      | Some (Inr (name, buf2)) \<Rightarrow>
     (case readString d buf2 of
        None \<Rightarrow> None
      | Some (Inl e) \<Rightarrow> Some (d, buf, Some e)
      | Some (Inr (value, rest)) \<Rightarrow>
     (case literal_decode d (dec_emitEnabled d \<or> indexType_indexed it) name value of
        None \<Rightarrow> None
      | Some (Inl e) \<Rightarrow> Some (d, buf, Some e)
      | Some (Inr (nm, v)) \<Rightarrow>
          let hf = \<lparr>Name = nm, Value = v, Sensitive = False\<rparr>
          in case (if indexType_indexed it then dynamicTable_add (dec_dynTab d) hf else Some (dec_dynTab d)) of
               None \<Rightarrow> None
             | Some dt \<Rightarrow>
                 let (d', err) = callEmit (d\<lparr>dec_dynTab := dt\<rparr>) (hf\<lparr>Sensitive := indexType_sensitive it\<rparr>)
                 in Some (d', rest, err)))))"

definition parse_size_repr :: "Decoder \<Rightarrow> bytes \<Rightarrow> (Decoder \<times> bytes \<times> hpack_err option) option" where
  "parse_size_repr d buf =
     map_option (\<lambda>r. case r of Inl e \<Rightarrow> (d, buf, Some e) | Inr (d', rest) \<Rightarrow> (d', rest, None)) (parseDynamicTableSizeUpdate d buf)"

definition parseHeaderFieldRepr :: "Decoder \<Rightarrow> bytes \<Rightarrow> (Decoder \<times> bytes \<times> hpack_err option) option" where
  "parseHeaderFieldRepr d buf =
     (case buf of
        [] \<Rightarrow> None
      | b # _ \<Rightarrow>
          if b AND 128 \<noteq> 0 then parseFieldIndexed d buf
          else if b AND 192 = 64 then parseFieldLiteral d 6 indexedTrue buf
          else if b AND 240 = 0 then parseFieldLiteral d 4 indexedFalse buf
          else if b AND 240 = 16 then parseFieldLiteral d 4 indexedNever buf
          else if b AND 224 = 32 then parse_size_repr d buf
          else Some (d, buf, Some (DecodingError ''invalid encoding'')))"

definition varIntOverhead :: u64 where "varIntOverhead = 8"

text \<open>The loop of \<^verbatim>\<open>Write\<close>; \<open>n\<close> is the length of what was written.\<close>

partial_function (option) Write_loop :: "nat \<Rightarrow> Decoder \<Rightarrow> bytes \<Rightarrow> (nat \<times> hpack_err option \<times> Decoder) option" where
  "Write_loop n d buf =
     (if buf = [] then Some (n, None, d)
      else
        (case parseHeaderFieldRepr d buf of
           None \<Rightarrow> None
         | Some (d', buf', err) \<Rightarrow>
             if err = Some errNeedMore then
               if dec_maxStrLen d' \<noteq> 0 \<and> int (length buf') > sint (2 * (word_of_int (dec_maxStrLen d') + varIntOverhead))
               then Some (0, Some ErrStringLength, d')
               else Some (n, None, d'\<lparr>dec_saveBuf := dec_saveBuf d' @ buf'\<rparr>)
             else if err \<noteq> None then Some (n, err, d'\<lparr>dec_firstField := False\<rparr>)
             else Write_loop n (d'\<lparr>dec_firstField := False\<rparr>) buf'))"

declare Write_loop.simps [code]

definition Decoder_Write :: "Decoder \<Rightarrow> bytes \<Rightarrow> (nat \<times> hpack_err option \<times> Decoder) option" where
  "Decoder_Write d p =
     (if p = [] then Some (0, None, d)
      else Write_loop (length p) (d\<lparr>dec_saveBuf := []\<rparr>) (dec_saveBuf d @ p))"

definition Decoder_Close :: "Decoder \<Rightarrow> hpack_err option \<times> Decoder" where
  "Decoder_Close d =
     (if dec_saveBuf d \<noteq> [] then (Some (DecodingError ''truncated headers''), d\<lparr>dec_saveBuf := []\<rparr>)
      else (None, d\<lparr>dec_firstField := True\<rparr>))"

text \<open>\<^verbatim>\<open>DecodeFull\<close> collects the fields itself and puts the callback back when it returns.\<close>

definition DecodeFull :: "Decoder \<Rightarrow> bytes \<Rightarrow> ((hpack_err + HeaderField list) \<times> Decoder) option" where
  "DecodeFull d p =
     (let restore = (\<lambda>d'. d'\<lparr>dec_emitted := dec_emitted d\<rparr>)
      in map_option (\<lambda>(n, err, d1).
           case err of
             Some e \<Rightarrow> (Inl e, restore d1)
           | None \<Rightarrow>
               (case Decoder_Close d1 of
                  (Some e, d2) \<Rightarrow> (Inl e, restore d2)
                | (None, d2) \<Rightarrow> (Inr (dec_emitted d2), restore d2)))
         (Decoder_Write (SetEmitFunc d) p))"

end
