(* ===== verification/Hpack_Block.thy ===== *)
theory Hpack_Block
  imports Hpack_Decode
begin

unbundle bit_operations_syntax

text \<open>
  third\_party/net/http2/hpack, header blocks: what the encoder writes, the decoder reads. The first byte of each
  representation, the string literals, the tables of both sides when the encoder's entries are the newest of the
  decoder's, one field, the size updates in front of it, and blocks of fields. \<open>in_step\<close> is the invariant of the two
  sides; it also holds after changes of the table size.
\<close>

section \<open>The first byte\<close>

lemma appendVarInt_append: "appendVarInt dst n i = dst @ appendVarInt [] n i"
  by (simp add: appendVarInt_def Let_def)

lemma appendHpackString_append: "appendHpackString dst s = dst @ appendHpackString [] s"
  by (simp add: appendHpackString_def Let_def appendVarInt_append [of dst])

lemma or_first_append: "xs \<noteq> [] \<Longrightarrow> or_first t (xs @ ys) = or_first t xs @ ys"
  by (cases xs) simp_all

lemma or_first_0 [simp]: "or_first 0 xs = xs"
  by (cases xs) simp_all

lemma appendVarInt_head:
  assumes "1 \<le> n" "n \<le> 8"
  shows "\<exists>b bs. appendVarInt [] n i = b # bs \<and> take_bit n b = b"
proof -
  have head: "take_bit n (ucast w :: byte) = ucast w" if "unat w < 2 ^ n" for w :: u64
    by (rule bit_word_eqI) (use bit_lt_exp [OF that] in \<open>auto simp: bit_take_bit_iff bit_unsigned_iff\<close>)
  have "unat (prefix_max n) = 2 ^ n - 1" by (rule prefix_value [OF assms])
  then have "unat (prefix_max n) < 2 ^ n" "i < prefix_max n \<longrightarrow> unat i < 2 ^ n" by (auto simp: word_less_nat_alt)
  with head show ?thesis by (auto simp: appendVarInt_def Let_def)
qed

lemma head_and: "take_bit n b = b \<Longrightarrow> mask n AND m = 0 \<Longrightarrow> ((b :: byte) OR t) AND m = t AND m"
proof -
  assume b: "take_bit n b = b" and m: "mask n AND m = 0"
  have "b AND m = b AND (mask n AND m)" using b by (metis and.assoc take_bit_eq_mask)
  with m show ?thesis by (simp add: bit.conj_disj_distrib2)
qed


lemma tagged_head:
  assumes "1 \<le> n" "n \<le> 8"
  obtains b bs where "or_first t (appendVarInt [] n i) = b # bs" "\<And>m. mask n AND m = 0 \<Longrightarrow> b AND m = t AND m"
  using appendVarInt_head [OF assms, of i] head_and by (metis or_first.simps(2))

lemma indexed_dispatch: "parseHeaderFieldRepr d (or_first 0x80 (appendVarInt [] 7 i) @ rest) = parseFieldIndexed d (or_first 0x80 (appendVarInt [] 7 i) @ rest)"
proof -
  obtain b bs where b: "or_first 0x80 (appendVarInt [] 7 i) = b # bs" "\<And>m. mask 7 AND m = 0 \<Longrightarrow> b AND m = 0x80 AND m"
    by (rule tagged_head [where n = 7 and t = "0x80" and i = i]) auto
  have "b AND 128 = 128" using b(2) [of 128] by (simp add: mask_eq_exp_minus_1)
  with b(1) show ?thesis by (simp add: parseHeaderFieldRepr_def)
qed

definition literal_prefix :: "bool \<Rightarrow> nat" where "literal_prefix indexing = (if indexing then 6 else 4)"

definition literal_type :: "bool \<Rightarrow> bool \<Rightarrow> indexType" where
  "literal_type indexing sensitive = (if sensitive then indexedNever else if indexing then indexedTrue else indexedFalse)"

lemma literal_dispatch:
  assumes "indexing \<longrightarrow> \<not> sensitive"
  shows "parseHeaderFieldRepr d (or_first (encodeTypeByte indexing sensitive) (appendVarInt [] (literal_prefix indexing) i) @ rest) =
    parseFieldLiteral d (literal_prefix indexing) (literal_type indexing sensitive)
      (or_first (encodeTypeByte indexing sensitive) (appendVarInt [] (literal_prefix indexing) i) @ rest)"
proof -
  let ?n = "literal_prefix indexing" and ?t = "encodeTypeByte indexing sensitive"
  obtain b bs where b: "or_first ?t (appendVarInt [] ?n i) = b # bs" "\<And>m. mask ?n AND m = 0 \<Longrightarrow> b AND m = ?t AND m"
    by (rule tagged_head [of ?n]) (auto simp: literal_prefix_def)
  show ?thesis
  proof (cases indexing)
    case True
    then have "b AND 128 = 0" "b AND 192 = 64"
      using b(2) [of 128] b(2) [of 192] assms by (simp_all add: mask_eq_exp_minus_1 literal_prefix_def encodeTypeByte_def)
    with True b(1) assms show ?thesis by (simp add: parseHeaderFieldRepr_def literal_prefix_def literal_type_def)
  next
    case False
    then have "b AND 128 = 0" "b AND 192 = 0" "b AND 240 = ?t"
      using b(2) [of 128] b(2) [of 192] b(2) [of 240] by (simp_all add: mask_eq_exp_minus_1 literal_prefix_def encodeTypeByte_def)
    with False b(1) show ?thesis by (auto simp: parseHeaderFieldRepr_def literal_prefix_def literal_type_def encodeTypeByte_def)
  qed
qed

lemma size_dispatch: "parseHeaderFieldRepr d (appendTableSize [] v @ rest) = parse_size_repr d (appendTableSize [] v @ rest)"
proof -
  obtain b bs where b: "or_first 0x20 (appendVarInt [] 5 (ucast v)) = b # bs" "\<And>m. mask 5 AND m = 0 \<Longrightarrow> b AND m = 0x20 AND m"
    by (rule tagged_head [of 5]) auto
  have "b AND 128 = 0" "b AND 192 = 0" "b AND 224 = 32" and b32: "b AND 32 = 32"
    using b(2) [of 128] b(2) [of 192] b(2) [of 224] b(2) [of 32] by (simp_all add: mask_eq_exp_minus_1)
  moreover have "(b AND 240) AND 32 = 32" using b32 by (simp add: and.assoc)
  then have "b AND 240 \<noteq> 0" "b AND 240 \<noteq> 16" by auto
  ultimately show ?thesis using b(1) by (simp add: parseHeaderFieldRepr_def appendTableSize_def)
qed

section \<open>String literals\<close>

lemma tag_0x80: "bit (0x80 :: byte) k \<Longrightarrow> 7 \<le> k"
  using bit_exp_iff [of 7 k, where 'a = byte] by auto

text \<open>Strings that a decoder with the limit \<open>m\<close> takes; 0 is no limit.\<close>

definition admits :: "int \<Rightarrow> string \<Rightarrow> bool" where
  "admits m s \<longleftrightarrow> m = 0 \<or> int (length s) \<le> m"

lemma readString_append:
  assumes "length s < 2 ^ 58" and "admits (dec_maxStrLen d) s" and "0 \<le> dec_maxStrLen d" "dec_maxStrLen d < 2 ^ 63"
  shows "\<exists>u. (\<forall>rest. readString d (appendHpackString [] s @ rest) = Some (Inr (u, rest))) \<and> decodeString d u = Some (Inr s)"
proof -
  let ?m = "dec_maxStrLen d" and ?h = "AppendHuffmanString [] (go_bytes s)"
  have h: "unat (HuffmanEncodeLength (go_bytes s)) = length ?h" using HuffmanEncodeLength_exact [of "go_bytes s"] assms(1) by simp
  have l: "unat (of_nat (length s) :: u64) = length s" using assms(1) by (simp add: unat_of_nat take_bit_nat_eq_self)
  have m: "unat (word_of_int ?m :: u64) = nat ?m" using assms(3,4) by (simp add: uint_word_of_int flip: nat_uint_eq)
  have lim: "\<not> (?m \<noteq> 0 \<and> word_of_int ?m < x)" if "unat x \<le> length s" for x :: u64
    using that assms(2,3) m by (auto simp: admits_def word_less_nat_alt)
  have read: "readString d ((x # xs) @ rest) = Some (Inr (\<lparr>isHuff = x AND 128 \<noteq> 0, undecoded_b = v\<rparr>, rest))"
    if "readVarInt 7 ((x # xs) @ rest) = Some (Inr (n, v @ rest))" "length v = unat n" "unat n \<le> length s" for x xs n v rest
    using that lim [of n] by (simp add: readString_def Let_def)
  show ?thesis
  proof (cases "HuffmanEncodeLength (go_bytes s) < of_nat (length s)")
    case True
    let ?n = "HuffmanEncodeLength (go_bytes s)"
    obtain x xs where v: "or_first 0x80 (appendVarInt [] 7 ?n) = x # xs" "\<And>m. mask 7 AND m = 0 \<Longrightarrow> x AND m = 0x80 AND m"
      by (rule tagged_head [of 7]) auto
    obtain y ys where y: "appendVarInt [] 7 ?n = y # ys" using appendVarInt_head [of 7 ?n] by auto
    have e: "appendHpackString [] s = (x # xs) @ ?h"
      using True v(1) y AppendHuffmanString_append [of "y # ys"] by (simp add: appendHpackString_def Let_def)
    have le: "unat ?n \<le> length s" using True l by (simp add: word_less_nat_alt)
    then have "unat ?n < 2 ^ 63" using assms(1) by simp
    then have "readVarInt 7 ((x # xs) @ ?h @ rest) = Some (Inr (?n, ?h @ rest))" for rest
      using readVarInt_append [of 7 ?n "0x80" "?h @ rest"] tag_0x80 v(1) by simp
    with read [of x "xs @ ?h" _ ?n ?h] h le have "readString d (appendHpackString [] s @ rest) =
        Some (Inr (\<lparr>isHuff = x AND 128 \<noteq> 0, undecoded_b = ?h\<rparr>, rest))" for rest by (simp add: e)
    moreover have "x AND 128 \<noteq> 0" using v(2) [of 128] by (simp add: mask_eq_exp_minus_1)
    moreover have "huffmanDecode ?m ?h = Some (Inr (go_bytes s))"
      using huffmanDecode_encode [OF assms(3), of "go_bytes s"] assms(2) by (auto simp: admits_def)
    ultimately show ?thesis by (simp add: decodeString_def)
  next
    case False
    let ?n = "of_nat (length s) :: u64"
    obtain x xs where v: "appendVarInt [] 7 ?n = x # xs" "take_bit 7 x = x" using appendVarInt_head [of 7 ?n] by auto
    have e: "appendHpackString [] s = (x # xs) @ go_bytes s" using False v(1) by (simp add: appendHpackString_def)
    have "unat ?n < 2 ^ 63" using assms(1) l by simp
    then have "readVarInt 7 ((x # xs) @ go_bytes s @ rest) = Some (Inr (?n, go_bytes s @ rest))" for rest
      using readVarInt_append [of 7 ?n 0 "go_bytes s @ rest"] v(1) by simp
    with read [of x "xs @ go_bytes s" _ ?n "go_bytes s"] l have "readString d (appendHpackString [] s @ rest) =
        Some (Inr (\<lparr>isHuff = x AND 128 \<noteq> 0, undecoded_b = go_bytes s\<rparr>, rest))" for rest by (simp add: e)
    moreover have "x AND 128 = 0" using head_and [OF v(2), of 128 0] by (simp add: mask_eq_exp_minus_1)
    ultimately show ?thesis by (simp add: decodeString_def)
  qed
qed

section \<open>The tables of both sides\<close>

lemma suffix_of_fit: "suffix (fit m fs) fs"
  by (induction fs) (auto simp: suffix_Cons)

lemma suffix_bytes: "suffix es fs \<Longrightarrow> table_bytes es \<le> table_bytes fs"
  by (auto simp: suffix_def)

lemma fit_suffix: "suffix es ds \<Longrightarrow> suffix (fit m es) (fit m ds)"
proof (induction ds)
  case (Cons x ds)
  show ?case
  proof (cases "es = x # ds")
    case False
    with Cons.prems have s: "suffix es ds" by (simp add: suffix_Cons)
    with suffix_of_fit [of m es] Cons.IH show ?thesis by (auto intro: suffix_order.trans simp: suffix_Cons)
  qed simp
qed simp

lemma suffix_fit: "suffix es ds \<Longrightarrow> table_bytes es \<le> m \<Longrightarrow> suffix es (fit m ds)"
  using fit_suffix [of es ds m] by (simp add: fit_all)

lemma fit_bytes: "table_bytes (fit m fs) \<le> m"
  by (induction fs) auto

text \<open>How many entries a table was ever given; the source counts them in 64 bits.\<close>

definition made :: "dynamicTable \<Rightarrow> nat" where
  "made dt = evictCount (dt_table dt) + length (ents (dt_table dt))"

lemma roomyD:
  assumes "roomy dt"
  shows "table_ok (dt_table dt)" "unat (dt_size dt) = table_bytes (ents (dt_table dt))" "dt_size dt \<le> dt_maxSize dt"
    "made dt < 2 ^ 64" "table_bytes (ents (dt_table dt)) \<le> unat (dt_maxSize dt)"
  using assms by (auto simp: roomy_def dynamic_ok_def made_def word_le_nat_alt)

lemma setMaxSize_keeps:
  assumes "roomy dt"
  obtains dt' where "dynamicTable_setMaxSize dt v = Some dt'" "roomy dt'" "dt_maxSize dt' = v"
    "dt_allowedMaxSize dt' = dt_allowedMaxSize dt" "ents (dt_table dt') = fit (unat v) (ents (dt_table dt))" "made dt' = made dt"
proof -
  from roomyD [OF assms] dynamicTable_evict_spec [of "dt\<lparr>dt_maxSize := v\<rparr>"] obtain n dt' where
    d: "dynamicTable_evict (dt\<lparr>dt_maxSize := v\<rparr>) = Some dt'" "n \<le> length (ents (dt_table dt))"
    "ents (dt_table dt') = drop n (ents (dt_table dt))" "evictCount (dt_table dt') = evictCount (dt_table dt) + n"
    by (auto simp: made_def)
  then have "made dt' = made dt" by (simp add: made_def)
  moreover have "dynamicTable_setMaxSize dt v = Some dt'" using d(1) by (simp add: dynamicTable_setMaxSize_def)
  ultimately show thesis using that setMaxSize_fit [OF assms, of v] by auto
qed

lemma add_fit:
  assumes "roomy dt" and "table_bytes (ents (dt_table dt)) + field_bytes f < 2 ^ 32" and "made dt + 1 < 2 ^ 64"
  obtains dt' where "dynamicTable_add dt f = Some dt'" "roomy dt'" "dt_maxSize dt' = dt_maxSize dt"
    "dt_allowedMaxSize dt' = dt_allowedMaxSize dt"
    "ents (dt_table dt') = fit (unat (dt_maxSize dt)) (ents (dt_table dt) @ [f])" "made dt' = made dt + 1"
proof -
  let ?fs = "ents (dt_table dt) @ [f]"
  let ?dt = "dt\<lparr>dt_table := addEntry (dt_table dt) f, dt_size := dt_size dt + HeaderField_Size f\<rparr>"
  note r = roomyD [OF assms(1)]
  have u: "unat (HeaderField_Size f) = field_bytes f" using assms(2) by (intro unat_field_size) simp
  have e: "ents (addEntry (dt_table dt) f) = ?fs" "evictCount (addEntry (dt_table dt) f) = evictCount (dt_table dt)"
    by (simp_all add: addEntry_def Let_def)
  have "unat (dt_size ?dt) = table_bytes (ents (dt_table ?dt))"
    using r(2) assms(2) unat_add_no_wrap [of "dt_size dt" "HeaderField_Size f"] by (simp add: u e)
  moreover have "table_ok (dt_table ?dt)" using r(1) by (simp add: table_ok_addEntry)
  ultimately obtain n dt' where d: "dynamicTable_evict ?dt = Some dt'" "dynamic_ok dt'" "dt_maxSize dt' = dt_maxSize dt"
    "dt_allowedMaxSize dt' = dt_allowedMaxSize dt" "n \<le> length ?fs"
    "ents (dt_table dt') = drop n ?fs" "evictCount (dt_table dt') = evictCount (dt_table dt) + n"
    "\<forall>m < n. unat (dt_maxSize dt) < table_bytes (drop m ?fs)"
    using dynamicTable_evict_spec [of ?dt] assms(3) by (auto simp: e made_def)
  have "table_bytes (drop n ?fs) \<le> unat (dt_maxSize dt)" using d(2,3,6) by (simp add: dynamic_ok_def word_le_nat_alt)
  then have "ents (dt_table dt') = fit (unat (dt_maxSize dt)) ?fs" using fit_drop [OF d(5) _ d(8)] d(6) by simp
  moreover have "made dt' = made dt + 1" using d(5-7) by (simp add: made_def)
  moreover have "roomy dt'" using d(2) calculation(2) assms(3) by (simp add: roomy_def made_def)
  ultimately show thesis using that [of dt'] d by (simp add: dynamicTable_add_def)
qed

lemma entries_bound: "32 * length fs \<le> table_bytes fs"
  by (induction fs) (simp_all add: field_bytes_def)

lemma full_match: "searchTable e f = Some (i, True) \<Longrightarrow> \<not> Sensitive f"
  by (auto simp: searchTable_def table_search_def split: option.splits if_splits prod.splits)

text \<open>The index an encoder finds for a field means to a decoder that has the encoder's entries as its newest ones
  what it means to the encoder.\<close>

lemma found_index:
  assumes "roomy (enc_dynTab e)" and "suffix (ents (dt_table (enc_dynTab e))) (ents (dt_table (dec_dynTab d)))"
    and "searchTable e f = Some (i, m)"
  shows "i < 2 ^ 32 \<and>
    (if i = 0 then \<not> m else \<exists>hf. Decoder_at d i = Some hf \<and> Name hf = Name f \<and> (m \<longrightarrow> Value hf = Value f))"
proof -
  let ?E = "ents (dt_table (enc_dynTab e))" and ?D = "ents (dt_table (dec_dynTab d))"
  note r = roomyD [OF assms(1)]
  have st61: "length (ents staticTable) = 61" by (simp add: staticTable_def static_ents_def)
  have len: "length ?E < 2 ^ 27"
    using entries_bound [of ?E] r(2) unsigned_less [of "dt_size (enc_dynTab e)", where ?'a = nat] by simp
  obtain j n where st: "table_search True staticTable f = Some (j, n)"
    using assms(3) by (auto simp: searchTable_def split: option.splits)
  note s = static_search_spec [OF st]
  show ?thesis
  proof (cases n)
    case True
    with assms(3) st have "i = j" "m" by (simp_all add: searchTable_def)
    with s True st61 show ?thesis by (auto simp: Decoder_at_def)
  next
    case False
    obtain j' n' where dy: "table_search False (dt_table (enc_dynTab e)) f = Some (j', n')"
      using assms(3) st False by (auto simp: searchTable_def split: option.splits)
    note dsp = dynamic_search_spec [OF r(1) dy]
    show ?thesis
    proof (cases "n' \<or> (j = 0 \<and> j' \<noteq> 0)")
      case True
      with assms(3) st dy False have i: "i = j' + length (ents staticTable)" "m = n'" by (auto simp: searchTable_def)
      from dsp True have j': "1 \<le> j'" "j' \<le> length ?E" by auto
      obtain xs where xs: "?D = xs @ ?E" using assms(2) by (auto simp: suffix_def)
      have "?D ! (length ?D - j') = ?E ! (length ?E - j')" using j' by (simp add: xs nth_append)
      with i j' dsp True len st61 xs show ?thesis by (auto simp: Decoder_at_def maxTableIndex_def Let_def)
    next
      case no: False
      with assms(3) st dy False have "i = j" "\<not> m" by (auto simp: searchTable_def)
      with s False st61 show ?thesis by (auto simp: Decoder_at_def)
    qed
  qed
qed

lemma searchTable_total:
  assumes "roomy (enc_dynTab e)"
  obtains i m where "searchTable e f = Some (i, m)"
proof -
  have id: "uid \<noteq> 0 \<Longrightarrow> idToIndex True staticTable uid \<noteq> None" for uid by (simp add: idToIndex_def staticTable_def)
  have nv: "byNameValue staticTable k = Some uid \<Longrightarrow> uid \<noteq> 0" for k uid
    using table_ok_static by (cases k) (auto simp: table_ok_def indexes_def)
  have nm: "byName staticTable n = Some uid \<Longrightarrow> uid \<noteq> 0" for n uid
    using table_ok_static by (auto simp: table_ok_def indexes_def)
  have "table_search True staticTable f \<noteq> None"
    unfolding table_search_def using id nv nm by (auto split: option.splits if_splits)
  moreover have "table_search False (dt_table (enc_dynTab e)) f \<noteq> None"
    using table_search_sound [OF roomyD(1) [OF assms], of f] by (auto split: option.splits)
  ultimately have "searchTable e f \<noteq> None" by (auto simp: searchTable_def split: option.splits prod.splits)
  then show thesis using that by auto
qed

section \<open>One field\<close>

text \<open>Encoder and decoder in step: the entries of the encoder are the newest ones of the decoder, and fit every size
  the encoder has had since its last update; with no update due the maximum sizes are equal.\<close>

definition in_step :: "Encoder \<Rightarrow> Decoder \<Rightarrow> bool" where
  "in_step e d \<longleftrightarrow> roomy (enc_dynTab e) \<and> roomy (dec_dynTab d) \<and>
     suffix (ents (dt_table (enc_dynTab e))) (ents (dt_table (dec_dynTab d))) \<and>
     table_bytes (ents (dt_table (enc_dynTab e))) \<le> unat (enc_minSize e) \<and>
     unat (dt_maxSize (enc_dynTab e)) < 2 ^ 31 \<and> dt_maxSize (enc_dynTab e) \<le> dt_allowedMaxSize (dec_dynTab d) \<and>
     (\<not> enc_tableSizeUpdate e \<longrightarrow> enc_minSize e = uint32Max \<and> dt_maxSize (dec_dynTab d) = dt_maxSize (enc_dynTab e))"

text \<open>Fields that the encoder can size and the decoder takes.\<close>

definition takes :: "Decoder \<Rightarrow> HeaderField \<Rightarrow> bool" where
  "takes d f \<longleftrightarrow> field_bytes f < 2 ^ 32 \<and> admits (dec_maxStrLen d) (Name f) \<and> admits (dec_maxStrLen d) (Value f)"

definition emitting :: "Decoder \<Rightarrow> bool" where
  "emitting d \<longleftrightarrow> dec_emitEnabled d \<and> 0 \<le> dec_maxStrLen d \<and> dec_maxStrLen d < 2 ^ 63"

lemma emit_field:
  assumes "emitting d" and "takes d f"
  shows "callEmit (d\<lparr>dec_dynTab := dt\<rparr>) f = (d\<lparr>dec_dynTab := dt, dec_emitted := dec_emitted d @ [f]\<rparr>, None)"
  using assms by (auto simp: callEmit_def emitting_def takes_def admits_def)

lemma read_field_string:
  assumes "emitting d" and "takes d f" and "s = Name f \<or> s = Value f"
  obtains u where "\<And>rest. readString d (appendHpackString [] s @ rest) = Some (Inr (u, rest))" "decodeString d u = Some (Inr s)"
proof -
  have "length s < 2 ^ 58" "admits (dec_maxStrLen d) s" using assms(2,3) by (auto simp: takes_def field_bytes_def)
  moreover have "0 \<le> dec_maxStrLen d" "dec_maxStrLen d < 2 ^ 63" using assms(1) by (simp_all add: emitting_def)
  ultimately show thesis using readString_append that by blast
qed

definition literal_repr :: "nat \<Rightarrow> HeaderField \<Rightarrow> bool \<Rightarrow> bytes" where
  "literal_repr i f indexing =
     or_first (encodeTypeByte indexing (Sensitive f)) (appendVarInt [] (literal_prefix indexing) (of_nat i)) @
     (if i = 0 then appendHpackString [] (Name f) else []) @ appendHpackString [] (Value f)"

lemma append_literal:
  "(if i = 0 then appendNewName buf f indexing else appendIndexedName buf f (of_nat i) indexing) = buf @ literal_repr i f indexing"
proof -
  have "appendVarInt [] (literal_prefix indexing) 0 = [0]"
    by (simp add: appendVarInt_def prefix_max_def literal_prefix_def Let_def)
  then show ?thesis
    by (simp add: literal_repr_def appendNewName_def appendIndexedName_def literal_prefix_def
        appendHpackString_append [of "_ @ _"] appendHpackString_append [of "_ # _"] split: if_splits)
qed

lemma parse_literal:
  assumes "emitting d" and "takes d f" and "i < 2 ^ 32" and "indexing \<longrightarrow> \<not> Sensitive f"
    and at: "i \<noteq> 0 \<Longrightarrow> \<exists>hf. Decoder_at d i = Some hf \<and> Name hf = Name f"
    and add: "if indexing then dynamicTable_add (dec_dynTab d) f = Some dt else dt = dec_dynTab d"
  shows "parseHeaderFieldRepr d (literal_repr i f indexing @ rest) =
    Some (d\<lparr>dec_dynTab := dt, dec_emitted := dec_emitted d @ [f]\<rparr>, rest, None)"
proof -
  let ?n = "literal_prefix indexing" and ?t = "encodeTypeByte indexing (Sensitive f)" and ?it = "literal_type indexing (Sensitive f)"
  let ?tail = "(if i = 0 then appendHpackString [] (Name f) else []) @ appendHpackString [] (Value f) @ rest"
  obtain uv where uv: "\<And>rest. readString d (appendHpackString [] (Value f) @ rest) = Some (Inr (uv, rest))"
    "decodeString d uv = Some (Inr (Value f))"
    by (rule read_field_string [OF assms(1,2), of "Value f"]) blast+
  have i: "unat (of_nat i :: u64) = i" using assms(3) by (simp add: unat_of_nat take_bit_nat_eq_self)
  have tag: "?n \<le> k" if "bit ?t k" for k
    using that assms(4) bit_exp_iff [of 6 k, where 'a = byte] bit_exp_iff [of 4 k, where 'a = byte]
    by (auto simp: encodeTypeByte_def literal_prefix_def split: if_splits)
  have rd: "readVarInt ?n (or_first ?t (appendVarInt [] ?n (of_nat i)) @ ?tail) = Some (Inr (of_nat i, ?tail))"
    by (rule readVarInt_append) (use i assms(3) tag in \<open>auto simp: literal_prefix_def\<close>)
  have name: "\<exists>nm. literal_name d (of_nat i) ?tail = Some (Inr (nm, appendHpackString [] (Value f) @ rest)) \<and>
      literal_decode d True nm uv = Some (Inr (Name f, Value f))"
  proof (cases "i = 0")
    case True
    obtain un where "\<And>rest. readString d (appendHpackString [] (Name f) @ rest) = Some (Inr (un, rest))"
      "decodeString d un = Some (Inr (Name f))"
      by (rule read_field_string [OF assms(1,2), of "Name f"]) blast+
    with True uv(2) show ?thesis by (simp add: literal_name_def literal_decode_def)
  next
    case False
    with at i uv(2) show ?thesis by (auto simp: literal_name_def literal_decode_def word_less_nat_alt)
  qed
  have it: "indexType_indexed ?it \<longleftrightarrow> indexing" "indexType_sensitive ?it \<longleftrightarrow> Sensitive f"
    using assms(4) by (auto simp: literal_type_def indexType_indexed_def indexType_sensitive_def)
  have hf: "\<lparr>Name = Name f, Value = Value f, Sensitive = Sensitive f\<rparr> = f" by simp
  have emit: "dec_emitEnabled d" using assms(1) by (simp add: emitting_def)
  have "indexing \<Longrightarrow> \<lparr>Name = Name f, Value = Value f, Sensitive = False\<rparr> = f" using assms(4) by (cases f) auto
  then have dt: "(if indexing then dynamicTable_add (dec_dynTab d) \<lparr>Name = Name f, Value = Value f, Sensitive = False\<rparr>
      else Some (dec_dynTab d)) = Some dt"
    using add by (auto split: if_splits)
  have "parseFieldLiteral d ?n ?it (or_first ?t (appendVarInt [] ?n (of_nat i)) @ ?tail) =
      Some (d\<lparr>dec_dynTab := dt, dec_emitted := dec_emitted d @ [f]\<rparr>, rest, None)"
    using name uv(1) by (auto simp: parseFieldLiteral_def rd it emit dt hf emit_field [OF assms(1,2)] Let_def)
  then show ?thesis unfolding literal_repr_def append_assoc using literal_dispatch [OF assms(4)] by simp
qed

lemma parse_indexed:
  assumes "emitting d" and "takes d f" and "i < 2 ^ 32" and "\<not> Sensitive f"
    and at: "Decoder_at d i = Some hf" "Name hf = Name f" "Value hf = Value f"
  shows "parseHeaderFieldRepr d (appendIndexed [] (of_nat i) @ rest) = Some (d\<lparr>dec_emitted := dec_emitted d @ [f]\<rparr>, rest, None)"
proof -
  have i: "unat (of_nat i :: u64) = i" using assms(3) by (simp add: unat_of_nat take_bit_nat_eq_self)
  have rd: "readVarInt 7 (or_first 0x80 (appendVarInt [] 7 (of_nat i)) @ rest) = Some (Inr (of_nat i, rest))"
    by (rule readVarInt_append) (use i assms(3) tag_0x80 in auto)
  have "\<lparr>Name = Name hf, Value = Value hf, Sensitive = False\<rparr> = f" using at(2,3) assms(4) by (cases f) auto
  then have "parseFieldIndexed d (or_first 0x80 (appendVarInt [] 7 (of_nat i)) @ rest) =
      Some (d\<lparr>dec_emitted := dec_emitted d @ [f]\<rparr>, rest, None)"
    using emit_field [OF assms(1,2), of "dec_dynTab d"] by (simp add: parseFieldIndexed_def rd i at(1) Let_def)
  then show ?thesis using indexed_dispatch by (simp add: appendIndexed_def)
qed

lemma repr_append:
  "appendIndexed buf j = buf @ appendIndexed [] j"
  "appendNewName buf f indexing = buf @ appendNewName [] f indexing"
  "appendIndexedName buf f j indexing = buf @ appendIndexedName [] f j indexing"
  by (simp_all add: appendIndexed_def appendNewName_def appendIndexedName_def Let_def
      appendHpackString_append [of "_ @ _"] appendHpackString_append [of "_ # _"] appendHpackString_append [of "or_first _ _"])

text \<open>The bytes of the due size updates come first.\<close>

lemma encode_field_split:
  "encode_field e f = map_option (\<lambda>(b, e'). (fst (WriteField_sizes e) @ b, e')) (encode_field (snd (WriteField_sizes e)) f)"
proof -
  obtain buf e1 where w: "WriteField_sizes e = (buf, e1)" by (cases "WriteField_sizes e")
  then have w1: "WriteField_sizes e1 = ([], e1)" by (auto simp: WriteField_sizes_def Let_def split: if_splits)
  show ?thesis
    by (simp add: encode_field_def w w1 Let_def repr_append [of buf] split: option.splits prod.splits)
qed

lemma top_word: "unat (w :: u32) \<le> unat uint32Max"
  unfolding uint32Max_def word_le_nat_alt [symmetric] by simp

lemma field_in_step:
  assumes "in_step e d" "\<not> enc_tableSizeUpdate e" and "emitting d" "takes d f"
    and "made (enc_dynTab e) + 1 < 2 ^ 64" "made (dec_dynTab d) + 1 < 2 ^ 64"
  obtains buf e' dt where "encode_field e f = Some (buf, e')" "buf \<noteq> []" "\<not> enc_tableSizeUpdate e'"
    "\<And>rest. parseHeaderFieldRepr d (buf @ rest) = Some (d\<lparr>dec_dynTab := dt, dec_emitted := dec_emitted d @ [f]\<rparr>, rest, None)"
    "in_step e' (d\<lparr>dec_dynTab := dt, dec_emitted := dec_emitted d @ [f]\<rparr>)"
    "made (enc_dynTab e') \<le> made (enc_dynTab e) + 1" "made dt \<le> made (dec_dynTab d) + 1"
proof -
  note s = assms(1) [unfolded in_step_def]
  have nosize: "WriteField_sizes e = ([], e)" using assms(2) by (simp add: WriteField_sizes_def)
  obtain i m where im: "searchTable e f = Some (i, m)" using searchTable_total s by blast
  note fnd = found_index [OF _ _ im, of d]
  let ?E = "enc_dynTab e" and ?D = "dec_dynTab d"
  show thesis
  proof (cases m)
    case True
    with fnd s obtain hf where "i < 2 ^ 32" "Decoder_at d i = Some hf" "Name hf = Name f" "Value hf = Value f"
      by (auto split: if_splits)
    moreover have "\<not> Sensitive f" using full_match [of e f i] im True by simp
    ultimately have parsed: "parseHeaderFieldRepr d (appendIndexed [] (of_nat i) @ rest) =
        Some (d\<lparr>dec_emitted := dec_emitted d @ [f]\<rparr>, rest, None)" for rest
      by (intro parse_indexed [OF assms(3,4)])
    have "encode_field e f = Some (appendIndexed [] (of_nat i), e)" by (simp add: encode_field_def nosize im True)
    moreover have "appendIndexed [] (of_nat i) \<noteq> []" by (simp add: appendIndexed_def appendVarInt_def Let_def)
    moreover have "in_step e (d\<lparr>dec_dynTab := ?D, dec_emitted := dec_emitted d @ [f]\<rparr>)" using assms(1) by (simp add: in_step_def)
    ultimately show thesis using that [of _ e ?D] parsed assms(2) by simp
  next
    case False
    let ?ix = "shouldIndex e f"
    have ns: "?ix \<longrightarrow> \<not> Sensitive f" by (simp add: shouldIndex_def)
    have at: "i < 2 ^ 32" "i \<noteq> 0 \<Longrightarrow> \<exists>hf. Decoder_at d i = Some hf \<and> Name hf = Name f" using fnd s by (auto split: if_splits)
    have "\<exists>dt dt'. (if ?ix then dynamicTable_add ?E f = Some dt \<and> dynamicTable_add ?D f = Some dt' else dt = ?E \<and> dt' = ?D) \<and>
        roomy dt \<and> roomy dt' \<and> suffix (ents (dt_table dt)) (ents (dt_table dt')) \<and>
        dt_maxSize dt = dt_maxSize ?E \<and> dt_maxSize dt' = dt_maxSize ?D \<and> dt_allowedMaxSize dt' = dt_allowedMaxSize ?D \<and>
        made dt \<le> made ?E + 1 \<and> made dt' \<le> made ?D + 1"
    proof (cases ?ix)
      case True
      have "unat (HeaderField_Size f) = field_bytes f" using assms(4) by (intro unat_field_size) (simp add: takes_def)
      with True have fb: "field_bytes f \<le> unat (dt_maxSize ?E)" by (simp add: shouldIndex_def word_le_nat_alt)
      have mx: "dt_maxSize ?D = dt_maxSize ?E" using s assms(2) by simp
      have sum: "table_bytes (ents (dt_table ?E)) + field_bytes f < 2 ^ 32" "table_bytes (ents (dt_table ?D)) + field_bytes f < 2 ^ 32"
        using roomyD(5) [of ?E] roomyD(5) [of ?D] s mx fb by auto
      obtain dt where dt: "dynamicTable_add ?E f = Some dt" "roomy dt" "dt_maxSize dt = dt_maxSize ?E"
        "ents (dt_table dt) = fit (unat (dt_maxSize ?E)) (ents (dt_table ?E) @ [f])" "made dt = made ?E + 1"
        by (rule add_fit [of ?E f]) (use s fb sum(1) assms(5) in auto)
      obtain dt' where dt': "dynamicTable_add ?D f = Some dt'" "roomy dt'" "dt_maxSize dt' = dt_maxSize ?D"
        "dt_allowedMaxSize dt' = dt_allowedMaxSize ?D"
        "ents (dt_table dt') = fit (unat (dt_maxSize ?E)) (ents (dt_table ?D) @ [f])" "made dt' = made ?D + 1"
        by (rule add_fit [of ?D f]) (use s mx sum(2) assms(6) in auto)
      have "suffix (ents (dt_table dt)) (ents (dt_table dt'))"
        unfolding dt(4) dt'(5) by (rule fit_suffix) (use s in simp)
      with True dt dt' show ?thesis by auto
    qed (use s in auto)
    then obtain dt dt' where t: "if ?ix then dynamicTable_add ?E f = Some dt \<and> dynamicTable_add ?D f = Some dt' else dt = ?E \<and> dt' = ?D"
      "roomy dt" "roomy dt'" "suffix (ents (dt_table dt)) (ents (dt_table dt'))"
      "dt_maxSize dt = dt_maxSize ?E" "dt_maxSize dt' = dt_maxSize ?D" "dt_allowedMaxSize dt' = dt_allowedMaxSize ?D"
      "made dt \<le> made ?E + 1" "made dt' \<le> made ?D + 1"
      by blast
    have "encode_field e f = Some (literal_repr i f ?ix, e\<lparr>enc_dynTab := dt\<rparr>)"
      using t(1) by (simp add: encode_field_def nosize im False append_literal [of _ "[]", simplified] split: if_splits)
    moreover have "literal_repr i f ?ix \<noteq> []" by (cases "i = 0") (auto simp: literal_repr_def appendVarInt_def Let_def)
    moreover have "parseHeaderFieldRepr d (literal_repr i f ?ix @ rest) =
        Some (d\<lparr>dec_dynTab := dt', dec_emitted := dec_emitted d @ [f]\<rparr>, rest, None)" for rest
      by (rule parse_literal [OF assms(3,4) at(1) ns at(2)]) (use t(1) in \<open>auto split: if_splits\<close>)
    moreover have "table_bytes (ents (dt_table dt)) \<le> unat (enc_minSize e)"
    proof -
      have "table_bytes (ents (dt_table dt)) \<le> unat (dt_maxSize dt)" by (rule roomyD(5) [OF t(2)])
      also have "\<dots> \<le> unat (enc_minSize e)" using s assms(2) top_word [of "dt_maxSize ?E"] by (simp add: t(5))
      finally show ?thesis .
    qed
    then have "in_step (e\<lparr>enc_dynTab := dt\<rparr>) (d\<lparr>dec_dynTab := dt', dec_emitted := dec_emitted d @ [f]\<rparr>)"
      using t(2-7) s assms(2) by (simp add: in_step_def)
    ultimately show thesis using that [of _ "e\<lparr>enc_dynTab := dt\<rparr>" dt'] assms(2) t(8,9) by simp
  qed
qed

section \<open>Size updates before a field\<close>

lemma Write_loop_Nil [simp]: "Write_loop n d [] = Some (n, None, d)"
  by (simp add: Write_loop.simps)

lemma Write_loop_step:
  "buf \<noteq> [] \<Longrightarrow> parseHeaderFieldRepr d buf = Some (d', rest, None) \<Longrightarrow> Write_loop n d buf = Write_loop n (d'\<lparr>dec_firstField := False\<rparr>) rest"
  by (subst Write_loop.simps) simp

text \<open>When two updates are due, the smaller size must leave the decoder no entry: see \<open>two_updates_refused\<close>.\<close>

definition resettable :: "Encoder \<Rightarrow> Decoder \<Rightarrow> bool" where
  "resettable e d \<longleftrightarrow> enc_tableSizeUpdate e \<longrightarrow> dec_firstField d \<and>
     (enc_minSize e < dt_maxSize (enc_dynTab e) \<longrightarrow> fit (unat (enc_minSize e)) (ents (dt_table (dec_dynTab d))) = [])"

lemma one_update:
  assumes "roomy (dec_dynTab d)" and "v \<le> dt_allowedMaxSize (dec_dynTab d)"
    and "dec_firstField d \<or> ents (dt_table (dec_dynTab d)) = []"
  obtains dt where "\<And>n rest. Write_loop n d (appendTableSize [] v @ rest) = Write_loop n (d\<lparr>dec_dynTab := dt, dec_firstField := False\<rparr>) rest"
    "roomy dt" "dt_maxSize dt = v" "dt_allowedMaxSize dt = dt_allowedMaxSize (dec_dynTab d)"
    "ents (dt_table dt) = fit (unat v) (ents (dt_table (dec_dynTab d)))" "made dt = made (dec_dynTab d)"
proof -
  have "unat (ucast v :: u64) < 2 ^ 63"
    unfolding unat_ucast_32_64 using unsigned_less [of v, where ?'a = nat] by simp
  then have rd: "readVarInt 5 (appendTableSize [] v @ rest) = Some (Inr (ucast v, rest))" for rest
    using readVarInt_append [of 5 "ucast v" "0x20" rest] tag_0x20 by (simp add: appendTableSize_def)
  have ge: "\<not> (ucast (dt_allowedMaxSize (dec_dynTab d)) :: u64) < ucast v"
    using assms(2) by (simp add: word_less_nat_alt word_le_nat_alt unat_ucast_32_64)
  have c: "ucast (ucast v :: u64) = v" by (rule bit_word_eqI) (auto simp: bit_unsigned_iff)
  have z: "dec_firstField d \<or> \<not> 0 < dt_size (dec_dynTab d)"
    using assms(3) roomyD(2) [OF assms(1)] by (auto simp: word_less_nat_alt)
  obtain dt where dt: "dynamicTable_setMaxSize (dec_dynTab d) v = Some dt" "roomy dt" "dt_maxSize dt = v"
    "dt_allowedMaxSize dt = dt_allowedMaxSize (dec_dynTab d)"
    "ents (dt_table dt) = fit (unat v) (ents (dt_table (dec_dynTab d)))" "made dt = made (dec_dynTab d)"
    by (rule setMaxSize_keeps [OF assms(1)])
  have "parseHeaderFieldRepr d (appendTableSize [] v @ rest) = Some (d\<lparr>dec_dynTab := dt\<rparr>, rest, None)" for rest
    unfolding size_dispatch using z ge by (auto simp: parse_size_repr_def parseDynamicTableSizeUpdate_def rd c dt(1))
  from Write_loop_step [OF _ this] appendTableSize_nonempty have
    "Write_loop n d (appendTableSize [] v @ rest) = Write_loop n (d\<lparr>dec_dynTab := dt, dec_firstField := False\<rparr>) rest" for n rest
    by simp
  then show thesis using that dt by blast
qed

lemma sizes_in_step:
  assumes "in_step e d" "resettable e d"
  obtains buf e' dt ff where "WriteField_sizes e = (buf, e')" "enc_dynTab e' = enc_dynTab e" "\<not> enc_tableSizeUpdate e'"
    "\<And>n rest. Write_loop n d (buf @ rest) = Write_loop n (d\<lparr>dec_dynTab := dt, dec_firstField := ff\<rparr>) rest"
    "in_step e' (d\<lparr>dec_dynTab := dt, dec_firstField := ff\<rparr>)" "made dt = made (dec_dynTab d)"
proof (cases "enc_tableSizeUpdate e")
  case False
  then have "WriteField_sizes e = ([], e)" by (simp add: WriteField_sizes_def)
  moreover have "in_step e (d\<lparr>dec_dynTab := dec_dynTab d, dec_firstField := dec_firstField d\<rparr>)" using assms(1) by simp
  ultimately show thesis using that [of "[]" e "dec_firstField d" "dec_dynTab d"] False by simp
next
  case True
  note s = assms(1) [unfolded in_step_def] and r = assms(2) [unfolded resettable_def]
  let ?E = "enc_dynTab e" and ?D = "dec_dynTab d" and ?mn = "enc_minSize e"
  let ?mx = "dt_maxSize ?E" and ?e' = "e\<lparr>enc_tableSizeUpdate := False, enc_minSize := uint32Max\<rparr>"
  have fits: "table_bytes (ents (dt_table ?E)) \<le> unat ?mx" using roomyD(5) s by blast
  have ready: "in_step ?e' (d\<lparr>dec_dynTab := dt, dec_firstField := False\<rparr>)"
    if "roomy dt" "dt_maxSize dt = ?mx" "dt_allowedMaxSize dt = dt_allowedMaxSize ?D" "suffix (ents (dt_table ?E)) (ents (dt_table dt))" for dt
    using that s order_trans [OF fits top_word] by (simp add: in_step_def)
  show thesis
  proof (cases "?mn < ?mx")
    case two: True
    then have allowed: "?mn \<le> dt_allowedMaxSize ?D" using s by auto
    obtain dt1 where d1: "\<And>n rest. Write_loop n d (appendTableSize [] ?mn @ rest) = Write_loop n (d\<lparr>dec_dynTab := dt1, dec_firstField := False\<rparr>) rest"
      "roomy dt1" "dt_allowedMaxSize dt1 = dt_allowedMaxSize ?D" "ents (dt_table dt1) = fit (unat ?mn) (ents (dt_table ?D))" "made dt1 = made ?D"
      by (rule one_update [of d ?mn]) (use s r True allowed in auto)
    let ?d1 = "d\<lparr>dec_dynTab := dt1, dec_firstField := False\<rparr>"
    obtain dt2 where d2: "\<And>n rest. Write_loop n ?d1 (appendTableSize [] ?mx @ rest) = Write_loop n (?d1\<lparr>dec_dynTab := dt2, dec_firstField := False\<rparr>) rest"
      "roomy dt2" "dt_maxSize dt2 = ?mx" "dt_allowedMaxSize dt2 = dt_allowedMaxSize dt1"
      "ents (dt_table dt2) = fit (unat ?mx) (ents (dt_table dt1))" "made dt2 = made dt1"
      by (rule one_update [of ?d1 ?mx]) (use d1 s r True two in auto)
    have "suffix (ents (dt_table ?E)) (ents (dt_table dt2))"
      unfolding d2(5) d1(4) using s fits by (intro suffix_fit) auto
    moreover have "WriteField_sizes e = (appendTableSize [] ?mn @ appendTableSize [] ?mx, ?e')"
      using True two by (simp add: WriteField_sizes_def appendTableSize_split)
    ultimately show thesis using that [of _ ?e' False dt2] d1 d2 ready [of dt2] by simp
  next
    case one: False
    obtain dt where d1: "\<And>n rest. Write_loop n d (appendTableSize [] ?mx @ rest) = Write_loop n (d\<lparr>dec_dynTab := dt, dec_firstField := False\<rparr>) rest"
      "roomy dt" "dt_maxSize dt = ?mx" "dt_allowedMaxSize dt = dt_allowedMaxSize ?D" "ents (dt_table dt) = fit (unat ?mx) (ents (dt_table ?D))" "made dt = made ?D"
      by (rule one_update [of d ?mx]) (use s r True in auto)
    have "suffix (ents (dt_table ?E)) (ents (dt_table dt))" unfolding d1(5) using s fits by (intro suffix_fit) auto
    moreover have "WriteField_sizes e = (appendTableSize [] ?mx, ?e')" using True one by (simp add: WriteField_sizes_def)
    ultimately show thesis using that [of _ ?e' False dt] d1 ready [of dt] by simp
  qed
qed

section \<open>Header blocks\<close>

text \<open>A header block: fields written one after the other to a buffer, which takes everything.\<close>

fun WriteFields :: "Encoder \<Rightarrow> HeaderField list \<Rightarrow> (bytes \<times> Encoder) option" where
  "WriteFields e [] = Some ([], e)"
| "WriteFields e (f # fs) =
     (case WriteField (\<lambda>b. (length b, None :: unit option)) e f of
        Some (b, e', None) \<Rightarrow> map_option (\<lambda>(bs, e''). (b @ bs, e'')) (WriteFields e' fs)
      | _ \<Rightarrow> None)"

lemma WriteFields_Cons:
  "WriteFields e (f # fs) = Option.bind (encode_field e f) (\<lambda>(b, e'). map_option (\<lambda>(bs, e''). (b @ bs, e'')) (WriteFields e' fs))"
  by (simp add: WriteField_def split: option.splits)

definition between_blocks :: "Encoder \<Rightarrow> Decoder \<Rightarrow> bool" where
  "between_blocks e d \<longleftrightarrow> in_step e d \<and> emitting d \<and> dec_firstField d \<and> dec_saveBuf d = []"

text \<open>What a \<^verbatim>\<open>Write\<close> leaves alone.\<close>

definition same_settings :: "Decoder \<Rightarrow> Decoder \<Rightarrow> bool" where
  "same_settings d d' \<longleftrightarrow> dec_maxStrLen d' = dec_maxStrLen d \<and> dec_emitEnabled d' = dec_emitEnabled d \<and> dec_saveBuf d' = dec_saveBuf d"

lemma same_settingsD: "same_settings d d' \<Longrightarrow> emitting d' = emitting d" "same_settings d d' \<Longrightarrow> takes d' f = takes d f"
  by (simp_all add: same_settings_def emitting_def takes_def)

lemma field_with_sizes:
  assumes "in_step e d" "resettable e d" and "emitting d" "takes d f"
    and "made (enc_dynTab e) + 1 < 2 ^ 64" "made (dec_dynTab d) + 1 < 2 ^ 64"
  obtains buf e' d' where "encode_field e f = Some (buf, e')" "\<not> enc_tableSizeUpdate e'"
    "\<And>n rest. Write_loop n d (buf @ rest) = Write_loop n d' rest" "in_step e' d'"
    "dec_emitted d' = dec_emitted d @ [f]" "same_settings d d'"
    "made (enc_dynTab e') \<le> made (enc_dynTab e) + 1" "made (dec_dynTab d') \<le> made (dec_dynTab d) + 1"
proof -
  obtain b1 e1 dt1 ff where s: "WriteField_sizes e = (b1, e1)" "enc_dynTab e1 = enc_dynTab e" "\<not> enc_tableSizeUpdate e1"
    "\<And>n rest. Write_loop n d (b1 @ rest) = Write_loop n (d\<lparr>dec_dynTab := dt1, dec_firstField := ff\<rparr>) rest"
    "in_step e1 (d\<lparr>dec_dynTab := dt1, dec_firstField := ff\<rparr>)" "made dt1 = made (dec_dynTab d)"
    by (rule sizes_in_step [OF assms(1,2)]) (rule that)
  let ?d1 = "d\<lparr>dec_dynTab := dt1, dec_firstField := ff\<rparr>"
  have "same_settings d ?d1" by (simp add: same_settings_def)
  note d1 = same_settingsD [OF this]
  obtain b2 e2 dt2 where f: "encode_field e1 f = Some (b2, e2)" "b2 \<noteq> []" "\<not> enc_tableSizeUpdate e2"
    "\<And>rest. parseHeaderFieldRepr ?d1 (b2 @ rest) = Some (?d1\<lparr>dec_dynTab := dt2, dec_emitted := dec_emitted ?d1 @ [f]\<rparr>, rest, None)"
    "in_step e2 (?d1\<lparr>dec_dynTab := dt2, dec_emitted := dec_emitted ?d1 @ [f]\<rparr>)"
    "made (enc_dynTab e2) \<le> made (enc_dynTab e1) + 1" "made dt2 \<le> made (dec_dynTab ?d1) + 1"
    by (rule field_in_step [OF s(5,3), of f]) (use d1 assms(3-6) s(2,6) in auto)
  let ?d2 = "?d1\<lparr>dec_dynTab := dt2, dec_emitted := dec_emitted ?d1 @ [f], dec_firstField := False\<rparr>"
  have "Write_loop n d ((b1 @ b2) @ rest) = Write_loop n ?d2 rest" for n rest
    using s(4) Write_loop_step [OF _ f(4)] f(2) by simp
  moreover have "encode_field e f = Some (b1 @ b2, e2)" using encode_field_split [of e f] s(1) f(1) by simp
  moreover have "in_step e2 ?d2" using f(5) by (simp add: in_step_def)
  ultimately show thesis using that [of "b1 @ b2" e2 ?d2] f(3,6,7) s(2,6) by (simp add: same_settings_def)
qed

lemma fields_in_step:
  assumes "in_step e d" "resettable e d" and "emitting d" "\<forall>f\<in>set fs. takes d f"
    and "made (enc_dynTab e) + length fs < 2 ^ 64" "made (dec_dynTab d) + length fs < 2 ^ 64"
  shows "\<exists>b e' d'. WriteFields e fs = Some (b, e') \<and> (\<forall>n rest. Write_loop n d (b @ rest) = Write_loop n d' rest) \<and>
    in_step e' d' \<and> dec_emitted d' = dec_emitted d @ fs \<and> same_settings d d'"
  using assms
proof (induction fs arbitrary: e d)
  case Nil
  then show ?case by (intro exI [of _ "[]"] exI [of _ e] exI [of _ d]) (simp add: same_settings_def)
next
  case (Cons f fs)
  obtain b1 e1 d1 where f: "encode_field e f = Some (b1, e1)" "\<not> enc_tableSizeUpdate e1"
    "\<And>n rest. Write_loop n d (b1 @ rest) = Write_loop n d1 rest" "in_step e1 d1"
    "dec_emitted d1 = dec_emitted d @ [f]" "same_settings d d1"
    "made (enc_dynTab e1) \<le> made (enc_dynTab e) + 1" "made (dec_dynTab d1) \<le> made (dec_dynTab d) + 1"
    by (rule field_with_sizes [OF Cons.prems(1-3), of f]) (use Cons.prems in auto)
  have "resettable e1 d1" using f(2) by (simp add: resettable_def)
  with Cons.IH [OF f(4)] Cons.prems same_settingsD [OF f(6)] f(7,8) obtain b e' d' where
    fs: "WriteFields e1 fs = Some (b, e')" "\<And>n rest. Write_loop n d1 (b @ rest) = Write_loop n d' rest"
    "in_step e' d'" "dec_emitted d' = dec_emitted d1 @ fs" "same_settings d1 d'"
    by auto
  have "WriteFields e (f # fs) = Some (b1 @ b, e')" by (simp add: WriteFields_Cons f(1) fs(1) del: WriteFields.simps)
  moreover have "same_settings d d'" using f(6) fs(5) by (simp add: same_settings_def)
  ultimately show ?case using f(3,5) fs(2-4) by (intro exI [of _ "b1 @ b"] exI [of _ e'] exI [of _ d']) simp
qed


lemma roomy_new: "roomy new_dynamicTable"
  by (simp add: roomy_def dynamic_ok_def new_dynamicTable_def table_ok_empty) (simp add: empty_table_def)

lemma new_between_blocks:
  obtains e d where "NewEncoder = Some e" "NewDecoder 4096 = Some d" "between_blocks e d" "resettable e d"
    "made (enc_dynTab e) = 0" "made (dec_dynTab d) = 0" "dec_emitted d = []" "dec_maxStrLen d = 0"
proof -
  have m: "made new_dynamicTable = 0" "ents (dt_table new_dynamicTable) = []" by (simp_all add: made_def new_dynamicTable_def empty_table_def)
  have r': "roomy (new_dynamicTable\<lparr>dt_allowedMaxSize := 4096\<rparr>)" using roomy_new by (simp add: roomy_def dynamic_ok_def)
  obtain t where t: "dynamicTable_setMaxSize new_dynamicTable 4096 = Some t" "roomy t" "dt_maxSize t = 4096"
    "ents (dt_table t) = []" "made t = 0"
    using setMaxSize_keeps [OF roomy_new, of 4096] m by (metis fit.simps(1))
  obtain t' where t': "dynamicTable_setMaxSize (new_dynamicTable\<lparr>dt_allowedMaxSize := 4096\<rparr>) 4096 = Some t'" "roomy t'"
    "dt_maxSize t' = 4096" "dt_allowedMaxSize t' = 4096" "ents (dt_table t') = []" "made t' = 0"
    by (rule setMaxSize_keeps [OF r', of 4096]) (use m in \<open>simp add: made_def\<close>)
  let ?e = "\<lparr>enc_dynTab = t, enc_minSize = uint32Max, enc_maxSizeLimit = initialHeaderTableSize, enc_tableSizeUpdate = False\<rparr>"
  let ?d = "\<lparr>dec_dynTab = t', dec_emitted = [], dec_emitEnabled = True, dec_maxStrLen = 0, dec_saveBuf = [], dec_firstField = True\<rparr>"
  have "NewEncoder = Some ?e" "NewDecoder 4096 = Some ?d"
    using t(1) t'(1) by (simp_all add: NewEncoder_def NewDecoder_def initialHeaderTableSize_def)
  moreover have "between_blocks ?e ?d" "resettable ?e ?d"
    using t t' by (simp_all add: between_blocks_def in_step_def emitting_def resettable_def)
  ultimately show thesis using that t(5) t'(6) by simp
qed


text \<open>Changes of the table size keep encoder and decoder in step.\<close>

lemma resize_in_step:
  assumes "in_step e d" and "unat (min v (enc_maxSizeLimit e)) < 2 ^ 31" and "min v (enc_maxSizeLimit e) \<le> dt_allowedMaxSize (dec_dynTab d)"
  shows "\<exists>e'. Encoder_SetMaxDynamicTableSize e v = Some e' \<and> in_step e' d \<and> enc_maxSizeLimit e' = enc_maxSizeLimit e"
proof -
  define w where "w = min v (enc_maxSizeLimit e)"
  note s = assms(1) [unfolded in_step_def]
  obtain dt where d: "dynamicTable_setMaxSize (enc_dynTab e) w = Some dt" "roomy dt" "dt_maxSize dt = w"
    "ents (dt_table dt) = fit (unat w) (ents (dt_table (enc_dynTab e)))"
    by (rule setMaxSize_keeps [of "enc_dynTab e" w]) (use s in auto)
  let ?e = "(if w < enc_minSize e then e\<lparr>enc_minSize := w\<rparr> else e)\<lparr>enc_tableSizeUpdate := True, enc_dynTab := dt\<rparr>"
  have "(if v > enc_maxSizeLimit e then enc_maxSizeLimit e else v) = w" by (auto simp: w_def min_def not_less)
  then have "Encoder_SetMaxDynamicTableSize e v = Some ?e" using d(1) by (simp add: Encoder_SetMaxDynamicTableSize_def Let_def)
  moreover have sf: "suffix (ents (dt_table dt)) (ents (dt_table (enc_dynTab e)))" unfolding d(4) by (rule suffix_of_fit)
  then have "table_bytes (ents (dt_table dt)) \<le> unat (enc_minSize e)" using s suffix_bytes order_trans by blast
  moreover have "table_bytes (ents (dt_table dt)) \<le> unat w" unfolding d(4) by (rule fit_bytes)
  moreover have "suffix (ents (dt_table dt)) (ents (dt_table (dec_dynTab d)))" using sf s suffix_order.trans by blast
  then have "in_step ?e d" using calculation(2,3) d(2,3) assms(2,3) s by (auto simp: in_step_def w_def [symmetric])
  ultimately show ?thesis by simp
qed

lemma limit_in_step:
  assumes "in_step e d" shows "\<exists>e'. SetMaxDynamicTableSizeLimit e v = Some e' \<and> in_step e' d \<and> enc_maxSizeLimit e' = v"
proof (cases "dt_maxSize (enc_dynTab e) > v")
  case True
  note s = assms(1) [unfolded in_step_def]
  obtain dt where d: "dynamicTable_setMaxSize (enc_dynTab e) v = Some dt" "roomy dt" "dt_maxSize dt = v"
    "ents (dt_table dt) = fit (unat v) (ents (dt_table (enc_dynTab e)))"
    by (rule setMaxSize_keeps [of "enc_dynTab e" v]) (use s in auto)
  have sf: "suffix (ents (dt_table dt)) (ents (dt_table (enc_dynTab e)))" unfolding d(4) by (rule suffix_of_fit)
  then have "table_bytes (ents (dt_table dt)) \<le> unat (enc_minSize e)" using s suffix_bytes order_trans by blast
  moreover have "suffix (ents (dt_table dt)) (ents (dt_table (dec_dynTab d)))" using sf s suffix_order.trans by blast
  moreover have "unat v < 2 ^ 31" "v \<le> dt_allowedMaxSize (dec_dynTab d)" using True s by (auto simp: word_less_nat_alt word_le_nat_alt)
  ultimately show ?thesis using d s True by (simp add: SetMaxDynamicTableSizeLimit_def in_step_def)
next
  case False
  with assms show ?thesis by (simp add: SetMaxDynamicTableSizeLimit_def in_step_def)
qed

section \<open>Two size updates in one block\<close>

lemma fit_last: "fs \<noteq> [] \<Longrightarrow> field_bytes (last fs) \<le> m \<Longrightarrow> fit m fs \<noteq> []"
  by (induction fs) (auto split: if_splits)

lemma table_bytes_pos: "fs \<noteq> [] \<Longrightarrow> 0 < table_bytes fs"
  by (cases fs) (simp_all add: field_bytes_def)

text \<open>C40: The decoder refuses what the encoder of the same package writes after its table size was lowered and raised
  again: the two updates that are due go in front of the next field, but \<open>Write\<close> ends the first-field state with the
  first of them, and if the newest entry survived it, the second update - and with it the block - is a decoding error.\<close>

theorem two_updates_refused:
  assumes "between_blocks e d" and "enc_tableSizeUpdate e" "enc_minSize e < dt_maxSize (enc_dynTab e)"
    and "ents (dt_table (dec_dynTab d)) \<noteq> []" "field_bytes (last (ents (dt_table (dec_dynTab d)))) \<le> unat (enc_minSize e)"
    and "WriteField write e f = Some (b, e', err)"
  shows "\<exists>d'. Decoder_Write d b =
    Some (length b, Some (DecodingError ''dynamic table size update MUST occur at the beginning of a header block''), d')"
proof -
  let ?D = "dec_dynTab d" and ?mn = "enc_minSize e" and ?mx = "dt_maxSize (enc_dynTab e)"
  have d: "in_step e d" "dec_firstField d" "dec_saveBuf d = []" using assms(1) by (simp_all add: between_blocks_def)
  have allowed: "?mn \<le> dt_allowedMaxSize ?D" "roomy ?D" using d(1) assms(3) by (auto simp: in_step_def)
  obtain dt where dt: "\<And>n rest. Write_loop n d (appendTableSize [] ?mn @ rest) = Write_loop n (d\<lparr>dec_dynTab := dt, dec_firstField := False\<rparr>) rest"
    "roomy dt" "ents (dt_table dt) = fit (unat ?mn) (ents (dt_table ?D))"
    by (rule one_update [of d ?mn]) (use allowed d(2) in auto)
  have "dt_size dt > 0"
    using roomyD(2) [OF dt(2)] table_bytes_pos [OF fit_last [OF assms(4,5)]] dt(3) by (simp add: word_less_nat_alt)
  then have refused: "Write_loop n (d\<lparr>dec_dynTab := dt, dec_firstField := False\<rparr>) (appendTableSize [] ?mx @ rest) =
      Some (n, Some (DecodingError ''dynamic table size update MUST occur at the beginning of a header block''),
        d\<lparr>dec_dynTab := dt, dec_firstField := False\<rparr>)" for n rest
    by (subst Write_loop.simps)
      (simp add: size_dispatch parse_size_repr_def parseDynamicTableSizeUpdate_def appendTableSize_nonempty)
  have "encode_field e f = Some (b, e')" using assms(6) by (auto simp: WriteField_def)
  then obtain b2 where b: "b = appendTableSize [] ?mn @ appendTableSize [] ?mx @ b2"
    using assms(2,3) by (subst (asm) encode_field_split) (auto simp: WriteField_sizes_def appendTableSize_split)
  have save: "d\<lparr>dec_saveBuf := []\<rparr> = d" using d(3) by simp
  have "b \<noteq> []" using b appendTableSize_nonempty by simp
  then show ?thesis using d(3) dt(1) refused by (simp add: Decoder_Write_def save b)
qed

lemma demo_between_blocks: "between_blocks demo_encoder demo_decoder"
proof -
  have "table_bytes (ents demo_table) \<le> 70" by (simp add: demo_table_def addEntry_def empty_table_def field_bytes_def field_def Let_def)
  then have "table_bytes (ents demo_table) \<le> unat uint32Max" using top_word [of 70] by simp
  then show ?thesis
    using roomy_demo by (simp add: between_blocks_def in_step_def emitting_def demo_encoder_def demo_decoder_def)
      (simp add: demo_dynamic_def)
qed

theorem two_updates_refused_witness:
  "\<exists>e1 e2 b e3 d'. Encoder_SetMaxDynamicTableSize demo_encoder 40 = Some e1 \<and> Encoder_SetMaxDynamicTableSize e1 100 = Some e2 \<and>
     WriteField (\<lambda>b. (length b, None :: unit option)) e2 (field ''b'' ''3'') = Some (b, e3, None) \<and>
     Decoder_Write demo_decoder b =
       Some (length b, Some (DecodingError ''dynamic table size update MUST occur at the beginning of a header block''), d')"
proof -
  let ?w = "\<lambda>b. (length b, None :: unit option)" and ?f = "field ''b'' ''3''"
  have step: "in_step demo_encoder demo_decoder" using demo_between_blocks by (simp add: between_blocks_def)
  obtain e1 where e1: "Encoder_SetMaxDynamicTableSize demo_encoder 40 = Some e1" "in_step e1 demo_decoder"
    "enc_maxSizeLimit e1 = enc_maxSizeLimit demo_encoder"
    using resize_in_step [OF step, of 40] by (auto simp: demo_encoder_def demo_decoder_def demo_dynamic_def min_def)
  obtain e2 where e2: "Encoder_SetMaxDynamicTableSize e1 100 = Some e2" "in_step e2 demo_decoder"
    using resize_in_step [OF e1(2), of 100] e1(3) by (auto simp: demo_encoder_def demo_decoder_def demo_dynamic_def min_def)
  have "map_option (\<lambda>e. (enc_tableSizeUpdate e, enc_minSize e, dt_maxSize (enc_dynTab e), map_option (\<lambda>(b, e, r). r) (WriteField ?w e ?f)))
      (Option.bind (Encoder_SetMaxDynamicTableSize demo_encoder 40) (\<lambda>e. Encoder_SetMaxDynamicTableSize e 100)) =
      Some (True, 40, 100, Some None)"
    by code_simp
  with e1(1) e2(1) obtain b e3 where w: "enc_tableSizeUpdate e2" "enc_minSize e2 = 40" "dt_maxSize (enc_dynTab e2) = 100"
    "WriteField ?w e2 ?f = Some (b, e3, None)"
    by auto
  have b: "between_blocks e2 demo_decoder" using e2(2) demo_between_blocks by (simp add: between_blocks_def)
  have t: "ents (dt_table (dec_dynTab demo_decoder)) = [field ''a'' ''1'', field ''a'' ''2'']"
    by (simp add: demo_decoder_def demo_dynamic_def demo_table_def addEntry_def empty_table_def Let_def)
  have "\<exists>d'. Decoder_Write demo_decoder b =
       Some (length b, Some (DecodingError ''dynamic table size update MUST occur at the beginning of a header block''), d')"
    by (rule two_updates_refused [OF b w(1) _ _ _ w(4)]) (simp_all add: w t field_bytes_def field_def)
  with e1(1) e2(1) w(4) show ?thesis by blast
qed

end
