(* ===== verification/Hpack_Stream.thy ===== *)
theory Hpack_Stream
  imports Hpack_Block
begin

unbundle bit_operations_syntax

text \<open>
  third\_party/net/http2/hpack/hpack.go, the decoder on any input: a parser waits for input without a change or has a
  result that more input does not alter, so a block may be cut anywhere; and no input makes the decoder panic or loop.
\<close>

section \<open>More input\<close>

text \<open>A result that is not waiting for input is the same with more input behind it.\<close>

definition more :: "bytes \<Rightarrow> hpack_err + 'a \<times> bytes \<Rightarrow> hpack_err + 'a \<times> bytes" where
  "more q r = map_sum id (\<lambda>(x, rest). (x, rest @ q)) r"

lemma more_simps [simp]: "more q (Inl e) = Inl e" "more q (Inr (x, rest)) = Inr (x, rest @ q)"
  by (simp_all add: more_def)

lemma readVarInt_loop_more:
  "readVarInt_loop i m p = r \<Longrightarrow> r \<noteq> Inl errNeedMore \<Longrightarrow> readVarInt_loop i m (p @ q) = more q r"
  by (induction i m p rule: readVarInt_loop.induct) (auto simp: Let_def)

lemma readVarInt_loop_shorter: "readVarInt_loop i m p = Inr (x, rest) \<Longrightarrow> length rest < length p"
  by (induction i m p rule: readVarInt_loop.induct) (auto simp: Let_def less_SucI split: if_splits)

lemma readVarInt_more: "readVarInt n p = Some r \<Longrightarrow> r \<noteq> Inl errNeedMore \<Longrightarrow> readVarInt n (p @ q) = Some (more q r)"
  by (auto simp: readVarInt_def Let_def readVarInt_loop_more split: list.splits if_splits)

lemma readVarInt_None: "readVarInt n p = None \<longleftrightarrow> n < 1 \<or> n > 8"
  by (auto simp: readVarInt_def)

lemma readVarInt_shorter: "readVarInt n p = Some (Inr (x, rest)) \<Longrightarrow> length rest < length p"
  by (auto simp: readVarInt_def Let_def less_SucI dest: readVarInt_loop_shorter split: list.splits if_splits)

lemma readString_more:
  assumes "readString d p = Some r" and "r \<noteq> Inl errNeedMore"
  shows "readString d (p @ q) = Some (more q r)"
proof -
  have p: "p \<noteq> []" using assms by (auto simp: readString_def)
  then have hd: "(p @ q) ! 0 = p ! 0" by (cases p) simp_all
  obtain v where v: "readVarInt 7 p = Some v" using readVarInt_None [of 7 p] by auto
  show ?thesis
  proof (cases v)
    case (Inl e)
    then have "r = Inl e" using assms(1) p v by (simp add: readString_def Let_def)
    with assms(2) readVarInt_more [OF v, of q] p hd Inl show ?thesis by (simp add: readString_def Let_def)
  next
    case (Inr x)
    then obtain n rest where x: "v = Inr (n, rest)" by (cases x) auto
    with readVarInt_more [OF v, of q] have "readVarInt 7 (p @ q) = Some (Inr (n, rest @ q))" by simp
    with assms p v x hd show ?thesis by (auto simp: readString_def Let_def split: if_splits)
  qed
qed

lemma readString_total: "readString d p \<noteq> None"
  by (auto simp: readString_def Let_def readVarInt_None split: option.splits sum.splits)

lemma readString_shorter: "readString d p = Some (Inr (u, rest)) \<Longrightarrow> length rest \<le> length p"
  by (auto simp: readString_def Let_def dest!: readVarInt_shorter split: option.splits sum.splits if_splits)

lemma map_sum_id_iff:
  "map_sum id g z = Inr y \<longleftrightarrow> (\<exists>w. z = Inr w \<and> y = g w)" "map_sum id g z = Inl e \<longleftrightarrow> z = Inl e"
  by (cases z; auto)+

lemma literal_name_more:
  assumes "literal_name d i p = Some r" and "r \<noteq> Inl errNeedMore"
  shows "literal_name d i (p @ q) = Some (more q r)"
proof (cases "i > 0")
  case True
  with assms show ?thesis by (auto simp: literal_name_def split: option.splits)
next
  case False
  with assms(1) obtain z where z: "readString d p = Some z" "r = map_sum id (\<lambda>(u, rest). (Inr u, rest)) z"
    by (auto simp: literal_name_def)
  with assms(2) have "readString d (p @ q) = Some (more q z)" by (intro readString_more) (auto simp: map_sum_id_iff)
  with False z(2) show ?thesis by (cases z) (auto simp: literal_name_def)
qed

lemma literal_name_total: "literal_name d i p \<noteq> None"
  using readString_total by (auto simp: literal_name_def split: option.splits)

lemma literal_name_shorter: "literal_name d i p = Some (Inr (u, rest)) \<Longrightarrow> length rest \<le> length p"
  by (auto simp: literal_name_def map_sum_id_iff dest: readString_shorter split: option.splits if_splits prod.splits)

type_synonym parsed = "(Decoder \<times> bytes \<times> hpack_err option) option"

text \<open>A parser is steady: it waits for input leaving everything as it was, or it has its result, which more input does
  not change; what it accepts it takes from the buffer.\<close>

definition steady :: "(bytes \<Rightarrow> parsed) \<Rightarrow> Decoder \<Rightarrow> bytes \<Rightarrow> bool" where
  "steady parse d buf \<longleftrightarrow> 
     (case parse buf of
        None \<Rightarrow> \<forall>q. parse (buf @ q) = None
      | Some (d', rest, err) \<Rightarrow>
          (if err = Some errNeedMore then d' = d \<and> rest = buf
           else (\<forall>q. parse (buf @ q) = Some (d', rest @ q, err)) \<and> (err = None \<longrightarrow> length rest < length buf) \<and>
             dec_saveBuf d' = dec_saveBuf d \<and> dec_maxStrLen d' = dec_maxStrLen d))"

lemma steadyI:
  assumes "parse buf = Some (d', rest, err)"
    and "err = Some errNeedMore \<Longrightarrow> d' = d \<and> rest = buf"
    and "\<And>q. err \<noteq> Some errNeedMore \<Longrightarrow> parse (buf @ q) = Some (d', rest @ q, err)"
    and "err = None \<Longrightarrow> length rest < length buf"
    and "dec_saveBuf d' = dec_saveBuf d" "dec_maxStrLen d' = dec_maxStrLen d"
  shows "steady parse d buf"
  using assms by (simp add: steady_def)

lemma callEmit_keeps:
  assumes "callEmit d hf = (d', err)"
  shows "dec_saveBuf d' = dec_saveBuf d" "dec_maxStrLen d' = dec_maxStrLen d" "err \<noteq> Some errNeedMore"
  using assms by (auto simp: callEmit_def split: if_splits)

lemma steady_error: "parse buf = Some (d, buf, Some e) \<Longrightarrow> (e \<noteq> errNeedMore \<Longrightarrow> \<forall>q. parse (buf @ q) = Some (d, buf @ q, Some e)) \<Longrightarrow>
   steady parse d buf"
  by (auto intro!: steadyI)

lemma steady_indexed: "steady (parseFieldIndexed d) d buf"
proof -
  obtain v where v: "readVarInt 7 buf = Some v" using readVarInt_None [of 7 buf] by auto
  show ?thesis
  proof (cases v)
    case (Inl e)
    with v readVarInt_more [OF v] show ?thesis by (intro steady_error) (auto simp: parseFieldIndexed_def)
  next
    case (Inr x)
    then obtain idx rest where x: "v = Inr (idx, rest)" by (cases x) auto
    then have m: "readVarInt 7 (buf @ q) = Some (Inr (idx, rest @ q))" for q using readVarInt_more [OF v, of q] by simp
    show ?thesis
    proof (cases "Decoder_at d (unat idx)")
      case None
      with v x m show ?thesis by (intro steady_error) (auto simp: parseFieldIndexed_def)
    next
      case (Some hf)
      obtain d' err where c: "callEmit d \<lparr>Name = Name hf, Value = Value hf, Sensitive = False\<rparr> = (d', err)"
        by (cases "callEmit d \<lparr>Name = Name hf, Value = Value hf, Sensitive = False\<rparr>")
      have "length rest < length buf" using readVarInt_shorter v x by blast
      with v x m Some c callEmit_keeps [OF c] show ?thesis
        by (intro steadyI [of _ _ d' rest err]) (auto simp: parseFieldIndexed_def)
    qed
  qed
qed

lemma steady_size: "steady (parse_size_repr d) d buf"
proof (cases "\<not> dec_firstField d \<and> dt_size (dec_dynTab d) > 0")
  case True
  then show ?thesis by (intro steady_error) (auto simp: parse_size_repr_def parseDynamicTableSizeUpdate_def)
next
  case False
  obtain v where v: "readVarInt 5 buf = Some v" using readVarInt_None [of 5 buf] by auto
  show ?thesis
  proof (cases v)
    case (Inl e)
    with v readVarInt_more [OF v] False show ?thesis
      by (intro steady_error) (auto simp: parse_size_repr_def parseDynamicTableSizeUpdate_def)
  next
    case (Inr x)
    then obtain sz rest where x: "v = Inr (sz, rest)" by (cases x) auto
    then have m: "readVarInt 5 (buf @ q) = Some (Inr (sz, rest @ q))" for q using readVarInt_more [OF v, of q] by simp
    have l: "length rest < length buf" using readVarInt_shorter v x by blast
    show ?thesis
    proof (cases "sz > ucast (dt_allowedMaxSize (dec_dynTab d))")
      case True
      with v x m False show ?thesis by (intro steady_error) (auto simp: parse_size_repr_def parseDynamicTableSizeUpdate_def)
    next
      case ok: False
      show ?thesis
      proof (cases "dynamicTable_setMaxSize (dec_dynTab d) (ucast sz)")
        case None
        with v x m False ok show ?thesis by (auto simp: steady_def parse_size_repr_def parseDynamicTableSizeUpdate_def)
      next
        case (Some dt)
        with v x m False ok l show ?thesis
          by (intro steadyI [of _ _ "d\<lparr>dec_dynTab := dt\<rparr>" rest None]) (auto simp: parse_size_repr_def parseDynamicTableSizeUpdate_def)
      qed
    qed
  qed
qed

lemma steady_literal:
  assumes "1 \<le> n" "n \<le> 8"
  shows "steady (parseFieldLiteral d n it) d buf"
proof -
  obtain v where v: "readVarInt n buf = Some v" using readVarInt_None [of n buf] assms by auto
  show ?thesis
  proof (cases v)
    case (Inl e)
    with v readVarInt_more [OF v] show ?thesis by (intro steady_error) (auto simp: parseFieldLiteral_def)
  next
    case (Inr x)
    then obtain i buf1 where x: "v = Inr (i, buf1)" by (cases x) auto
    note m1 = readVarInt_more [OF v [unfolded x], simplified]
    obtain nm where nm: "literal_name d i buf1 = Some nm" using literal_name_total by blast
    show ?thesis
    proof (cases nm)
      case e: (Inl e)
      with v x m1 nm literal_name_more [OF nm] show ?thesis by (intro steady_error) (auto simp: parseFieldLiteral_def)
    next
      case y: (Inr y)
      then obtain name buf2 where y: "nm = Inr (name, buf2)" by (cases y) auto
      note m2 = literal_name_more [OF nm [unfolded y], simplified]
      obtain sv where sv: "readString d buf2 = Some sv" using readString_total by blast
      show ?thesis
      proof (cases sv)
        case e: (Inl e)
        with v x m1 nm y m2 sv readString_more [OF sv] show ?thesis by (intro steady_error) (auto simp: parseFieldLiteral_def)
      next
        case z: (Inr z)
        then obtain val rest where z: "sv = Inr (val, rest)" by (cases z) auto
        note m3 = readString_more [OF sv [unfolded z], simplified]
        note unfold = parseFieldLiteral_def v x m1 nm y m2 sv z m3
        have l: "length rest < length buf"
          using readVarInt_shorter [OF v [unfolded x]] literal_name_shorter [OF nm [unfolded y]] readString_shorter [OF sv [unfolded z]]
          by simp
        let ?dec = "literal_decode d (dec_emitEnabled d \<or> indexType_indexed it) name val"
        show ?thesis
        proof (cases ?dec)
          case None
          then show ?thesis by (auto simp: steady_def unfold)
        next
          case dec: (Some w)
          show ?thesis
          proof (cases w)
            case (Inl e)
            with dec show ?thesis by (intro steady_error) (auto simp: unfold)
          next
            case w: (Inr s)
            obtain n v where s: "s = (n, v)" by (cases s)
            let ?hf = "\<lparr>Name = n, Value = v, Sensitive = False\<rparr>"
            show ?thesis
            proof (cases "if indexType_indexed it then dynamicTable_add (dec_dynTab d) ?hf else Some (dec_dynTab d)")
              case None
              with dec w s show ?thesis by (auto simp: steady_def unfold Let_def split: if_splits)
            next
              case (Some dt)
              obtain d' err where c: "callEmit (d\<lparr>dec_dynTab := dt\<rparr>) (?hf\<lparr>Sensitive := indexType_sensitive it\<rparr>) = (d', err)"
                by (cases "callEmit (d\<lparr>dec_dynTab := dt\<rparr>) (?hf\<lparr>Sensitive := indexType_sensitive it\<rparr>)")
              show ?thesis
                by (rule steadyI [of _ _ d' rest err]) (use dec w s Some c callEmit_keeps [OF c] l in \<open>simp_all add: unfold Let_def\<close>)
            qed
          qed
        qed
      qed
    qed
  qed
qed

lemma steady_cong:
  assumes "steady parse d buf" and e: "\<And>q. parse' (buf @ q) = parse (buf @ q)"
  shows "steady parse' d buf"
  using assms(1) e [of "[]"] by (auto simp: steady_def e split: option.splits if_splits)

lemma steady_repr:
  assumes "buf \<noteq> []"
  shows "steady (parseHeaderFieldRepr d) d buf"
proof -
  obtain b bs where b: "buf = b # bs" using assms by (cases buf) auto
  note disp = parseHeaderFieldRepr_def b
  consider "b AND 128 \<noteq> 0" | "b AND 128 = 0" "b AND 192 = 64" | "b AND 128 = 0" "b AND 192 \<noteq> 64" "b AND 240 = 0"
    | "b AND 128 = 0" "b AND 192 \<noteq> 64" "b AND 240 = 16"
    | "b AND 128 = 0" "b AND 192 \<noteq> 64" "b AND 240 \<noteq> 0" "b AND 240 \<noteq> 16" by blast
  then show ?thesis
  proof cases
    case 1
    then show ?thesis by (intro steady_cong [OF steady_indexed]) (simp add: disp)
  next
    case 2
    then show ?thesis by (intro steady_cong [OF steady_literal [of 6 d indexedTrue]]) (simp_all add: disp)
  next
    case 3
    then show ?thesis by (intro steady_cong [OF steady_literal [of 4 d indexedFalse]]) (simp_all add: disp)
  next
    case 4
    then show ?thesis by (intro steady_cong [OF steady_literal [of 4 d indexedNever]]) (simp_all add: disp)
  next
    case 5
    show ?thesis
    proof (cases "b AND 224 = 32")
      case True
      with 5 show ?thesis by (intro steady_cong [OF steady_size]) (simp add: disp)
    next
      case False
      with 5 show ?thesis by (intro steady_error) (simp_all add: disp)
    qed
  qed
qed

section \<open>Input in pieces\<close>

text \<open>Reading on from what a \<^verbatim>\<open>Write\<close> has left unparsed.\<close>

lemma Write_loop_more:
  assumes "dec_saveBuf d = []" and "dec_maxStrLen d = 0"
  shows "case Write_loop n d buf of
      None \<Rightarrow> \<forall>m q. Write_loop m d (buf @ q) = None
    | Some (k, Some e, d') \<Rightarrow> k = n \<and> (\<forall>m q. Write_loop m d (buf @ q) = Some (m, Some e, d'))
    | Some (k, None, d') \<Rightarrow> k = n \<and> dec_maxStrLen d' = 0 \<and> (\<forall>m. Write_loop m d buf = Some (m, None, d')) \<and>
        (\<forall>m q. Write_loop m d (buf @ q) = Write_loop m (d'\<lparr>dec_saveBuf := []\<rparr>) (dec_saveBuf d' @ q))"
  using assms
proof (induction buf arbitrary: d rule: length_induct)
  case (1 buf)
  show ?case
  proof (cases "buf = []")
    case True
    have save: "d\<lparr>dec_saveBuf := []\<rparr> = d" using "1.prems"(1) by simp
    show ?thesis using True "1.prems" by (simp add: save)
  next
    case ne: False
    note st = steady_repr [OF ne, of d, unfolded steady_def]
    have unf: "Write_loop m d (buf @ q) = (case parseHeaderFieldRepr d (buf @ q) of None \<Rightarrow> None
      | Some (d', buf', err) \<Rightarrow>
         if err = Some errNeedMore then
           if dec_maxStrLen d' \<noteq> 0 \<and> int (length buf') > sint (2 * (word_of_int (dec_maxStrLen d') + varIntOverhead))
           then Some (0, Some ErrStringLength, d') else Some (m, None, d'\<lparr>dec_saveBuf := dec_saveBuf d' @ buf'\<rparr>)
         else if err \<noteq> None then Some (m, err, d'\<lparr>dec_firstField := False\<rparr>)
         else Write_loop m (d'\<lparr>dec_firstField := False\<rparr>) buf')" for m q
      using ne by (subst Write_loop.simps) simp
    note u0 = unf [of _ "[]", unfolded append_Nil2]
    show ?thesis
    proof (cases "parseHeaderFieldRepr d buf")
      case None
      with st show ?thesis by (simp add: u0 unf)
    next
      case (Some r)
      obtain d1 rest err where r: "r = (d1, rest, err)" by (metis prod.exhaust)
      consider "err = Some errNeedMore" | e where "err = Some e" "e \<noteq> errNeedMore" | "err = None" by (cases err) auto
      then show ?thesis
      proof cases
        case 1
        with st Some r have "d1 = d" "rest = buf" by simp_all
        with 1 Some r "1.prems" have "Write_loop m d buf = Some (m, None, d\<lparr>dec_saveBuf := buf\<rparr>)" for m by (simp add: u0)
        moreover have save: "d\<lparr>dec_saveBuf := []\<rparr> = d" using "1.prems"(1) by simp
        ultimately show ?thesis using "1.prems" by (simp add: save)
      next
        case (2 e)
        with st Some r show ?thesis by (simp add: u0 unf)
      next
        case 3
        with st Some r have p: "\<And>q. parseHeaderFieldRepr d (buf @ q) = Some (d1, rest @ q, None)" "length rest < length buf"
          "dec_saveBuf d1 = dec_saveBuf d" "dec_maxStrLen d1 = dec_maxStrLen d" by simp_all
        have go: "Write_loop m d (buf @ q) = Write_loop m (d1\<lparr>dec_firstField := False\<rparr>) (rest @ q)" for m q
          by (simp add: unf p(1))
        note IH = "1.IH" [rule_format, OF p(2), of "d1\<lparr>dec_firstField := False\<rparr>"]
        show ?thesis unfolding go go [of _ "[]", unfolded append_Nil2] by (rule IH) (use p(3,4) "1.prems" in simp_all)
      qed
    qed
  qed
qed

text \<open>The count is only reported.\<close>

lemma Write_loop_count:
  assumes "dec_saveBuf d = []" and "dec_maxStrLen d = 0"
  shows "map_option snd (Write_loop m d buf) = map_option snd (Write_loop n d buf)"
proof -
  note w = Write_loop_more [OF assms, where n = n and buf = buf]
  show ?thesis
  proof (cases "Write_loop n d buf")
    case None
    with w have "Write_loop m d (buf @ []) = None" by (simp only: option.case)
    with None show ?thesis by simp
  next
    case (Some r)
    obtain k err d' where r: "r = (k, err, d')" by (metis prod.exhaust)
    show ?thesis
    proof (cases err)
      case e: (Some e)
      with w Some r have "\<forall>m q. Write_loop m d (buf @ q) = Some (m, Some e, d')" by simp
      from spec [OF spec [OF this, of m], of "[]"] Some r e show ?thesis by simp
    next
      case None
      with w Some r show ?thesis by simp
    qed
  qed
qed

text \<open>C39: A header block may arrive in any pieces, as it does in CONTINUATION frames: with no limit on the strings, writing
  \<open>p @ q\<close> panics, fails or succeeds as writing \<open>p\<close> and then \<open>q\<close> does, with the same error, the same emitted fields and
  the same tables in the end; what \<open>p\<close> leaves unparsed waits in the saved buffer, wherever the cut is.\<close>

theorem hpack_write_in_pieces:
  assumes "dec_maxStrLen d = 0"
  shows "case Decoder_Write d p of
      None \<Rightarrow> Decoder_Write d (p @ q) = None
    | Some (n, Some e, d') \<Rightarrow> Decoder_Write d (p @ q) = Some (length (p @ q), Some e, d')
    | Some (n, None, d') \<Rightarrow> map_option snd (Decoder_Write d (p @ q)) = map_option snd (Decoder_Write d' q)"
proof (cases "p = []")
  case True
  then show ?thesis by (simp add: Decoder_Write_def)
next
  case ne: False
  let ?d = "d\<lparr>dec_saveBuf := []\<rparr>" and ?buf = "dec_saveBuf d @ p"
  have w: "Decoder_Write d (p @ q) = Write_loop (length (p @ q)) ?d (?buf @ q)" for q using ne by (simp add: Decoder_Write_def)
  have wp: "Decoder_Write d p = Write_loop (length p) ?d ?buf" using w [of "[]"] by simp
  note m = Write_loop_more [where d = ?d and n = "length p" and buf = ?buf, simplified, OF assms]
  show ?thesis
  proof (cases "Write_loop (length p) ?d ?buf")
    case None
    with m show ?thesis unfolding wp by (simp add: w)
  next
    case (Some r)
    obtain n err d' where r: "r = (n, err, d')" by (metis prod.exhaust)
    show ?thesis
    proof (cases err)
      case e: (Some e)
      with m Some r show ?thesis unfolding wp by (simp add: w)
    next
      case none: None
      show ?thesis
      proof (cases "q = []")
        case True
        with Some r none ne show ?thesis unfolding wp by (simp add: w Decoder_Write_def)
      next
        case False
        have "Write_loop (length (p @ q)) ?d (?buf @ q) = Write_loop (length (p @ q)) (d'\<lparr>dec_saveBuf := []\<rparr>) (dec_saveBuf d' @ q)"
          using m Some r none by simp
        moreover have "dec_maxStrLen d' = 0" using m Some r none by simp
        then have "map_option snd (Write_loop (length (p @ q)) (d'\<lparr>dec_saveBuf := []\<rparr>) (dec_saveBuf d' @ q)) =
            map_option snd (Write_loop (length q) (d'\<lparr>dec_saveBuf := []\<rparr>) (dec_saveBuf d' @ q))"
          by (intro Write_loop_count) simp_all
        ultimately show ?thesis using False Some r none unfolding wp w by (simp add: Decoder_Write_def)
      qed
    qed
  qed
qed

theorem hpack_write_in_pieces_witness:
  "Decoder_Write demo_decoder [63] = Some (1, None, demo_decoder\<lparr>dec_saveBuf := [63]\<rparr>) \<and>
   map_option snd (Decoder_Write demo_decoder [63, 69]) = map_option snd (Decoder_Write (demo_decoder\<lparr>dec_saveBuf := [63]\<rparr>) [69])"
proof -
  have p: "parseHeaderFieldRepr demo_decoder [63] = Some (demo_decoder, [63], Some errNeedMore)"
    by (simp add: parseHeaderFieldRepr_def parse_size_repr_def parseDynamicTableSizeUpdate_def readVarInt_def prefix_max_def demo_decoder_def Let_def)
  have "demo_decoder\<lparr>dec_saveBuf := []\<rparr> = demo_decoder" by (simp add: demo_decoder_def)
  then have w: "Decoder_Write demo_decoder [63] = Some (1, None, demo_decoder\<lparr>dec_saveBuf := [63]\<rparr>)"
    using p by (simp add: Decoder_Write_def) (subst Write_loop.simps, simp add: demo_decoder_def)
  have "dec_maxStrLen demo_decoder = 0" by (simp add: demo_decoder_def)
  from hpack_write_in_pieces [OF this, of "[63]" "[69]"] w show ?thesis by simp
qed

section \<open>Any input\<close>

definition table_safe :: "Decoder \<Rightarrow> bool" where
  "table_safe d \<longleftrightarrow> roomy (dec_dynTab d) \<and> dt_maxSize (dec_dynTab d) \<le> dt_allowedMaxSize (dec_dynTab d) \<and>
     unat (dt_allowedMaxSize (dec_dynTab d)) < 2 ^ 30 \<and> 0 \<le> dec_maxStrLen d"

lemma codes_bytes: "5 * length s \<le> length (huff_bits s)"
  using code_len_range by (induction s) (auto simp: length_huff_bits intro: add_mono)

lemma decoded_bytes:
  assumes "0 \<le> m" and "huffmanDecode m v = Some (Inr s)"
  shows "length s \<le> 2 * length v"
proof -
  have v: "v = AppendHuffmanString [] s" using huffmanDecode_reads [OF assms(1), of v] assms(2) by auto
  obtain k where "byte_bits v = huff_bits s @ replicate k True" using encoded_bits [of s] v by auto
  then have "length (huff_bits s) \<le> 8 * length v" using length_byte_bits by (metis le_add1 length_append)
  with codes_bytes [of s] show ?thesis by linarith
qed

lemma decodeString_total:
  assumes "0 \<le> dec_maxStrLen d"
  obtains r where "decodeString d u = Some r" "\<And>s. r = Inr s \<Longrightarrow> length s \<le> 2 * length (undecoded_b u)"
proof (cases "isHuff u")
  case True
  obtain h where h: "huffmanDecode (dec_maxStrLen d) (undecoded_b u) = Some h" using huffmanDecode_reads [OF assms] by blast
  show thesis
    by (rule that [of "map_sum id go_string h"])
      (use True h decoded_bytes [OF assms] in \<open>auto simp: decodeString_def map_sum_id_iff\<close>)
next
  case False
  then show thesis by (intro that [of "Inr (go_string (undecoded_b u))"]) (auto simp: decodeString_def)
qed

lemma readString_bytes:
  "readString d p = Some (Inr (u, rest)) \<Longrightarrow> length (undecoded_b u) + length rest \<le> length p"
  by (auto simp: readString_def Let_def dest!: readVarInt_shorter split: option.splits sum.splits if_splits)

lemma name_in_table:
  assumes "Decoder_at d i = Some hf"
  shows "length (Name hf) < 2 ^ 10 \<or> length (Name hf) \<le> table_bytes (ents (dt_table (dec_dynTab d)))"
proof -
  have static: "\<forall>f\<in>set (ents staticTable). length (Name f) < 2 ^ 10"
    by (simp add: staticTable_def static_ents_def field_def)
  have member: "f \<in> set fs \<Longrightarrow> length (Name f) \<le> table_bytes fs" for f fs
    by (induction fs) (auto simp: field_bytes_def)
  from assms static member show ?thesis
    by (auto simp: Decoder_at_def maxTableIndex_def Let_def split: if_splits)
qed

lemma literal_name_bytes:
  assumes "table_safe d" and "literal_name d i p = Some (Inr (name, rest))"
  shows "case name of Inl s \<Rightarrow> length s < 2 ^ 30 \<and> length rest \<le> length p | Inr u \<Rightarrow> length (undecoded_b u) + length rest \<le> length p"
proof -
  have "table_bytes (ents (dt_table (dec_dynTab d))) < 2 ^ 30"
    using assms(1) roomyD(5) [of "dec_dynTab d"] by (auto simp: table_safe_def word_le_nat_alt)
  then have "length (Name hf) < 2 ^ 30" if "Decoder_at d j = Some hf" for j hf using name_in_table [OF that] by auto
  with assms(2) readString_bytes [of d p] show ?thesis
    by (auto simp: literal_name_def map_sum_id_iff split: if_splits option.splits prod.splits)
qed

lemma literal_decode_total:
  assumes "0 \<le> dec_maxStrLen d"
  obtains w where "literal_decode d want name val = Some w"
    "\<And>a b. w = Inr (a, b) \<Longrightarrow> length a \<le> (case name of Inl s \<Rightarrow> length s | Inr u \<Rightarrow> 2 * length (undecoded_b u)) \<and>
       length b \<le> 2 * length (undecoded_b val)"
proof -
  obtain rv where v: "decodeString d val = Some rv" "\<And>s. rv = Inr s \<Longrightarrow> length s \<le> 2 * length (undecoded_b val)"
    using decodeString_total [OF assms] by metis
  obtain rn where n: "(case name of Inl n \<Rightarrow> Some (Inr n) | Inr u \<Rightarrow> decodeString d u) = Some rn"
    "\<And>s. rn = Inr s \<Longrightarrow> length s \<le> (case name of Inl s \<Rightarrow> length s | Inr u \<Rightarrow> 2 * length (undecoded_b u))"
  proof (cases name)
    case (Inr u)
    then show thesis using decodeString_total [OF assms, of u] that by (metis sum.simps(6))
  qed (use that in auto)
  show thesis
  proof (cases want)
    case True
    then show thesis
      by (intro that [of "case rn of Inl e \<Rightarrow> Inl e | Inr n \<Rightarrow> map_sum id (Pair n) rv"])
        (use n v in \<open>auto simp: literal_decode_def map_sum_id_iff split: sum.splits\<close>)
  next
    case False
    then show thesis
      by (intro that [of "Inr (case name of Inl n \<Rightarrow> n | Inr _ \<Rightarrow> [], [])"]) (auto simp: literal_decode_def split: sum.splits)
  qed
qed

text \<open>One representation.\<close>

definition safe_step :: "parsed \<Rightarrow> Decoder \<Rightarrow> bool" where
  "safe_step r d \<longleftrightarrow> (\<exists>d' rest err. r = Some (d', rest, err) \<and> table_safe d' \<and> made (dec_dynTab d') \<le> made (dec_dynTab d) + 1 \<and>
     dt_allowedMaxSize (dec_dynTab d') = dt_allowedMaxSize (dec_dynTab d))"

lemma callEmit_safe: "table_safe d \<Longrightarrow> callEmit d hf = (d', err) \<Longrightarrow> table_safe d' \<and> dec_dynTab d' = dec_dynTab d"
  by (auto simp: callEmit_def table_safe_def split: if_splits)

lemma literal_safe:
  assumes "table_safe d" and "1 \<le> n" "n \<le> 8" and "length buf < 2 ^ 29" and "made (dec_dynTab d) + 1 < 2 ^ 64"
  shows "safe_step (parseFieldLiteral d n it buf) d"
proof -
  have here: "safe_step (Some (d, rest, err)) d" for rest err using assms(1) by (simp add: safe_step_def)
  obtain v where v: "readVarInt n buf = Some v" using readVarInt_None [of n buf] assms(2,3) by auto
  show ?thesis
  proof (cases v)
    case (Inl e)
    with v here show ?thesis by (simp add: parseFieldLiteral_def)
  next
    case (Inr x)
    then obtain i buf1 where x: "v = Inr (i, buf1)" by (cases x) auto
    obtain nm where nm: "literal_name d i buf1 = Some nm" using literal_name_total by blast
    show ?thesis
    proof (cases nm)
      case e: (Inl e)
      with v x nm here show ?thesis by (simp add: parseFieldLiteral_def)
    next
      case y: (Inr y)
      then obtain name buf2 where y: "nm = Inr (name, buf2)" by (cases y) auto
      obtain sv where sv: "readString d buf2 = Some sv" using readString_total by blast
      show ?thesis
      proof (cases sv)
        case e: (Inl e)
        with v x nm y sv here show ?thesis by (simp add: parseFieldLiteral_def)
      next
        case z: (Inr z)
        then obtain val rest where z: "sv = Inr (val, rest)" by (cases z) auto
        obtain w where w: "literal_decode d (dec_emitEnabled d \<or> indexType_indexed it) name val = Some w"
          "\<And>a b. w = Inr (a, b) \<Longrightarrow> length a \<le> (case name of Inl s \<Rightarrow> length s | Inr u \<Rightarrow> 2 * length (undecoded_b u)) \<and>
             length b \<le> 2 * length (undecoded_b val)"
          using literal_decode_total assms(1) unfolding table_safe_def by metis
        show ?thesis
        proof (cases w)
          case (Inl e)
          with v x nm y sv z w(1) here show ?thesis by (simp add: parseFieldLiteral_def)
        next
          case s: (Inr s)
          then obtain a b where s: "w = Inr (a, b)" by (cases s) auto
          let ?hf = "\<lparr>Name = a, Value = b, Sensitive = False\<rparr>"
          have "length buf1 < length buf" using readVarInt_shorter [OF v [unfolded x]] .
          moreover have "length (undecoded_b val) \<le> length buf2" using readString_bytes [OF sv [unfolded z]] by simp
          ultimately have "length a + length b < 2 ^ 30 + 2 ^ 30"
            using literal_name_bytes [OF assms(1) nm [unfolded y]] w(2) [OF s] assms(4) by (cases name) auto
          moreover have "table_bytes (ents (dt_table (dec_dynTab d))) < 2 ^ 30"
            using assms(1) roomyD(5) [of "dec_dynTab d"] by (auto simp: table_safe_def word_le_nat_alt)
          ultimately have bytes: "table_bytes (ents (dt_table (dec_dynTab d))) + field_bytes ?hf < 2 ^ 32"
            by (simp add: field_bytes_def)
          obtain dt where dt: "(if indexType_indexed it then dynamicTable_add (dec_dynTab d) ?hf else Some (dec_dynTab d)) = Some dt"
            "table_safe (d\<lparr>dec_dynTab := dt\<rparr>)" "made dt \<le> made (dec_dynTab d) + 1" "dt_allowedMaxSize dt = dt_allowedMaxSize (dec_dynTab d)"
          proof (cases "indexType_indexed it")
            case True
            obtain dt where "dynamicTable_add (dec_dynTab d) ?hf = Some dt" "roomy dt" "dt_maxSize dt = dt_maxSize (dec_dynTab d)"
              "dt_allowedMaxSize dt = dt_allowedMaxSize (dec_dynTab d)" "made dt = made (dec_dynTab d) + 1"
              by (rule add_fit [OF _ bytes assms(5)]) (use assms(1) in \<open>auto simp: table_safe_def\<close>)
            with True assms(1) that [of dt] show thesis by (simp add: table_safe_def)
          next
            case False
            with assms(1) that [of "dec_dynTab d"] show thesis by simp
          qed
          obtain d' err where c: "callEmit (d\<lparr>dec_dynTab := dt\<rparr>) (?hf\<lparr>Sensitive := indexType_sensitive it\<rparr>) = (d', err)"
            by (cases "callEmit (d\<lparr>dec_dynTab := dt\<rparr>) (?hf\<lparr>Sensitive := indexType_sensitive it\<rparr>)")
          have "parseFieldLiteral d n it buf = Some (d', rest, err)"
            using v x nm y sv z w(1) s dt(1) c by (simp add: parseFieldLiteral_def Let_def)
          then show ?thesis using callEmit_safe [OF dt(2) c] dt(3,4) by (auto simp: safe_step_def)
        qed
      qed
    qed
  qed
qed

lemma repr_safe:
  assumes "table_safe d" and "buf \<noteq> []" and "length buf < 2 ^ 29" and "made (dec_dynTab d) + 1 < 2 ^ 64"
  shows "safe_step (parseHeaderFieldRepr d buf) d"
proof -
  have here: "safe_step (Some (d, rest, err)) d" for rest err using assms(1) by (simp add: safe_step_def)
  have indexed: "safe_step (parseFieldIndexed d buf) d"
  proof -
    obtain v where v: "readVarInt 7 buf = Some v" using readVarInt_None [of 7 buf] by auto
    show ?thesis
    proof (cases v)
      case (Inl e)
      with v here show ?thesis by (simp add: parseFieldIndexed_def)
    next
      case (Inr x)
      then obtain i rest where x: "v = Inr (i, rest)" by (cases x) auto
      show ?thesis
      proof (cases "Decoder_at d (unat i)")
        case None
        with v x here show ?thesis by (simp add: parseFieldIndexed_def)
      next
        case (Some hf)
        obtain d' err where c: "callEmit d \<lparr>Name = Name hf, Value = Value hf, Sensitive = False\<rparr> = (d', err)"
          by (cases "callEmit d \<lparr>Name = Name hf, Value = Value hf, Sensitive = False\<rparr>")
        then have "parseFieldIndexed d buf = Some (d', rest, err)" using v x Some by (simp add: parseFieldIndexed_def)
        with callEmit_safe [OF assms(1) c] show ?thesis by (auto simp: safe_step_def)
      qed
    qed
  qed
  have size: "safe_step (parse_size_repr d buf) d"
  proof -
    obtain v where v: "readVarInt 5 buf = Some v" using readVarInt_None [of 5 buf] by auto
    show ?thesis
    proof (cases "\<not> dec_firstField d \<and> dt_size (dec_dynTab d) > 0 \<or> (case v of Inl _ \<Rightarrow> True | Inr (sz, _) \<Rightarrow> sz > ucast (dt_allowedMaxSize (dec_dynTab d)))")
      case True
      with v here show ?thesis by (auto simp: parse_size_repr_def parseDynamicTableSizeUpdate_def split: sum.splits prod.splits)
    next
      case False
      then obtain sz rest where x: "v = Inr (sz, rest)" "\<not> sz > ucast (dt_allowedMaxSize (dec_dynTab d))" by (auto split: sum.splits)
      have le: "(ucast sz :: u32) \<le> dt_allowedMaxSize (dec_dynTab d)"
      proof -
        have "unat (ucast sz :: u32) \<le> unat sz" by (simp add: unsigned_ucast_eq)
        also have "\<dots> \<le> unat (dt_allowedMaxSize (dec_dynTab d))"
          using x(2) by (simp add: not_less word_le_nat_alt unat_ucast_32_64)
        finally show ?thesis by (simp add: word_le_nat_alt)
      qed
      obtain dt where "dynamicTable_setMaxSize (dec_dynTab d) (ucast sz) = Some dt" "roomy dt" "dt_maxSize dt = ucast sz"
        "dt_allowedMaxSize dt = dt_allowedMaxSize (dec_dynTab d)" "made dt = made (dec_dynTab d)"
        by (rule setMaxSize_keeps [of "dec_dynTab d" "ucast sz"]) (use assms(1) in \<open>auto simp: table_safe_def\<close>)
      with False v x le assms(1) show ?thesis
        by (auto simp: parse_size_repr_def parseDynamicTableSizeUpdate_def safe_step_def table_safe_def)
    qed
  qed
  obtain b bs where "buf = b # bs" using assms(2) by (cases buf) auto
  then show ?thesis using indexed size here literal_safe [OF assms(1) _ _ assms(3,4)] by (simp add: parseHeaderFieldRepr_def)
qed

lemma loop_safe:
  assumes "table_safe d" and "length buf < 2 ^ 29" and "made (dec_dynTab d) + length buf < 2 ^ 64"
  shows "\<exists>k err d'. Write_loop n d buf = Some (k, err, d') \<and> table_safe d' \<and>
    dt_allowedMaxSize (dec_dynTab d') = dt_allowedMaxSize (dec_dynTab d) \<and>
    length (dec_saveBuf d') \<le> length (dec_saveBuf d) + length buf"
  using assms
proof (induction buf arbitrary: d rule: length_induct)
  case (1 buf)
  show ?case
  proof (cases "buf = []")
    case False
    then have l: "1 \<le> length buf" by (cases buf) auto
    note st = steady_repr [OF False, of d, unfolded steady_def]
    have "safe_step (parseHeaderFieldRepr d buf) d" by (rule repr_safe) (use "1.prems" False l in auto)
    then obtain d1 rest err where p: "parseHeaderFieldRepr d buf = Some (d1, rest, err)" "table_safe d1"
      "made (dec_dynTab d1) \<le> made (dec_dynTab d) + 1" "dt_allowedMaxSize (dec_dynTab d1) = dt_allowedMaxSize (dec_dynTab d)"
      by (auto simp: safe_step_def)
    show ?thesis
    proof (cases err)
      case None
      with st p have r: "length rest < length buf" "dec_saveBuf d1 = dec_saveBuf d" by simp_all
      have "table_safe (d1\<lparr>dec_firstField := False\<rparr>)" using p(2) by (simp add: table_safe_def)
      with "1.IH" r p "1.prems" None obtain k e d' where
        "Write_loop n (d1\<lparr>dec_firstField := False\<rparr>) rest = Some (k, e, d')" "table_safe d'"
        "dt_allowedMaxSize (dec_dynTab d') = dt_allowedMaxSize (dec_dynTab d)"
        "length (dec_saveBuf d') \<le> length (dec_saveBuf d) + length rest"
        by (fastforce dest!: spec [of _ rest])
      with r p None False show ?thesis by (subst Write_loop.simps) simp
    next
      case (Some e)
      with st p False show ?thesis by (subst Write_loop.simps) (auto simp: table_safe_def)
    qed
  qed (use "1.prems" in simp)
qed

text \<open>C12: The decoder stands any input: from a table within its bounds, \<open>Write\<close> returns for every byte string, however it is
  malformed - the loop ends, no index is out of range, no table counter wraps, no node of the Huffman tree is missing -
  and the table is within its bounds again, no larger than the size its owner allowed.\<close>

theorem hpack_decoder_total:
  assumes "table_safe d" and "length (dec_saveBuf d @ p) < 2 ^ 29" and "made (dec_dynTab d) + length (dec_saveBuf d @ p) < 2 ^ 64"
  shows "\<exists>n err d'. Decoder_Write d p = Some (n, err, d') \<and> table_safe d' \<and>
    dt_allowedMaxSize (dec_dynTab d') = dt_allowedMaxSize (dec_dynTab d) \<and>
    table_bytes (ents (dt_table (dec_dynTab d'))) \<le> unat (dt_allowedMaxSize (dec_dynTab d)) \<and>
    length (dec_saveBuf d') \<le> length (dec_saveBuf d @ p)"
proof -
  have "\<exists>n err d'. Decoder_Write d p = Some (n, err, d') \<and> table_safe d' \<and>
    dt_allowedMaxSize (dec_dynTab d') = dt_allowedMaxSize (dec_dynTab d) \<and> length (dec_saveBuf d') \<le> length (dec_saveBuf d @ p)"
  proof (cases "p = []")
    case False
    have "table_safe (d\<lparr>dec_saveBuf := []\<rparr>)" using assms(1) by (simp add: table_safe_def)
    from loop_safe [OF this assms(2)] assms(3) False show ?thesis by (simp add: Decoder_Write_def)
  qed (use assms in \<open>simp add: Decoder_Write_def\<close>)
  moreover have "table_bytes (ents (dt_table (dec_dynTab d'))) \<le> unat (dt_allowedMaxSize (dec_dynTab d'))" if "table_safe d'" for d'
    using that roomyD(5) by (auto simp: table_safe_def word_le_nat_alt intro: order_trans)
  ultimately show ?thesis by metis
qed

theorem hpack_decoder_total_witness:
  "\<exists>n err d'. Decoder_Write demo_decoder [0xff, 0xff, 0x40, 0x81] = Some (n, err, d') \<and>
     table_bytes (ents (dt_table (dec_dynTab d'))) \<le> 4096"
proof -
  have "table_safe demo_decoder"
    using roomy_demo by (simp add: table_safe_def demo_decoder_def) (simp add: demo_dynamic_def)
  moreover have "dt_allowedMaxSize (dec_dynTab demo_decoder) = 4096" "dec_saveBuf demo_decoder = []" "made (dec_dynTab demo_decoder) = 2"
    by (simp_all add: demo_decoder_def demo_dynamic_def made_def demo_table_def addEntry_def empty_table_def Let_def)
  ultimately show ?thesis using hpack_decoder_total [of demo_decoder "[0xff, 0xff, 0x40, 0x81]"] by auto
qed

end
