(* ===== verification/Baton_Session.thy ===== *)
theory Baton_Session
  imports Session_Delivery Go_Text
begin

text \<open>
  internal/baton: the Devious Baton endpoint. codec.go (the message format), config.go (the query
  parameters), and session.go (what a peer does with a baton it receives). A goroutine started by
  \<^verbatim>\<open>track\<close> is an entry of \<open>b_inflight\<close> until it has run; the outcomes of the writes are the list
  \<open>b_writer\<close> (a write beyond it succeeds). A result \<open>None\<close> is a wait or a panic, as in Session.
\<close>

section \<open>Messages\<close>

definition encodeBaton :: "varint_ops \<Rightarrow> bytes \<Rightarrow> byte \<Rightarrow> bytes option" where
  "encodeBaton V padding baton =
     map_option (\<lambda>b. b @ padding @ [baton]) (vappend V (of_nat (length padding)))"

definition decodeBaton :: "varint_ops \<Rightarrow> bytes \<Rightarrow> go_err + bytes \<times> byte" where
  "decodeBaton V data =
     (if length data = 0 then Inl (ErrorsNew ''empty baton message'')
      else case vparse V data of
        Inl err \<Rightarrow> Inl (Errorf ''padding length: '' err '''')
      | Inr (padLen, n) \<Rightarrow>
          let rest = drop n data
          in if of_nat (length rest) < padLen + 1 then
               Inl (ErrorsNew (''truncated baton message: need '' @ fmt_d (unat padLen) @
                 '' padding + baton, have '' @ fmt_d (length rest) @ '' bytes''))
             else if of_nat (length rest) \<noteq> padLen + 1 then
               Inl (ErrorsNew ''trailing data after baton message'')
             else Inr (take (unat padLen) rest, rest ! unat padLen))"

section \<open>Configuration\<close>

definition errDAYAMN :: u32 where "errDAYAMN = 0x01"
definition errBRUH :: u32 where "errBRUH = 0x02"
definition errSUS :: u32 where "errSUS = 0x03"
definition errBORED :: u32 where "errBORED = 0x04"

definition baton_Path :: string where "baton_Path = ''/webtransport/devious-baton''"

record Config =
  Version :: int
  Baton :: byte
  Count :: int
  Padding :: int

definition defaultConfig :: Config where
  "defaultConfig = \<lparr>Version = 0, Baton = 0, Count = 1, Padding = 0\<rparr>"

text \<open>The three parameters in turn; an absent or empty one keeps the default. The range in the text of
  the second error has an en dash, in UTF-8.\<close>

definition ParseQuery_version :: "url_Values \<Rightarrow> Config \<Rightarrow> go_err + Config" where
  "ParseQuery_version q cfg =
     (let v = Values_Get q ''version''
      in if v \<noteq> '''' then
           (case Atoi v of
              None \<Rightarrow> Inl (ErrorsNew (''invalid version '' @ fmt_q v))
            | Some n \<Rightarrow>
                if n < 0 then Inl (ErrorsNew (''invalid version '' @ fmt_q v))
                else if n \<noteq> 0 then Inl (ErrorsNew (''unsupported version '' @ fmt_int n))
                else Inr (cfg\<lparr>Version := n\<rparr>))
         else Inr cfg)"

definition ParseQuery_baton :: "url_Values \<Rightarrow> Config \<Rightarrow> go_err + Config" where
  "ParseQuery_baton q cfg =
     (let v = Values_Get q ''baton'';
          bad = Inl (ErrorsNew (''invalid baton '' @ fmt_q v @ '' (want 1'' @ [CHR 0xe2, CHR 0x80, CHR 0x93] @ ''255)''))
      in if v \<noteq> '''' then
           (case Atoi v of
              None \<Rightarrow> bad
            | Some n \<Rightarrow> if n < 1 \<or> n > 255 then bad else Inr (cfg\<lparr>Baton := of_int n\<rparr>))
         else Inr cfg)"

definition ParseQuery_count :: "url_Values \<Rightarrow> Config \<Rightarrow> go_err + Config" where
  "ParseQuery_count q cfg =
     (let v = Values_Get q ''count'';
          bad = Inl (ErrorsNew (''invalid count '' @ fmt_q v))
      in if v \<noteq> '''' then
           (case Atoi v of None \<Rightarrow> bad | Some n \<Rightarrow> if n < 1 then bad else Inr (cfg\<lparr>Count := n\<rparr>))
         else Inr cfg)"

definition ParseQuery :: "url_Values \<Rightarrow> go_err + Config" where
  "ParseQuery q =
     (case ParseQuery_version q defaultConfig of
        Inl e \<Rightarrow> Inl e
      | Inr c1 \<Rightarrow> (case ParseQuery_baton q c1 of Inl e \<Rightarrow> Inl e | Inr c2 \<Rightarrow> ParseQuery_count q c2))"

definition Config_Query :: "Config \<Rightarrow> url_Values" where
  "Config_Query c =
     (let q = Values_Set (Values_Set [] ''version'' (fmt_int (Version c))) ''count'' (fmt_int (Count c))
      in if Baton c \<noteq> 0 then Values_Set q ''baton'' (fmt_int (uint (Baton c))) else q)"

section \<open>A baton session\<close>

datatype streamKind = kindUni | kindPeerBidi | kindSelfBidi | kindDatagram

fun streamKind_String :: "streamKind \<Rightarrow> string" where
  "streamKind_String kindUni = ''uni''"
| "streamKind_String kindPeerBidi = ''peer-bidi''"
| "streamKind_String kindSelfBidi = ''self-bidi''"
| "streamKind_String kindDatagram = ''datagram''"

text \<open>A \<^verbatim>\<open>readerCloser\<close>: a bidirectional stream, or the receive side of a unidirectional one.\<close>

datatype readerCloser = SrcStream Stream | SrcReceive nat

fun src_recv :: "readerCloser \<Rightarrow> nat" where
  "src_recv (SrcStream st) = st_recv st"
| "src_recv (SrcReceive r) = r"

record batonSession =
  b_sess :: Session
  b_isServer :: bool
  b_cfg :: Config
  b_active :: int
  b_inflight :: "(readerCloser \<times> streamKind) list"
  b_done :: bool
  b_err :: "go_err option"
  b_writer :: "go_err option list"

definition Run_start :: "Session \<Rightarrow> bool \<Rightarrow> Config \<Rightarrow> go_err option list \<Rightarrow> batonSession" where
  "Run_start sess srv cfg ws =
    \<lparr>b_sess = sess, b_isServer = srv, b_cfg = cfg, b_active = Count cfg, b_inflight = [],
     b_done = False, b_err = None, b_writer = ws\<rparr>"

definition next_werr :: "batonSession \<Rightarrow> go_err option \<times> batonSession" where
  "next_werr b = (case b_writer b of [] \<Rightarrow> (None, b) | e # es \<Rightarrow> (e, b\<lparr>b_writer := es\<rparr>))"

definition track :: "batonSession \<Rightarrow> readerCloser \<Rightarrow> streamKind \<Rightarrow> batonSession" where
  "track b src kind = b\<lparr>b_inflight := b_inflight b @ [(src, kind)]\<rparr>"

definition finish :: "batonSession \<Rightarrow> go_err option \<Rightarrow> batonSession" where
  "finish b err =
     (let b1 = (if b_err b = None \<and> err \<noteq> None then b\<lparr>b_err := err\<rparr> else b)
      in b1\<lparr>b_done := True\<rparr>)"

definition fail :: "batonSession \<Rightarrow> go_err \<Rightarrow> batonSession" where
  "fail b err = (if b_done b then b else finish b (Some err))"

definition completeOne :: "batonSession \<Rightarrow> batonSession" where
  "completeOne b =
     (let n = b_active b - 1; b1 = b\<lparr>b_active := n\<rparr>
      in if n \<le> 0 then finish b1 None else b1)"

text \<open>\<^verbatim>\<open>stream.Write(msg)\<close>, and what closes the send side after it.\<close>

definition b_write :: "varint_ops \<Rightarrow> batonSession \<Rightarrow> nat \<Rightarrow> bytes \<Rightarrow> (go_err option \<times> batonSession) option" where
  "b_write V b w msg =
     (case next_werr b of (e, b1) \<Rightarrow>
        map_option (\<lambda>((n, err), s). (err, b1\<lparr>b_sess := s\<rparr>)) (SendStream_Write V (b_sess b1) w msg e))"

definition b_close_send :: "varint_ops \<Rightarrow> batonSession \<Rightarrow> nat \<Rightarrow> (go_err option \<times> batonSession) option" where
  "b_close_send V b w =
     (case next_werr b of (e, b1) \<Rightarrow>
        map_option (\<lambda>(err, s). (err, b1\<lparr>b_sess := s\<rparr>)) (SendStream_Close V (b_sess b1) w e))"

definition b_close_stream :: "varint_ops \<Rightarrow> batonSession \<Rightarrow> Stream \<Rightarrow> (go_err option \<times> batonSession) option" where
  "b_close_stream V b st =
     (case next_werr b of (e, b1) \<Rightarrow>
        map_option (\<lambda>(err, s). (err, b1\<lparr>b_sess := s\<rparr>)) (Stream_Close V (b_sess b1) st e))"

text \<open>Going on when a call returned no error.\<close>

definition and_then ::
  "(go_err option \<times> batonSession) option \<Rightarrow> (batonSession \<Rightarrow> (go_err option \<times> batonSession) option) \<Rightarrow>
   (go_err option \<times> batonSession) option" where
  "and_then r f =
     (case r of
        None \<Rightarrow> None
      | Some (Some err, b) \<Rightarrow> Some (Some err, b)
      | Some (None, b) \<Rightarrow> f b)"

definition b_flush :: "batonSession \<Rightarrow> (go_err option \<times> batonSession) option" where
  "b_flush b = Some (None, b\<lparr>b_sess := Session_Flush (b_sess b)\<rparr>)"

definition no_credit :: "go_err \<Rightarrow> go_err" where
  "no_credit err = Errorf '''' (BatonCode errDAYAMN) ('' (DA_YAMN): '' @ Error err)"

definition sendUniMsg :: "varint_ops \<Rightarrow> batonSession \<Rightarrow> bytes \<Rightarrow> (go_err option \<times> batonSession) option" where
  "sendUniMsg V b msg =
     (case OpenUnidirectionalStream (b_sess b) of
        (Inl err, s) \<Rightarrow> Some (Some (no_credit err), b\<lparr>b_sess := s\<rparr>)
      | (Inr w, s) \<Rightarrow> and_then (and_then (b_write V (b\<lparr>b_sess := s\<rparr>) w msg) (\<lambda>b1. b_close_send V b1 w)) b_flush)"

text \<open>\<^verbatim>\<open>make([]byte, b.cfg.Padding)\<close> panics when the padding is negative.\<close>

definition baton_message :: "varint_ops \<Rightarrow> batonSession \<Rightarrow> byte \<Rightarrow> bytes option" where
  "baton_message V b baton =
     (if Padding (b_cfg b) < 0 then None else encodeBaton V (replicate (nat (Padding (b_cfg b))) 0) baton)"

definition sendUni :: "varint_ops \<Rightarrow> batonSession \<Rightarrow> byte \<Rightarrow> (go_err option \<times> batonSession) option" where
  "sendUni V b baton =
     (case baton_message V b baton of None \<Rightarrow> None | Some msg \<Rightarrow> sendUniMsg V b msg)"

definition sendOnNewBidi ::
  "varint_ops \<Rightarrow> batonSession \<Rightarrow> bytes \<Rightarrow> byte \<Rightarrow> (go_err option \<times> batonSession) option" where
  "sendOnNewBidi V b msg baton =
     (case OpenStream (b_sess b) of
        (Inl err, s) \<Rightarrow> Some (Some (no_credit err), b\<lparr>b_sess := s\<rparr>)
      | (Inr st, s) \<Rightarrow>
          and_then (and_then (and_then (b_write V (b\<lparr>b_sess := s\<rparr>) (st_send st) msg) (\<lambda>b1. b_close_send V b1 (st_send st))) b_flush)
            (\<lambda>b2. if baton = 0 then Some (None, b2\<lparr>b_sess := ReceiveStream_Close (b_sess b2) (st_recv st)\<rparr>)
                  else Some (None, track b2 (SrcStream st) kindSelfBidi)))"

definition sendNext ::
  "varint_ops \<Rightarrow> batonSession \<Rightarrow> byte \<Rightarrow> streamKind \<Rightarrow> readerCloser \<Rightarrow> (go_err option \<times> batonSession) option" where
  "sendNext V b baton from src =
     (case baton_message V b baton of
        None \<Rightarrow> None
      | Some msg \<Rightarrow>
          and_then
            (case from of
               kindUni \<Rightarrow> sendOnNewBidi V b msg baton
             | kindDatagram \<Rightarrow> sendOnNewBidi V b msg baton
             | kindPeerBidi \<Rightarrow>
                 (case src of
                    SrcStream st \<Rightarrow> and_then (and_then (b_write V b (st_send st) msg) (\<lambda>b1. b_close_stream V b1 st)) b_flush
                  | SrcReceive r \<Rightarrow>
                      Some (Some (ErrorsNew ''peer-bidi source is not a bidirectional stream''), b))
             | kindSelfBidi \<Rightarrow> sendUniMsg V b msg)
            (\<lambda>b1. Some (None, if baton = 0 then completeOne b1 else b1)))"

text \<open>The datagram that mirrors a baton; an error in sending it is only logged.\<close>

definition mirror :: "batonSession \<Rightarrow> byte \<Rightarrow> bytes \<Rightarrow> batonSession" where
  "mirror b baton raw =
     (if b_isServer b \<and> baton mod 7 = 0 \<or> \<not> b_isServer b \<and> baton mod 7 = 1 then
        (case next_werr b of (e, b1) \<Rightarrow>
           (case SendDatagram (b_sess b1) raw e of
              (Some err, s) \<Rightarrow> b1\<lparr>b_sess := s\<rparr> | (None, s) \<Rightarrow> b1\<lparr>b_sess := Session_Flush s\<rparr>))
      else b)"

definition afterReceive ::
  "varint_ops \<Rightarrow> batonSession \<Rightarrow> byte \<Rightarrow> bytes \<Rightarrow> streamKind \<Rightarrow> readerCloser \<Rightarrow> batonSession option" where
  "afterReceive V b baton raw kind src =
     (let b1 = mirror b baton raw
      in if baton = 0 then
           (let b2 = completeOne b1
            in case (kind, src) of
                 (kindPeerBidi, SrcStream st) \<Rightarrow> map_option snd (b_close_stream V b2 st)
               | _ \<Rightarrow> Some b2)
         else case sendNext V b1 (baton + 1) kind src of
           None \<Rightarrow> None
         | Some (Some err, b2) \<Rightarrow> Some (fail b2 err)
         | Some (None, b2) \<Rightarrow> Some b2)"

definition malformed :: "go_err \<Rightarrow> go_err" where
  "malformed err = Errorf '''' (BatonCode errBRUH) ('' (BRUH): '' @ Error err)"

text \<open>\<^verbatim>\<open>io.ReadAll\<close> on a stream ends with the stream: the only error of a read is end of file.\<close>

definition handleIncoming ::
  "varint_ops \<Rightarrow> (nat \<Rightarrow> nat) \<Rightarrow> batonSession \<Rightarrow> readerCloser \<Rightarrow> streamKind \<Rightarrow> batonSession option" where
  "handleIncoming V sz b src kind =
     (let r = src_recv src
      in case srb_ReadAll sz 0 (recvBuffer (recvs (b_sess b) ! r)) of
           None \<Rightarrow> None
         | Some (data, buf) \<Rightarrow>
             let b1 = b\<lparr>b_sess := upd_recv (b_sess b) r (\<lambda>st. st\<lparr>recvBuffer := buf\<rparr>)\<rparr>
             in case decodeBaton V data of
                  Inl err \<Rightarrow> Some (fail b1 (malformed err))
                | Inr (padding, baton) \<Rightarrow> afterReceive V b1 baton data kind src)"

definition handleDatagram :: "varint_ops \<Rightarrow> batonSession \<Rightarrow> bytes \<Rightarrow> batonSession" where
  "handleDatagram V b payload =
     (case decodeBaton V payload of Inl err \<Rightarrow> fail b (malformed err) | Inr x \<Rightarrow> b)"

text \<open>\<^verbatim>\<open>setup\<close>: \<open>rnd\<close> is what \<^verbatim>\<open>rand.Read\<close> of one byte returned.\<close>

fun send_batons :: "varint_ops \<Rightarrow> nat \<Rightarrow> batonSession \<Rightarrow> byte \<Rightarrow> (go_err option \<times> batonSession) option" where
  "send_batons V 0 b baton = Some (None, b)"
| "send_batons V (Suc n) b baton = and_then (sendUni V b baton) (\<lambda>b1. send_batons V n b1 baton)"

definition baton_setup :: "varint_ops \<Rightarrow> go_err + byte \<Rightarrow> batonSession \<Rightarrow> (go_err option \<times> batonSession) option" where
  "baton_setup V rnd b =
     (if Baton (b_cfg b) = 0 then
        (case rnd of
           Inl err \<Rightarrow> Some (Some err, b)
         | Inr x \<Rightarrow>
             let baton = (if x = 0 then 1 else x); b1 = b\<lparr>b_cfg := (b_cfg b)\<lparr>Baton := baton\<rparr>\<rparr>
             in send_batons V (nat (Count (b_cfg b1))) b1 baton)
      else send_batons V (nat (Count (b_cfg b))) b (Baton (b_cfg b)))"

text \<open>One pass of the accept loops; the flag is false when the loop returns.\<close>

definition acceptBidi_iter :: "nat \<Rightarrow> go_err option \<Rightarrow> batonSession \<Rightarrow> (bool \<times> batonSession) option" where
  "acceptBidi_iter k ctx b =
     (case AcceptStream k ctx (b_sess b) of
        None \<Rightarrow> None
      | Some (Inl err, s) \<Rightarrow> Some (False, b\<lparr>b_sess := s\<rparr>)
      | Some (Inr st, s) \<Rightarrow> Some (True, track (b\<lparr>b_sess := s\<rparr>) (SrcStream st) kindPeerBidi))"

definition acceptUni_iter :: "nat \<Rightarrow> go_err option \<Rightarrow> batonSession \<Rightarrow> (bool \<times> batonSession) option" where
  "acceptUni_iter k ctx b =
     (case AcceptUnidirectionalStream k ctx (b_sess b) of
        None \<Rightarrow> None
      | Some (Inl err, s) \<Rightarrow> Some (False, b\<lparr>b_sess := s\<rparr>)
      | Some (Inr r, s) \<Rightarrow> Some (True, track (b\<lparr>b_sess := s\<rparr>) (SrcReceive r) kindUni))"

text \<open>What \<^verbatim>\<open>Run\<close> waits for: the end of the exchange, or of its context, which is a failure.\<close>

definition Run_select :: "nat \<Rightarrow> go_err option \<Rightarrow> batonSession \<Rightarrow> batonSession option" where
  "Run_select k ctx b =
     select_ready k ((if b_done b then [b] else []) @ (case ctx of None \<Rightarrow> [] | Some err \<Rightarrow> [fail b err]))"

text \<open>What \<^verbatim>\<open>Run\<close> returns: the first error, unless it is a cancellation.\<close>

definition Run_result :: "batonSession \<Rightarrow> go_err option" where
  "Run_result b =
     (case b_err b of
        None \<Rightarrow> None
      | Some err \<Rightarrow> if errors_Is err ContextCanceled then None else Some err)"

definition Run_end :: "batonSession \<Rightarrow> go_err option \<times> Session" where
  "Run_end b = (Run_result b, Session_Close (b_sess b))"

section \<open>The codec\<close>

context varint_codec
begin

lemma decode_encode:
  assumes "encodeBaton V padding baton = Some m" and "length padding < 2 ^ 62"
  shows "decodeBaton V m = Inr (padding, baton)"
proof -
  obtain h where h: "vappend V (of_nat (length padding)) = Some h" "m = h @ padding @ [baton]"
    using assms(1) by (auto simp: encodeBaton_def)
  have n: "unat (of_nat (length padding) :: u64) = length padding" using assms(2) by simp
  have "vparse V m = Inr (of_nat (length padding), length h)" using parse_append [OF h(1)] h(2) by simp
  then show ?thesis using h(2) n by (simp add: decodeBaton_def Let_def)
qed

lemma decode_exact:
  assumes "decodeBaton V d = Inr (padding, baton)" and "length d < 2 ^ 62"
  shows "\<exists>h. d = h @ padding @ [baton] \<and> vparse V d = Inr (of_nat (length padding), length h)"
proof -
  obtain p n where p: "vparse V d = Inr (p, n)" "of_nat (length d - n) = p + 1"
    "padding = take (unat p) (drop n d)" "baton = drop n d ! unat p"
    using assms(1) by (auto simp: decodeBaton_def Let_def split: if_splits sum.splits)
  have b: "n \<le> length d" "unat p < 2 ^ 62" using parse_bounds [OF p(1)] by auto
  have "unat (p + 1) = unat p + 1" using b(2) by (subst unat_add_no_wrap) simp_all
  moreover have "unat (of_nat (length d - n) :: u64) = length d - n" using assms(2) by (intro unat_of_nat_u64) simp
  ultimately have len: "length (drop n d) = Suc (unat p)" using p(2) by simp
  then have "drop n d = padding @ [baton]"
    using take_Suc_conv_app_nth [of "unat p" "drop n d"] p(3,4) by simp
  then have "d = take n d @ padding @ [baton]" by (metis append_take_drop_id)
  moreover have "length padding = unat p" using len p(3) by simp
  then have "vparse V d = Inr (of_nat (length padding), length (take n d))" using p(1) b(1) by simp
  ultimately show ?thesis by blast
qed

end

text \<open>C35: The baton codec is exact. Decoding an encoded message gives its padding and baton back; and
  whatever decodes is one length prefix, that much padding and one byte, so truncated messages and
  messages with trailing bytes are refused.\<close>
theorem baton_codec:
  assumes "varint_codec V"
  shows "(encodeBaton V padding baton = Some m \<and> length padding < 2 ^ 62 \<longrightarrow> decodeBaton V m = Inr (padding, baton)) \<and>
    (decodeBaton V d = Inr (padding, baton) \<and> length d < 2 ^ 62 \<longrightarrow>
      (\<exists>h. d = h @ padding @ [baton] \<and> vparse V d = Inr (of_nat (length padding), length h)))"
  using varint_codec.decode_encode [OF assms] varint_codec.decode_exact [OF assms] by blast

theorem baton_codec_witness:
  "encodeBaton quicwire_varint [0, 0] 42 = Some [2, 0, 0, 42] \<and>
   decodeBaton quicwire_varint [2, 0, 0, 42] = Inr ([0, 0], 42)"
proof -
  have e: "encodeBaton quicwire_varint [0, 0] 42 = Some [2, 0, 0, 42]" by code_simp
  from baton_codec [OF qw.varint_codec_axioms, of "[0, 0]" 42 "[2, 0, 0, 42]"] e show ?thesis by simp
qed

section \<open>The query\<close>

lemma fmt_int_nonempty [simp]: "fmt_int n \<noteq> ''''"
  using fmt_d_digits(2) by (simp add: fmt_int_def)

lemma ParseQuery_roundtrip:
  assumes "Version c = 0" and "1 \<le> Count c" and "Count c < 2 ^ 63"
  shows "ParseQuery (Config_Query c) = Inr (c\<lparr>Padding := 0\<rparr>)"
proof -
  have v: "Atoi (fmt_int 0) = Some 0" and n: "Atoi (fmt_int (Count c)) = Some (Count c)"
    using Atoi_fmt_int [of 0] Atoi_fmt_int [of "Count c"] assms by simp_all
  have "uint (Baton c) < 256" using uint_bounded [of "Baton c"] by simp
  moreover have "- (2 ^ 63) \<le> uint (Baton c)" using uint_nonnegative [of "Baton c"] by (rule order_trans [rotated]) simp
  ultimately have b: "Atoi (fmt_int (uint (Baton c))) = Some (uint (Baton c))" "uint (Baton c) \<le> 255"
    by (simp_all add: Atoi_fmt_int)
  have nz: "1 \<le> uint (Baton c)" if "Baton c \<noteq> 0"
    using that uint_nonnegative [of "Baton c"] by (metis int_one_le_iff_zero_less order_le_less uint_0_iff)
  have "ParseQuery_version (Config_Query c) defaultConfig = Inr defaultConfig"
    using v assms(1) by (simp add: ParseQuery_version_def Config_Query_def defaultConfig_def Let_def)
  moreover have "ParseQuery_baton (Config_Query c) defaultConfig = Inr (defaultConfig\<lparr>Baton := Baton c\<rparr>)"
  proof (cases "Baton c = 0")
    case False
    with nz have "\<not> uint (Baton c) < 1" by linarith
    with False b show ?thesis by (simp add: ParseQuery_baton_def Config_Query_def Let_def)
  qed (simp add: ParseQuery_baton_def Config_Query_def defaultConfig_def Let_def)
  moreover have "ParseQuery_count (Config_Query c) (defaultConfig\<lparr>Baton := Baton c\<rparr>) =
      Inr (defaultConfig\<lparr>Baton := Baton c, Count := Count c\<rparr>)"
    using n assms(2) by (simp add: ParseQuery_count_def Config_Query_def Let_def)
  ultimately show ?thesis using assms(1) by (simp add: ParseQuery_def defaultConfig_def)
qed

lemma ParseQuery_valid:
  "ParseQuery q = Inr c \<Longrightarrow> Version c = 0 \<and> 1 \<le> Count c \<and> Padding c = 0"
  by (auto simp: ParseQuery_def ParseQuery_version_def ParseQuery_baton_def ParseQuery_count_def Let_def
      defaultConfig_def split: if_splits option.splits sum.splits)

text \<open>Query and ParseQuery fit: parsing the query of a configuration gives that configuration back
  (without the padding, which is not sent), and any query that parses gives version 0 and a
  count of at least one.\<close>
theorem baton_query_roundtrip:
  "(Version c = 0 \<and> 1 \<le> Count c \<and> Count c < 2 ^ 63 \<longrightarrow> ParseQuery (Config_Query c) = Inr (c\<lparr>Padding := 0\<rparr>)) \<and>
   (ParseQuery q = Inr d \<longrightarrow> Version d = 0 \<and> 1 \<le> Count d \<and> Padding d = 0)"
  using ParseQuery_roundtrip [of c] ParseQuery_valid [of q d] by blast

theorem baton_query_roundtrip_witness:
  "ParseQuery (Config_Query \<lparr>Version = 0, Baton = 200, Count = 3, Padding = 9\<rparr>) =
     Inr \<lparr>Version = 0, Baton = 200, Count = 3, Padding = 0\<rparr>"
  using baton_query_roundtrip [of "\<lparr>Version = 0, Baton = 200, Count = 3, Padding = 9\<rparr>"] by simp

end
