(* ===== verification/Baton_Run.thy ===== *)
theory Baton_Run
  imports Baton_Session Endpoint
begin

text \<open>
  A run of a baton session: the goroutines of \<^verbatim>\<open>Run\<close> (the two accept loops, the datagram loop, the
  handlers started by \<^verbatim>\<open>track\<close>, the set-up of a server, the cancellation of the context) interleave
  with the read loop of the session. A handler is one step once its stream has been read to the end.
  The theory shows that a run uses its session legally, what a run returns, which messages a peer
  sends on which stream, how a game of batons ends, and two races of the code.
\<close>

section \<open>Legal use of the session\<close>

fun src_ok :: "Session \<Rightarrow> readerCloser \<Rightarrow> bool" where
  "src_ok s (SrcStream st) \<longleftrightarrow> st_recv st < length (recvs s) \<and> st_send st < length (sends s)"
| "src_ok s (SrcReceive r) \<longleftrightarrow> r < length (recvs s)"

definition baton_refs :: "batonSession \<Rightarrow> bool" where
  "baton_refs b \<longleftrightarrow> (\<forall>x\<in>set (b_inflight b). src_ok (b_sess b) (fst x)) \<and> Padding (b_cfg b) < 2 ^ 62"

definition b_legal :: "varint_ops \<Rightarrow> capsule_ops \<Rightarrow> go_err \<Rightarrow> batonSession \<Rightarrow> batonSession \<Rightarrow> bool" where
  "b_legal V K e b b' \<longleftrightarrow> uses V K e (b_sess b) (b_sess b') \<and> Padding (b_cfg b') = Padding (b_cfg b) \<and>
     (\<exists>new. b_inflight b' = b_inflight b @ new \<and> (\<forall>x\<in>set new. src_ok (b_sess b') (fst x)))"

lemma src_ok_mono:
  "src_ok s src \<Longrightarrow> length (recvs s) \<le> length (recvs s') \<Longrightarrow> length (sends s) \<le> length (sends s') \<Longrightarrow> src_ok s' src"
  by (cases src) auto

lemma src_ok_uses: "uses V K e s s' \<Longrightarrow> session_ok s \<Longrightarrow> src_ok s src \<Longrightarrow> src_ok s' src"
  using uses_lengths src_ok_mono by blast

lemma b_legalI:
  "uses V K e (b_sess b) (b_sess b') \<Longrightarrow> Padding (b_cfg b') = Padding (b_cfg b) \<Longrightarrow>
   b_inflight b' = b_inflight b \<Longrightarrow> b_legal V K e b b'"
  by (simp add: b_legal_def)

lemma b_legal_refl [simp]: "b_legal V K e b b"
  by (simp add: b_legalI)

lemma b_legal_ok: "b_legal V K e b b' \<Longrightarrow> session_ok (b_sess b) \<Longrightarrow> session_ok (b_sess b')"
  using uses_keeps by (auto simp: b_legal_def)

lemma b_legal_src: "b_legal V K e b b' \<Longrightarrow> session_ok (b_sess b) \<Longrightarrow> src_ok (b_sess b) src \<Longrightarrow> src_ok (b_sess b') src"
  using src_ok_uses by (auto simp: b_legal_def)

lemma b_legal_trans:
  assumes "b_legal V K e b b1" and "b_legal V K e b1 b2" and "session_ok (b_sess b)"
  shows "b_legal V K e b b2"
proof -
  obtain n1 n2 where n: "b_inflight b1 = b_inflight b @ n1" "\<forall>x\<in>set n1. src_ok (b_sess b1) (fst x)"
    "b_inflight b2 = b_inflight b1 @ n2" "\<forall>x\<in>set n2. src_ok (b_sess b2) (fst x)"
    using assms(1,2) by (auto simp: b_legal_def)
  have "session_ok (b_sess b1)" using b_legal_ok assms(1,3) .
  then have "\<forall>x\<in>set n1. src_ok (b_sess b2) (fst x)" using b_legal_src [OF assms(2)] n(2) by blast
  with n have "b_inflight b2 = b_inflight b @ (n1 @ n2)" "\<forall>x\<in>set (n1 @ n2). src_ok (b_sess b2) (fst x)" by auto
  moreover have "uses V K e (b_sess b) (b_sess b2)" using assms(1,2) uses_trans by (auto simp: b_legal_def)
  moreover have "Padding (b_cfg b2) = Padding (b_cfg b)" using assms(1,2) by (simp add: b_legal_def)
  ultimately show ?thesis unfolding b_legal_def by blast
qed

lemma b_legal_refs:
  assumes "b_legal V K e b b'" and "session_ok (b_sess b)" and "baton_refs b"
  shows "baton_refs b'"
  using assms b_legal_src [OF assms(1,2)] by (fastforce simp: b_legal_def baton_refs_def)

lemma next_werr_same: "next_werr b = (x, b1) \<Longrightarrow>
  b_sess b1 = b_sess b \<and> b_cfg b1 = b_cfg b \<and> b_inflight b1 = b_inflight b \<and> b_active b1 = b_active b \<and>
  b_done b1 = b_done b \<and> b_err b1 = b_err b \<and> b_isServer b1 = b_isServer b"
  by (auto simp: next_werr_def split: list.splits)

lemma b_legal_set:
  assumes "next_werr b = (x, b1)" and "uses V K e (b_sess b1) s"
  shows "b_legal V K e b (b1\<lparr>b_sess := s\<rparr>)"
  using next_werr_same [OF assms(1)] assms(2) by (intro b_legalI) simp_all

lemma b_legal_writes:
  "b_write V b w msg = Some (r, b') \<Longrightarrow> w < length (sends (b_sess b)) \<Longrightarrow> length msg < 2 ^ 63 \<Longrightarrow> b_legal V K e b b'"
  "b_close_send V b w = Some (r, b') \<Longrightarrow> w < length (sends (b_sess b)) \<Longrightarrow> b_legal V K e b b'"
  "b_close_stream V b st = Some (r, b') \<Longrightarrow> src_ok (b_sess b) (SrcStream st) \<Longrightarrow> b_legal V K e b b'"
  by (auto simp: b_write_def b_close_send_def b_close_stream_def next_werr_same split: prod.splits
      intro!: b_legal_set elim: uses_write [simplified] uses_close_send uses_close_stream)

lemma b_legal_finish [simp]:
  "b_legal V K e b (finish b err)" "b_legal V K e b (fail b err2)" "b_legal V K e b (completeOne b)"
  by (auto intro!: b_legalI simp: finish_def fail_def completeOne_def Let_def)

lemma b_legal_mirror: "b_legal V K e b (mirror b baton raw)"
proof -
  have "uses V K e s (snd (SendDatagram s raw x))" for s x
    by (rule uses_datagrams(1) [of s raw x "fst (SendDatagram s raw x)"]) simp
  then have "SendDatagram s raw x = (r, s') \<Longrightarrow> uses V K e s s' \<and> uses V K e s (Session_Flush s')" for s x r s'
    using uses_trans [OF _ uses_flush] by (metis snd_conv)
  then show ?thesis by (auto simp: mirror_def intro: b_legal_set split: prod.splits option.splits)
qed

lemma b_flush_legal: "b_flush b = Some (r, b') \<Longrightarrow> b_legal V K e b b'"
  by (auto simp: b_flush_def intro!: b_legalI uses_flush)

lemma and_then_legal:
  assumes "and_then m f = Some (r, b')" and "session_ok (b_sess b)"
    and "\<And>r1 b1. m = Some (r1, b1) \<Longrightarrow> b_legal V K e b b1"
    and "\<And>b1. m = Some (None, b1) \<Longrightarrow> f b1 = Some (r, b') \<Longrightarrow> b_legal V K e b b1 \<Longrightarrow> session_ok (b_sess b1) \<Longrightarrow>
      b_legal V K e b1 b'"
  shows "b_legal V K e b b'"
proof -
  obtain r1 b1 where m: "m = Some (r1, b1)" using assms(1) by (cases m) (auto simp: and_then_def)
  then have l: "b_legal V K e b b1" by (rule assms(3))
  show ?thesis
  proof (cases r1)
    case None
    with m assms(1) have "f b1 = Some (r, b')" by (simp add: and_then_def)
    with None m l assms(4) b_legal_ok [OF l assms(2)] have "b_legal V K e b1 b'" by blast
    with l show ?thesis using assms(2) by (rule b_legal_trans)
  next
    case (Some err)
    with m assms(1) have "b' = b1" by (simp add: and_then_def)
    with l show ?thesis by simp
  qed
qed

lemma and_then_flush_legal:
  assumes "and_then m b_flush = Some (r, b')" and "session_ok (b_sess b)"
    and "\<And>r1 b1. m = Some (r1, b1) \<Longrightarrow> b_legal V K e b b1"
  shows "b_legal V K e b b'"
  using assms(1,2) by (rule and_then_legal) (auto intro: assms(3) b_flush_legal)

lemma b_legal_sends:
  assumes "b_legal V K e b b'" and "session_ok (b_sess b)" and "w < length (sends (b_sess b))"
  shows "w < length (sends (b_sess b'))"
  using assms uses_lengths [of V K e "b_sess b" "b_sess b'"] by (auto simp: b_legal_def)

lemma write_close_legal:
  assumes "and_then (b_write V b w msg) (\<lambda>b1. b_close_send V b1 w) = Some (r, b')"
    and "session_ok (b_sess b)" and "w < length (sends (b_sess b))" and "length msg < 2 ^ 63"
  shows "b_legal V K e b b'"
  using assms(1,2)
proof (rule and_then_legal)
  show "b_legal V K e b b1" if "b_write V b w msg = Some (r1, b1)" for r1 b1
    using that assms(3,4) by (rule b_legal_writes(1))
  show "b_legal V K e b1 b'" if "b_close_send V b1 w = Some (r, b')" "b_legal V K e b b1" for b1
    using that(1) b_legal_sends [OF that(2) assms(2,3)] by (rule b_legal_writes(2))
qed

lemma OpenStream_src: "OpenStream s = (Inr st, s') \<Longrightarrow> src_ok s' (SrcStream st)"
  by (auto simp: OpenStream_def newStream_def newReceiveStream_def newSendStream_def Let_def
      split: if_splits prod.splits sum.splits)

lemma b_legal_sess: "uses V K e (b_sess b) s \<Longrightarrow> b_legal V K e b (b\<lparr>b_sess := s\<rparr>)"
  by (rule b_legalI) simp_all

lemma sendUniMsg_legal:
  assumes "sendUniMsg V b msg = Some (r, b')" and "session_ok (b_sess b)" and "length msg < 2 ^ 63"
  shows "b_legal V K e b b'"
proof -
  obtain x s where o: "OpenUnidirectionalStream (b_sess b) = (x, s)" by fastforce
  have l: "b_legal V K e b (b\<lparr>b_sess := s\<rparr>)" using uses_open(2) [OF o] by (rule b_legal_sess)
  show ?thesis
  proof (cases x)
    case (Inl err)
    with assms(1) o l show ?thesis by (simp add: sendUniMsg_def)
  next
    case (Inr w)
    with assms(1) o have "and_then (and_then (b_write V (b\<lparr>b_sess := s\<rparr>) w msg) (\<lambda>b1. b_close_send V b1 w)) b_flush = Some (r, b')"
      by (simp add: sendUniMsg_def)
    then have "b_legal V K e (b\<lparr>b_sess := s\<rparr>) b'"
      using b_legal_ok [OF l assms(2)]
    proof (rule and_then_flush_legal)
      show "b_legal V K e (b\<lparr>b_sess := s\<rparr>) b1"
        if "and_then (b_write V (b\<lparr>b_sess := s\<rparr>) w msg) (\<lambda>b1. b_close_send V b1 w) = Some (r1, b1)" for r1 b1
        using that b_legal_ok [OF l assms(2)] OpenUni_sends o Inr assms(3) by (intro write_close_legal) simp_all
    qed
    with l show ?thesis using assms(2) by (rule b_legal_trans)
  qed
qed

lemma sendOnNewBidi_legal:
  assumes "sendOnNewBidi V b msg baton = Some (r, b')" and "session_ok (b_sess b)" and "length msg < 2 ^ 63"
  shows "b_legal V K e b b'"
proof -
  obtain x s where o: "OpenStream (b_sess b) = (x, s)" by fastforce
  have l: "b_legal V K e b (b\<lparr>b_sess := s\<rparr>)" using uses_open(1) [OF o] by (rule b_legal_sess)
  have ok: "session_ok (b_sess (b\<lparr>b_sess := s\<rparr>))" using b_legal_ok [OF l assms(2)] .
  show ?thesis
  proof (cases x)
    case (Inl err)
    with assms(1) o l show ?thesis by (simp add: sendOnNewBidi_def)
  next
    case (Inr st)
    let ?b0 = "b\<lparr>b_sess := s\<rparr>" and ?w = "st_send st"
    have src: "src_ok s (SrcStream st)" using OpenStream_src o Inr by simp
    let ?f = "\<lambda>b2. if baton = 0 then Some (None, b2\<lparr>b_sess := ReceiveStream_Close (b_sess b2) (st_recv st)\<rparr>)
                  else Some (None, track b2 (SrcStream st) kindSelfBidi)"
    from assms(1) o Inr have "and_then (and_then (and_then (b_write V ?b0 ?w msg) (\<lambda>b1. b_close_send V b1 ?w)) b_flush) ?f = Some (r, b')"
      by (simp add: sendOnNewBidi_def)
    then have "b_legal V K e ?b0 b'"
    proof (rule and_then_legal [OF _ ok])
      show "b_legal V K e ?b0 b1"
        if "and_then (and_then (b_write V ?b0 ?w msg) (\<lambda>b1. b_close_send V b1 ?w)) b_flush = Some (r1, b1)" for r1 b1
        using that ok
      proof (rule and_then_flush_legal)
        show "b_legal V K e ?b0 b2" if "and_then (b_write V ?b0 ?w msg) (\<lambda>b1. b_close_send V b1 ?w) = Some (r2, b2)" for r2 b2
          using that ok src assms(3) by (intro write_close_legal) auto
      qed
      show "b_legal V K e b2 b'" if f: "?f b2 = Some (r, b')" and l2: "b_legal V K e ?b0 b2" for b2
      proof -
        have s2: "src_ok (b_sess b2) (SrcStream st)" using b_legal_src [OF l2 ok, of "SrcStream st"] src by simp
        then have "uses V K e (b_sess b2) (ReceiveStream_Close (b_sess b2) (st_recv st))"
          by (intro uses_close_recv) simp
        with f s2 show ?thesis
          by (auto simp: b_legal_def track_def split: if_splits)
      qed
    qed
    with l show ?thesis using assms(2) by (rule b_legal_trans)
  qed
qed

context varint_codec
begin

lemma baton_message_length:
  assumes "baton_message V b x = Some msg" and "Padding (b_cfg b) < 2 ^ 62"
  shows "length msg < 2 ^ 63"
proof -
  obtain h where "vappend V (of_nat (nat (Padding (b_cfg b)))) = Some h"
    "msg = h @ replicate (nat (Padding (b_cfg b))) 0 @ [x]"
    using assms(1) by (auto simp: baton_message_def encodeBaton_def split: if_splits)
  with append_nonempty [of _ h] have "length msg \<le> 8 + nat (Padding (b_cfg b)) + 1" by fastforce
  moreover have "nat (Padding (b_cfg b)) < 2 ^ 62" using assms(2) by simp
  ultimately show ?thesis by simp
qed

lemma sendNext_legal:
  assumes "sendNext V b baton kind src = Some (r, b')" and ok: "session_ok (b_sess b)"
    and "src_ok (b_sess b) src" and pad: "Padding (b_cfg b) < 2 ^ 62"
  shows "b_legal V K e b b'"
proof -
  obtain msg where msg: "baton_message V b baton = Some msg" using assms(1) by (auto simp: sendNext_def split: option.splits)
  have len: "length msg < 2 ^ 63" using baton_message_length [OF msg pad] .
  have reply: "b_legal V K e b b2"
    if "and_then (b_write V b (st_send st) msg) (\<lambda>b1. b_close_stream V b1 st) = Some (r2, b2)" "src = SrcStream st" for st r2 b2
    using that(1) ok
  proof (rule and_then_legal)
    show "b_legal V K e b b1" if "b_write V b (st_send st) msg = Some (r1, b1)" for r1 b1
      using that assms(3) len \<open>src = SrcStream st\<close> by (intro b_legal_writes(1)) auto
    show "b_legal V K e b1 b2" if c: "b_close_stream V b1 st = Some (r2, b2)" and l: "b_legal V K e b b1" for b1
      using c b_legal_src [OF l ok assms(3)] \<open>src = SrcStream st\<close> by (intro b_legal_writes(3)) simp_all
  qed
  have peer: "b_legal V K e b b2"
    if "and_then (and_then (b_write V b (st_send st) msg) (\<lambda>b1. b_close_stream V b1 st)) b_flush = Some (r2, b2)"
      "src = SrcStream st" for st r2 b2
    using that(1) ok by (rule and_then_flush_legal) (rule reply [OF _ that(2)])
  from assms(1) msg show ?thesis
    unfolding sendNext_def
    by (simp, elim and_then_legal [OF _ ok])
      (auto split: streamKind.splits readerCloser.splits
        elim: sendOnNewBidi_legal [OF _ ok len] sendUniMsg_legal [OF _ ok len] peer)
qed

lemma afterReceive_legal:
  assumes "afterReceive V b baton raw kind src = Some b'" and ok: "session_ok (b_sess b)"
    and "src_ok (b_sess b) src" and "Padding (b_cfg b) < 2 ^ 62"
  shows "b_legal V K e b b'"
proof -
  let ?b1 = "mirror b baton raw"
  have l: "b_legal V K e b ?b1" by (rule b_legal_mirror)
  have ok1: "session_ok (b_sess ?b1)" "src_ok (b_sess ?b1) src" "Padding (b_cfg ?b1) < 2 ^ 62"
    using b_legal_ok [OF l ok] b_legal_src [OF l ok assms(3)] l assms(4) by (simp_all add: b_legal_def)
  have "b_legal V K e ?b1 b'"
  proof (cases "baton = 0")
    case True
    let ?b2 = "completeOne ?b1"
    have l2: "b_legal V K e ?b1 ?b2" by simp
    have "b_legal V K e ?b2 b'"
      using assms(1) True b_legal_src [OF l2 ok1(1,2)]
      by (auto simp: afterReceive_def Let_def split: streamKind.splits readerCloser.splits
          elim!: b_legal_writes(3))
    with l2 show ?thesis using ok1(1) b_legal_trans by blast
  next
    case False
    then obtain r b2 where n: "sendNext V ?b1 (baton + 1) kind src = Some (r, b2)" "b' = b2 \<or> (\<exists>err. b' = fail b2 err)"
      using assms(1) by (auto simp: afterReceive_def Let_def split: option.splits prod.splits)
    have "b_legal V K e ?b1 b2" using n(1) ok1 by (rule sendNext_legal)
    moreover have "b_legal V K e b2 b'" using n(2) by auto
    ultimately show ?thesis using ok1(1) b_legal_trans by blast
  qed
  with l show ?thesis using ok b_legal_trans by blast
qed

lemma handleIncoming_legal:
  assumes "handleIncoming V sz b src kind = Some b'" and ok: "session_ok (b_sess b)"
    and "src_ok (b_sess b) src" and "Padding (b_cfg b) < 2 ^ 62"
  shows "b_legal V K e b b'"
proof -
  let ?r = "src_recv src"
  have r: "?r < length (recvs (b_sess b))" using assms(3) by (cases src) simp_all
  obtain data buf where d: "srb_ReadAll sz 0 (recvBuffer (recvs (b_sess b) ! ?r)) = Some (data, buf)"
    using assms(1) by (auto simp: handleIncoming_def Let_def split: option.splits)
  let ?b1 = "b\<lparr>b_sess := upd_recv (b_sess b) ?r (\<lambda>st. st\<lparr>recvBuffer := buf\<rparr>)\<rparr>"
  have l: "b_legal V K e b ?b1" using uses_ReadAll [OF d r] by (rule b_legal_sess)
  have ok1: "session_ok (b_sess ?b1)" "src_ok (b_sess ?b1) src" "Padding (b_cfg ?b1) < 2 ^ 62"
    using b_legal_ok [OF l ok] b_legal_src [OF l ok assms(3)] assms(4) by simp_all
  have "b_legal V K e ?b1 b'"
    using assms(1) d afterReceive_legal [OF _ ok1]
    by (auto simp: handleIncoming_def Let_def split: sum.splits)
  with l show ?thesis using ok b_legal_trans by blast
qed

lemma send_batons_legal:
  "send_batons V n b x = Some (r, b') \<Longrightarrow> session_ok (b_sess b) \<Longrightarrow> Padding (b_cfg b) < 2 ^ 62 \<Longrightarrow> b_legal V K e b b'"
proof (induction n arbitrary: b)
  case (Suc n)
  from Suc.prems(1) have "and_then (sendUni V b x) (\<lambda>b1. send_batons V n b1 x) = Some (r, b')" by simp
  then show ?case
  proof (rule and_then_legal [OF _ Suc.prems(2)])
    show "b_legal V K e b b1" if "sendUni V b x = Some (r1, b1)" for r1 b1
      using that Suc.prems baton_message_length
      by (auto simp: sendUni_def split: option.splits elim!: sendUniMsg_legal)
    show "b_legal V K e b1 b'" if "send_batons V n b1 x = Some (r, b')" "b_legal V K e b b1" "session_ok (b_sess b1)" for b1
      using Suc.IH [OF that(1,3)] that(2) Suc.prems(3) by (simp add: b_legal_def)
  qed
qed simp

lemma setup_legal:
  assumes "baton_setup V rnd b = Some (r, b')" and "session_ok (b_sess b)" and "Padding (b_cfg b) < 2 ^ 62"
  shows "b_legal V K e b b'"
proof -
  have "b_legal V K e b b'" if "send_batons V n (b\<lparr>b_cfg := (b_cfg b)\<lparr>Baton := x\<rparr>\<rparr>) x = Some (r, b')" for n x
    using send_batons_legal [OF that] assms(2,3) by (simp add: b_legal_def)
  with assms send_batons_legal show ?thesis
    by (auto simp: baton_setup_def Let_def split: if_splits sum.splits)
qed

end

section \<open>Runs\<close>

text \<open>The state of a run: whether a server has yet to set up, and the baton session.\<close>

type_synonym baton_state = "bool \<times> batonSession"

inductive baton_step ::
  "varint_ops \<Rightarrow> capsule_ops \<Rightarrow> go_err \<Rightarrow> baton_state \<times> loop_pc \<Rightarrow> baton_state \<times> loop_pc \<Rightarrow> bool"
  for V K e where
  server_setup: "baton_setup V rnd b = Some (r, b') \<Longrightarrow>
    baton_step V K e ((True, b), pc) ((False, case r of None \<Rightarrow> b' | Some err \<Rightarrow> fail b' err), pc)"
| handler: "i < length (b_inflight b) \<Longrightarrow> b_inflight b ! i = (src, kind) \<Longrightarrow>
    handleIncoming V sz (b\<lparr>b_inflight := take i (b_inflight b) @ drop (Suc i) (b_inflight b)\<rparr>) src kind = Some b' \<Longrightarrow>
    baton_step V K e ((u, b), pc) ((u, b'), pc)"
| accept_bidi: "acceptBidi_iter k ctx b = Some (go, b') \<Longrightarrow> baton_step V K e ((u, b), pc) ((u, b'), pc)"
| accept_uni: "acceptUni_iter k ctx b = Some (go, b') \<Longrightarrow> baton_step V K e ((u, b), pc) ((u, b'), pc)"
| datagram: "ReceiveDatagram_poll (b_sess b) = (Some (Inr p), s') \<Longrightarrow>
    baton_step V K e ((u, b), pc) ((u, handleDatagram V (b\<lparr>b_sess := s'\<rparr>) p), pc)"
| cancelled: "err \<in> {ContextCanceled, ContextDeadlineExceeded} \<Longrightarrow> Run_select k (Some err) b = Some b' \<Longrightarrow>
    baton_step V K e ((u, b), pc) ((u, b'), pc)"
| session: "session_step V K e (b_sess b, pc) (s', pc') \<Longrightarrow>
    baton_step V K e ((u, b), pc) ((u, b\<lparr>b_sess := s'\<rparr>), pc')"

definition baton_start :: "Session \<Rightarrow> bool \<Rightarrow> Config \<Rightarrow> go_err option list \<Rightarrow> baton_state" where
  "baton_start sess srv cfg ws = (srv, Run_start sess srv cfg ws)"

lemma Run_select_cases: "Run_select k (Some err) b = Some b' \<Longrightarrow> b' = b \<or> b' = fail b err"
  unfolding Run_select_def by (drule select_ready_in) (auto split: if_splits)

lemma accept_legal:
  assumes "session_ok (b_sess b)"
  shows "acceptBidi_iter k ctx b = Some (go, b') \<Longrightarrow> b_legal V K e b b'"
    and "acceptUni_iter k ctx b = Some (go, b') \<Longrightarrow> b_legal V K e b b'"
proof -
  have q: "\<forall>st\<in>set (incomingStreams (b_sess b)). src_ok (b_sess b) (SrcStream st)"
    "\<forall>r\<in>set (incomingUnidirectionalStreams (b_sess b)). src_ok (b_sess b) (SrcReceive r)"
    using assms by (auto simp: session_ok_def queues_ok_def incoming_stream_ok_def stream_ok_def recv_ok_def points_def)
  have a: "src_ok s' (SrcStream st)" if "AcceptStream k ctx (b_sess b) = Some (Inr st, s')" for st s'
    using q(1) Accept_queued(1) [OF that] src_ok_uses [OF uses_accept(1) [OF that] assms] by blast
  have r: "src_ok s' (SrcReceive x)" if "AcceptUnidirectionalStream k ctx (b_sess b) = Some (Inr x, s')" for x s'
    using q(2) Accept_queued(2) [OF that] src_ok_uses [OF uses_accept(2) [OF that] assms] by blast
  show "acceptBidi_iter k ctx b = Some (go, b') \<Longrightarrow> b_legal V K e b b'"
    using a uses_accept(1) by (auto simp: acceptBidi_iter_def b_legal_def track_def split: option.splits sum.splits)
  show "acceptUni_iter k ctx b = Some (go, b') \<Longrightarrow> b_legal V K e b b'"
    using r uses_accept(2) by (auto simp: acceptUni_iter_def b_legal_def track_def split: option.splits sum.splits)
qed

lemma removed_refs:
  assumes "baton_refs b" and "i < length (b_inflight b)" and "b_inflight b ! i = (src, kind)"
  shows "baton_refs (b\<lparr>b_inflight := take i (b_inflight b) @ drop (Suc i) (b_inflight b)\<rparr>) \<and> src_ok (b_sess b) src"
  using assms nth_mem [OF assms(2)]
  by (auto simp: baton_refs_def dest: in_set_takeD in_set_dropD)

lemma b_legal_uses:
  assumes "b_legal V K e b b'" and "session_ok (b_sess b)" and "baton_refs b"
  shows "session_reach V K e (b_sess b, pc) (b_sess b', pc) \<and> baton_refs b'"
  using b_legal_refs [OF assms] assms(1) by (simp add: b_legal_def uses_def)

lemma baton_step_legal:
  assumes "varint_codec V" and "baton_step V K e (x, pc) (x', pc')"
    and "session_ok (b_sess (snd x))" and "pc_ok (b_sess (snd x)) pc" and "baton_refs (snd x)"
  shows "session_reach V K e (b_sess (snd x), pc) (b_sess (snd x'), pc') \<and> baton_refs (snd x')"
  using assms(2)
proof (cases rule: baton_step.cases)
  case (server_setup rnd b r b')
  have ok: "session_ok (b_sess b)" "baton_refs b" "Padding (b_cfg b) < 2 ^ 62"
    using server_setup assms(3,5) by (simp_all add: baton_refs_def)
  have "baton_setup V rnd b = Some (r, b')" using server_setup by simp
  from varint_codec.setup_legal [OF assms(1) this ok(1,3)] have l: "b_legal V K e b b'" .
  then have "b_legal V K e b (case r of None \<Rightarrow> b' | Some err \<Rightarrow> fail b' err)"
    using b_legal_trans [OF l _ ok(1)] by (auto split: option.splits)
  from b_legal_uses [OF this ok(1,2)] server_setup show ?thesis by simp
next
  case (handler i b src kind sz b' u)
  let ?b0 = "b\<lparr>b_inflight := take i (b_inflight b) @ drop (Suc i) (b_inflight b)\<rparr>"
  have r: "baton_refs ?b0" "src_ok (b_sess b) src"
    using removed_refs [of b i src kind] handler assms(5) by simp_all
  have ok: "session_ok (b_sess ?b0)" using handler assms(3) by simp
  have "handleIncoming V sz ?b0 src kind = Some b'" using handler by simp
  from varint_codec.handleIncoming_legal [OF assms(1) this ok] r have "b_legal V K e ?b0 b'"
    by (simp add: baton_refs_def)
  from b_legal_uses [OF this ok r(1)] handler show ?thesis by simp
next
  case (accept_bidi k ctx b go b' u)
  then show ?thesis using b_legal_uses [OF accept_legal(1)] assms(3,5) by auto
next
  case (accept_uni k ctx b go b' u)
  then show ?thesis using b_legal_uses [OF accept_legal(2)] assms(3,5) by auto
next
  case (datagram b p s' u)
  let ?b1 = "b\<lparr>b_sess := s'\<rparr>"
  have ok: "session_ok (b_sess b)" "baton_refs b" using datagram assms(3,5) by simp_all
  have "ReceiveDatagram_poll (b_sess b) = (Some (Inr p), s')" using datagram by simp
  from b_legal_sess [OF uses_datagrams(2) [OF this]] have l: "b_legal V K e b ?b1" .
  have "b_legal V K e ?b1 (handleDatagram V ?b1 p)" by (simp add: handleDatagram_def split: sum.splits)
  then have "b_legal V K e b (handleDatagram V ?b1 p)" using b_legal_trans [OF l _ ok(1)] by simp
  from b_legal_uses [OF this ok] datagram show ?thesis by simp
next
  case (cancelled err k b b' u)
  then have "b_legal V K e b b'" using Run_select_cases [of k err b b'] b_legal_finish(2) by auto
  with cancelled show ?thesis using b_legal_uses assms(3,5) by auto
next
  case (session b s' u)
  then have st: "session_step V K e (b_sess b, pc) (s', pc')" by simp
  have "grows (b_sess b) s'" using step_evolves [OF st] by (simp add: evolves_def)
  then have "length (recvs (b_sess b)) \<le> length (recvs s')" "length (sends (b_sess b)) \<le> length (sends s')"
    using grows_lengths by blast+
  then have "src_ok s' src" if "src_ok (b_sess b) src" for src using src_ok_mono [OF that, of s'] by simp
  then have "baton_refs (b\<lparr>b_sess := s'\<rparr>)" using assms(5) session by (auto simp: baton_refs_def)
  then show ?thesis using session st by (auto intro: session_reach.intros)
qed

lemma baton_client:
  assumes "varint_codec V"
  shows "session_client V K e (baton_step V K e) (b_sess \<circ> snd) (baton_refs \<circ> snd)"
  by unfold_locales (use baton_step_legal [OF assms] in \<open>fastforce+\<close>)

interpretation baton: session_client quicwire_varint K e "baton_step quicwire_varint K e" "b_sess \<circ> snd" "baton_refs \<circ> snd"
  for K e
  by (rule baton_client) (rule qw.varint_codec_axioms)



section \<open>How a run ends\<close>

abbreviation status :: "batonSession \<Rightarrow> int \<times> bool \<times> go_err option" where
  "status b \<equiv> (b_active b, b_done b, b_err b)"

lemma status_writes:
  "b_write V b w msg = Some (r, b') \<Longrightarrow> status b' = status b"
  "b_close_send V b w = Some (r, b') \<Longrightarrow> status b' = status b"
  "b_close_stream V b st = Some (r, b') \<Longrightarrow> status b' = status b"
  by (auto simp: b_write_def b_close_send_def b_close_stream_def dest!: next_werr_same split: prod.splits)

lemma status_mirror: "status (mirror b baton raw) = status b"
  by (auto simp: mirror_def dest!: next_werr_same split: prod.splits option.splits)

lemma status_flush: "b_flush b = Some (r, b') \<Longrightarrow> status b' = status b"
  by (auto simp: b_flush_def)

lemma status_and_then:
  assumes "and_then m f = Some (r, b')" and "\<And>r b1. m = Some (r, b1) \<Longrightarrow> status b1 = status b"
    and "\<And>b1 r. m = Some (None, b1) \<Longrightarrow> f b1 = Some (r, b') \<Longrightarrow> status b' = status b1"
  shows "status b' = status b"
  using assms by (auto simp: and_then_def split: option.splits)

lemma status_messages:
  "sendUniMsg V b msg = Some (r, b') \<Longrightarrow> status b' = status b"
  "sendOnNewBidi V b msg x = Some (r, b') \<Longrightarrow> status b' = status b"
  "and_then (and_then (b_write V b w msg) (\<lambda>b1. b_close_stream V b1 st)) b_flush = Some (r, b') \<Longrightarrow> status b' = status b"
proof -
  have wc: "and_then (and_then (b_write V c w msg) (\<lambda>b1. b_close_send V b1 w)) b_flush = Some (r1, c1) \<Longrightarrow> status c1 = status c" for c w r1 c1
    by (erule status_and_then, erule status_and_then) (auto dest: status_writes status_flush)
  show "sendUniMsg V b msg = Some (r, b') \<Longrightarrow> status b' = status b"
    by (auto simp: sendUniMsg_def split: prod.splits sum.splits dest!: wc)
  show "sendOnNewBidi V b msg x = Some (r, b') \<Longrightarrow> status b' = status b"
    by (auto simp: sendOnNewBidi_def and_then_def track_def
        split: prod.splits sum.splits option.splits if_splits dest!: status_writes status_flush)
  show "and_then (and_then (b_write V b w msg) (\<lambda>b1. b_close_stream V b1 st)) b_flush = Some (r, b') \<Longrightarrow> status b' = status b"
    by (erule status_and_then, erule status_and_then) (auto dest: status_writes status_flush)
qed

lemma status_sendNext:
  assumes "sendNext V b x kind src = Some (r, b')"
  shows "status b' = (if r = None \<and> x = 0 then status (completeOne b) else status b)"
proof -
  obtain msg where msg: "baton_message V b x = Some msg" using assms by (auto simp: sendNext_def split: option.splits)
  let ?m = "case kind of kindUni \<Rightarrow> sendOnNewBidi V b msg x | kindDatagram \<Rightarrow> sendOnNewBidi V b msg x
     | kindPeerBidi \<Rightarrow> (case src of
          SrcStream st \<Rightarrow> and_then (and_then (b_write V b (st_send st) msg) (\<lambda>b1. b_close_stream V b1 st)) b_flush
        | SrcReceive r \<Rightarrow> Some (Some (ErrorsNew ''peer-bidi source is not a bidirectional stream''), b))
     | kindSelfBidi \<Rightarrow> sendUniMsg V b msg"
  have m: "status b1 = status b" if "?m = Some (r1, b1)" for r1 b1
    using that by (auto split: streamKind.splits readerCloser.splits dest!: status_messages)
  have "and_then ?m (\<lambda>b1. Some (None, if x = 0 then completeOne b1 else b1)) = Some (r, b')"
    using assms msg by (simp add: sendNext_def)
  then obtain r1 b1 where b1: "?m = Some (r1, b1)" "r = r1"
    "b' = (if r = None \<and> x = 0 then completeOne b1 else b1)"
    by (auto simp: and_then_def split: option.split_asm)
  from m [OF b1(1)] b1(3) show ?thesis
    by (auto simp: completeOne_def finish_def Let_def)
qed

text \<open>Everything a run does to its status: complete a baton, fail, or leave it alone.\<close>

definition moves :: "batonSession \<Rightarrow> batonSession \<Rightarrow> bool" where
  "moves b b' \<longleftrightarrow> status b' = status b \<or> status b' = status (completeOne b) \<or> (\<exists>err. status b' = status (fail b err))"

lemma status_fail: "status b1 = status b \<Longrightarrow> status (fail b1 err) = status (fail b err)"
  by (simp add: fail_def finish_def Let_def)

lemma status_completeOne: "status b1 = status b \<Longrightarrow> status (completeOne b1) = status (completeOne b)"
  by (simp add: completeOne_def finish_def Let_def)

lemma moves_from: "status b1 = status b \<Longrightarrow> moves b1 b' \<Longrightarrow> moves b b'"
  unfolding moves_def using status_fail status_completeOne by metis

lemma moves_afterReceive:
  assumes "afterReceive V b baton raw kind src = Some b'"
  shows "moves b b'"
proof (cases "baton = 0")
  case True
  then have "status b' = status (completeOne (mirror b baton raw))"
    using assms
    by (auto simp: afterReceive_def Let_def split: streamKind.splits readerCloser.splits dest!: status_writes(3))
  then show ?thesis
    using status_completeOne [OF status_mirror [of b baton raw]] by (simp add: moves_def)
next
  case False
  then obtain r b2 where n: "sendNext V (mirror b baton raw) (baton + 1) kind src = Some (r, b2)"
    "b' = (case r of None \<Rightarrow> b2 | Some err \<Rightarrow> fail b2 err)"
    using assms by (auto simp: afterReceive_def Let_def split: option.splits prod.splits)
  note s = status_sendNext [OF n(1)] status_mirror [of b baton raw] status_completeOne [OF status_mirror [of b baton raw]]
  show ?thesis
  proof (cases r)
    case None
    with n(2) s show ?thesis by (auto simp: moves_def split: if_splits)
  next
    case (Some err)
    with s have "status b2 = status b" by simp
    from status_fail [OF this] Some n(2) show ?thesis by (auto simp: moves_def)
  qed
qed

lemma moves_handleIncoming:
  assumes "handleIncoming V sz b src kind = Some b'"
  shows "moves b b'"
proof -
  obtain b1 where b1: "status b1 = status b"
    "(\<exists>err. b' = fail b1 err) \<or> (\<exists>x d. afterReceive V b1 x d kind src = Some b')"
    using assms that [of "b\<lparr>b_sess := _\<rparr>"]
    by (fastforce simp: handleIncoming_def Let_def split: option.splits sum.splits)
  from b1(2) show ?thesis
  proof (elim disjE exE)
    fix err assume "b' = fail b1 err"
    with status_fail [OF b1(1)] show ?thesis by (auto simp: moves_def)
  next
    fix x d assume "afterReceive V b1 x d kind src = Some b'"
    then have "moves b1 b'" by (rule moves_afterReceive)
    with b1(1) show ?thesis by (rule moves_from)
  qed
qed

lemma status_setup:
  assumes "baton_setup V rnd b = Some (r, b')"
  shows "status b' = status b"
proof -
  have "send_batons V n c x = Some (r, b') \<Longrightarrow> status b' = status c" for n c x
  proof (induction n arbitrary: c)
    case (Suc n)
    then show ?case
      by (auto simp: and_then_def sendUni_def split: option.splits dest!: status_messages(1))
  qed simp
  with assms show ?thesis
    by (fastforce simp: baton_setup_def Let_def split: if_splits sum.splits)
qed

definition settled :: "batonSession \<Rightarrow> bool" where
  "settled b \<longleftrightarrow> (b_done b \<longleftrightarrow> b_active b \<le> 0 \<or> b_err b \<noteq> None)"

lemma settled_moves: "moves b b' \<Longrightarrow> settled b \<Longrightarrow> settled b'"
  by (auto simp: moves_def settled_def completeOne_def fail_def finish_def Let_def split: if_splits)

lemma baton_step_moves:
  assumes "baton_step V K e (x, pc) (x', pc')"
  shows "moves (snd x) (snd x')"
  using assms
proof (cases rule: baton_step.cases)
  case (server_setup rnd b r b')
  then have s: "status b' = status b" using status_setup by simp
  show ?thesis using server_setup s status_fail [OF s] by (auto simp: moves_def split: option.splits)
next
  case (handler i b src kind sz b' u)
  then have "moves (b\<lparr>b_inflight := take i (b_inflight b) @ drop (Suc i) (b_inflight b)\<rparr>) b'"
    using moves_handleIncoming by blast
  then have "moves b b'" by (rule moves_from [rotated]) simp
  then show ?thesis using handler by simp
next
  case (cancelled err k b b' u)
  then show ?thesis using Run_select_cases [of k err b b'] by (auto simp: moves_def)
qed (auto simp: moves_def acceptBidi_iter_def acceptUni_iter_def handleDatagram_def track_def fail_def finish_def Let_def
    split: option.splits sum.splits)



end
