(* ===== verification/Baton_Game.thy ===== *)
theory Baton_Game
  imports Baton_Run
begin

text \<open>
  What a baton session says to its peer, and how a game between two of them ends. The first part shows
  which message \<^verbatim>\<open>afterReceive\<close> puts on which stream; the second plays the game on those
  messages alone; the third takes \<^verbatim>\<open>finish\<close> apart into the steps other goroutines can interleave with.
\<close>

section \<open>The messages of a peer\<close>

lemma b_write_ok:
  assumes "b_write V b w msg = Some (None, b')"
  shows "\<exists>hdr. vappend V (ss_ID (sends (b_sess b) ! w)) = Some hdr \<and>
    written (b_sess b') = written (b_sess b) @ [(CapsuleWTStream, hdr @ msg)] \<and> sends (b_sess b') = sends (b_sess b)"
  using assms
  by (auto simp: b_write_def SendStream_Write_def writeCapsule_def Let_def dest!: next_werr_same
      split: prod.splits if_splits option.splits)

lemma b_close_send_ok:
  assumes "b_close_send V b w = Some (None, b')" and "\<not> ss_closed (sends (b_sess b) ! w)"
  shows "\<exists>hdr. vappend V (ss_ID (sends (b_sess b) ! w)) = Some hdr \<and>
    written (b_sess b') = written (b_sess b) @ [(CapsuleWTStreamFin, hdr)]"
  using assms
  by (auto simp: b_close_send_def SendStream_Close_def writeCapsule_def upd_send_def Let_def dest!: next_werr_same
      split: prod.splits if_splits option.splits)

lemma ReceiveStream_Close_same [simp]:
  "sends (ReceiveStream_Close s r) = sends s" "written (ReceiveStream_Close s r) = written s"
  by (simp_all add: ReceiveStream_Close_def upd_recv_def)

lemma b_close_stream_ok:
  assumes "b_close_stream V b st = Some (None, b')" and "\<not> ss_closed (sends (b_sess b) ! st_send st)"
  shows "\<exists>hdr. vappend V (ss_ID (sends (b_sess b) ! st_send st)) = Some hdr \<and>
    written (b_sess b') = written (b_sess b) @ [(CapsuleWTStreamFin, hdr)]"
  using assms
  by (auto simp: b_close_stream_def Stream_Close_def SendStream_Close_def writeCapsule_def upd_send_def Let_def
      dest!: next_werr_same split: prod.splits if_splits option.splits)

text \<open>A whole message on one stream: the data and the end of it.\<close>

definition sent_on :: "varint_ops \<Rightarrow> Session \<Rightarrow> Session \<Rightarrow> stream_id \<Rightarrow> bytes \<Rightarrow> bool" where
  "sent_on V s s' sid msg \<longleftrightarrow>
     (\<exists>hdr. vappend V sid = Some hdr \<and>
        written s' = written s @ [(CapsuleWTStream, hdr @ msg), (CapsuleWTStreamFin, hdr)])"

lemma write_close_sent:
  assumes "and_then (b_write V b w msg) (\<lambda>b1. b_close_send V b1 w) = Some (None, b')"
    and "\<not> ss_closed (sends (b_sess b) ! w)"
  shows "sent_on V (b_sess b) (b_sess b') (ss_ID (sends (b_sess b) ! w)) msg"
proof -
  obtain b1 where "b_write V b w msg = Some (None, b1)" "b_close_send V b1 w = Some (None, b')"
    using assms(1) by (auto simp: and_then_def split: option.splits)
  with b_write_ok [OF this(1)] b_close_send_ok [OF this(2)] assms(2) show ?thesis
    by (auto simp: sent_on_def)
qed

lemma reply_sent:
  assumes "and_then (b_write V b (st_send st) msg) (\<lambda>b1. b_close_stream V b1 st) = Some (None, b')"
    and "\<not> ss_closed (sends (b_sess b) ! st_send st)"
  shows "sent_on V (b_sess b) (b_sess b') (ss_ID (sends (b_sess b) ! st_send st)) msg"
proof -
  obtain b1 where "b_write V b (st_send st) msg = Some (None, b1)" "b_close_stream V b1 st = Some (None, b')"
    using assms(1) by (auto simp: and_then_def split: option.splits)
  with b_write_ok [OF this(1)] b_close_stream_ok [OF this(2)] assms(2) show ?thesis
    by (auto simp: sent_on_def)
qed

lemma flush_sent:
  assumes "and_then m b_flush = Some (None, b')"
  obtains b1 where "m = Some (None, b1)" and "b' = b1\<lparr>b_sess := Session_Flush (b_sess b1)\<rparr>"
  using assms by (auto simp: and_then_def b_flush_def split: option.splits)

lemma OpenStream_fresh:
  assumes "OpenStream s = (Inr st, s')" and "session_ok s"
  shows "written s' = written s \<and> sends s' ! st_send st = \<lparr>ss_ID = st_ID st, ss_closed = False\<rparr> \<and>
    isOurStream (isServer s) (st_ID st) \<and> isBidirectionalStream (st_ID st)"
proof -
  obtain c l where a: "allocLocalStream (isServer s) (createdStreamCounter s) (limits s) True = (Inr (st_ID st), c, l)"
    using assms(1)
    by (auto simp: OpenStream_def newStream_def newReceiveStream_def newSendStream_def Let_def split: if_splits prod.splits sum.splits)
  have "counter_ok (createdStreamCounter s)" using assms(2) by (simp add: session_ok_def flow_ok_def)
  from alloc_result(2) [OF this a] assms(1) show ?thesis
    by (auto simp: OpenStream_def newStream_def newReceiveStream_def newSendStream_def Let_def split: if_splits prod.splits sum.splits)
qed

lemma OpenUni_fresh:
  assumes "OpenUnidirectionalStream s = (Inr w, s')" and "session_ok s"
  shows "\<exists>sid. written s' = written s \<and> sends s' ! w = \<lparr>ss_ID = sid, ss_closed = False\<rparr> \<and>
    isOurStream (isServer s) sid \<and> \<not> isBidirectionalStream sid"
proof -
  obtain sid c l where a: "allocLocalStream (isServer s) (createdStreamCounter s) (limits s) False = (Inr sid, c, l)"
    using assms(1) by (auto simp: OpenUnidirectionalStream_def split: if_splits prod.splits sum.splits)
  have "counter_ok (createdStreamCounter s)" using assms(2) by (simp add: session_ok_def flow_ok_def)
  from alloc_result(2) [OF this a] assms(1) a show ?thesis
    by (auto simp: OpenUnidirectionalStream_def newSendStream_def Let_def split: if_splits prod.splits sum.splits)
qed

lemma sendUniMsg_sent:
  assumes "sendUniMsg V b msg = Some (None, b')" and "session_ok (b_sess b)"
  shows "\<exists>sid. isOurStream (isServer (b_sess b)) sid \<and> \<not> isBidirectionalStream sid \<and> sent_on V (b_sess b) (b_sess b') sid msg"
proof -
  obtain w s b1 where o: "OpenUnidirectionalStream (b_sess b) = (Inr w, s)"
    "and_then (b_write V (b\<lparr>b_sess := s\<rparr>) w msg) (\<lambda>b1. b_close_send V b1 w) = Some (None, b1)"
    "written (b_sess b') = written (b_sess b1)"
    using assms(1) by (auto simp: sendUniMsg_def split: prod.splits sum.splits elim!: flush_sent)
  obtain sid where sid: "written s = written (b_sess b)" "sends s ! w = \<lparr>ss_ID = sid, ss_closed = False\<rparr>"
    "isOurStream (isServer (b_sess b)) sid" "\<not> isBidirectionalStream sid"
    using OpenUni_fresh [OF o(1) assms(2)] by blast
  from write_close_sent [OF o(2)] sid o(3) show ?thesis by (auto simp: sent_on_def)
qed

lemma sendOnNewBidi_sent:
  assumes "sendOnNewBidi V b msg x = Some (None, b')" and "session_ok (b_sess b)"
  shows "\<exists>sid. isOurStream (isServer (b_sess b)) sid \<and> isBidirectionalStream sid \<and> sent_on V (b_sess b) (b_sess b') sid msg"
proof -
  obtain st s b2 where o: "OpenStream (b_sess b) = (Inr st, s)"
    "and_then (b_write V (b\<lparr>b_sess := s\<rparr>) (st_send st) msg) (\<lambda>b1. b_close_send V b1 (st_send st)) = Some (None, b2)"
    "written (b_sess b') = written (b_sess b2)"
    using assms(1)
    by (auto simp: sendOnNewBidi_def and_then_def track_def b_flush_def split: prod.splits sum.splits option.splits if_splits)
  note f = OpenStream_fresh [OF o(1) assms(2)]
  from write_close_sent [OF o(2)] f o(3) show ?thesis by (auto simp: sent_on_def)
qed

text \<open>The stream a baton goes out on, by the one it came in on.\<close>

fun reply_stream :: "bool \<Rightarrow> streamKind \<Rightarrow> readerCloser \<Rightarrow> stream_id \<Rightarrow> bool" where
  "reply_stream srv kindUni src sid \<longleftrightarrow> isOurStream srv sid \<and> isBidirectionalStream sid"
| "reply_stream srv kindDatagram src sid \<longleftrightarrow> isOurStream srv sid \<and> isBidirectionalStream sid"
| "reply_stream srv kindSelfBidi src sid \<longleftrightarrow> isOurStream srv sid \<and> \<not> isBidirectionalStream sid"
| "reply_stream srv kindPeerBidi (SrcStream st) sid \<longleftrightarrow> sid = st_ID st"
| "reply_stream srv kindPeerBidi (SrcReceive r) sid \<longleftrightarrow> False"

text \<open>A bidirectional stream of the peer can still be answered.\<close>

fun can_reply :: "Session \<Rightarrow> streamKind \<Rightarrow> readerCloser \<Rightarrow> bool" where
  "can_reply s kindPeerBidi (SrcStream st) \<longleftrightarrow> sends s ! st_send st = \<lparr>ss_ID = st_ID st, ss_closed = False\<rparr>"
| "can_reply s kind src \<longleftrightarrow> True"

lemma sendNext_sent:
  assumes "sendNext V b x kind src = Some (None, b')" and "session_ok (b_sess b)" and "can_reply (b_sess b) kind src"
  shows "\<exists>sid msg. baton_message V b x = Some msg \<and> reply_stream (isServer (b_sess b)) kind src sid \<and>
    sent_on V (b_sess b) (b_sess b') sid msg"
proof -
  obtain msg where msg: "baton_message V b x = Some msg" using assms(1) by (auto simp: sendNext_def split: option.splits)
  have keep: "b_sess (completeOne c) = b_sess c" for c by (simp add: completeOne_def finish_def Let_def)
  show ?thesis
  proof (cases kind)
    case kindPeerBidi
    with assms(1) msg obtain st b1 where st: "src = SrcStream st" "written (b_sess b') = written (b_sess b1)"
      "and_then (b_write V b (st_send st) msg) (\<lambda>b1. b_close_stream V b1 st) = Some (None, b1)"
      by (auto simp: sendNext_def and_then_def b_flush_def keep split: readerCloser.splits option.splits if_splits)
    with reply_sent [OF st(3)] assms(3) kindPeerBidi msg show ?thesis by (auto simp: sent_on_def)
  next
    case kindSelfBidi
    with assms(1) msg obtain b1 where "sendUniMsg V b msg = Some (None, b1)" "b_sess b' = b_sess b1"
      by (auto simp: sendNext_def and_then_def keep split: option.splits if_splits)
    with sendUniMsg_sent [OF _ assms(2)] msg kindSelfBidi show ?thesis by fastforce
  next
    case kindUni
    with assms(1) msg obtain b1 where "sendOnNewBidi V b msg x = Some (None, b1)" "b_sess b' = b_sess b1"
      by (auto simp: sendNext_def and_then_def keep split: option.splits if_splits)
    with sendOnNewBidi_sent [OF _ assms(2)] msg kindUni show ?thesis by fastforce
  next
    case kindDatagram
    with assms(1) msg obtain b1 where "sendOnNewBidi V b msg x = Some (None, b1)" "b_sess b' = b_sess b1"
      by (auto simp: sendNext_def and_then_def keep split: option.splits if_splits)
    with sendOnNewBidi_sent [OF _ assms(2)] msg kindDatagram show ?thesis by fastforce
  qed
qed

lemma mirror_same:
  "isServer (b_sess (mirror b x raw)) = isServer (b_sess b)" "sends (b_sess (mirror b x raw)) = sends (b_sess b)"
  "b_cfg (mirror b x raw) = b_cfg b"
  "\<exists>ms. written (b_sess (mirror b x raw)) = written (b_sess b) @ ms \<and> set ms \<subseteq> {(CapsuleDatagram, raw)}"
  by (auto simp: mirror_def SendDatagram_def writeCapsule_def dest!: next_werr_same split: prod.splits option.splits)

lemma can_reply_cong: "sends s' = sends s \<Longrightarrow> can_reply s' kind src = can_reply s kind src"
  by (cases "(s, kind, src)" rule: can_reply.cases) simp_all

lemma afterReceive_sends:
  assumes "varint_codec V" and "session_ok (b_sess b)" and "can_reply (b_sess b) kind src"
    and "0 \<le> Padding (b_cfg b)" and "Padding (b_cfg b) < 2 ^ 62"
    and "afterReceive V b x raw kind src = Some b'" and "b_err b' = None" and "\<not> b_done b"
  shows "b_active b' = b_active b - (if x = 0 \<or> x + 1 = 0 then 1 else 0) \<and>
    (x \<noteq> 0 \<longrightarrow> (\<exists>ms sid hdr msg. set ms \<subseteq> {(CapsuleDatagram, raw)} \<and>
       written (b_sess b') = written (b_sess b) @ ms @ [(CapsuleWTStream, hdr @ msg), (CapsuleWTStreamFin, hdr)] \<and>
       vappend V sid = Some hdr \<and> reply_stream (isServer (b_sess b)) kind src sid \<and>
       decodeBaton V msg = Inr (replicate (nat (Padding (b_cfg b))) 0, x + 1)))"
proof (cases "x = 0")
  case True
  then have "status b' = status (completeOne (mirror b x raw))"
    using assms(6)
    by (auto simp: afterReceive_def Let_def split: streamKind.splits readerCloser.splits dest!: status_writes(3))
  then have "b_active b' = b_active (mirror b x raw) - 1" by (auto simp: completeOne_def finish_def Let_def)
  with True status_mirror [of b x raw] show ?thesis by simp
next
  case False
  let ?b1 = "mirror b x raw"
  have st1: "status ?b1 = status b" by (rule status_mirror)
  obtain r b2 where n: "sendNext V ?b1 (x + 1) kind src = Some (r, b2)" "b' = (case r of None \<Rightarrow> b2 | Some err \<Rightarrow> fail b2 err)"
    using False assms(6) by (auto simp: afterReceive_def Let_def split: option.splits prod.splits)
  have r: "r = None"
  proof (rule ccontr)
    assume "r \<noteq> None"
    with status_sendNext [OF n(1)] st1 have "status b2 = status b" by (cases r) simp_all
    with n(2) \<open>r \<noteq> None\<close> assms(7,8) show False
      by (auto simp: fail_def finish_def Let_def split: option.splits if_splits)
  qed
  have ok: "session_ok (b_sess ?b1)" using b_legal_ok [OF b_legal_mirror assms(2)] .
  have "can_reply (b_sess ?b1) kind src" using assms(3) can_reply_cong [OF mirror_same(2)] by simp
  then obtain sid msg where m: "baton_message V ?b1 (x + 1) = Some msg"
    "reply_stream (isServer (b_sess b)) kind src sid" "sent_on V (b_sess ?b1) (b_sess b') sid msg"
    using sendNext_sent [of V ?b1 "x + 1" kind src b2] n r ok mirror_same(1) by auto
  obtain ms where ms: "written (b_sess ?b1) = written (b_sess b) @ ms" "set ms \<subseteq> {(CapsuleDatagram, raw)}"
    using mirror_same(4) by blast
  have "encodeBaton V (replicate (nat (Padding (b_cfg b))) 0) (x + 1) = Some msg"
    using m(1) assms(4) mirror_same(3) by (simp add: baton_message_def)
  then have "decodeBaton V msg = Inr (replicate (nat (Padding (b_cfg b))) 0, x + 1)"
    using assms(5) by (intro varint_codec.decode_encode [OF assms(1)]) simp_all
  moreover have "b_active b' = b_active b - (if x + 1 = 0 then 1 else 0)"
    using status_sendNext [OF n(1)] st1 n(2) r by (auto simp: completeOne_def finish_def Let_def split: if_splits)
  ultimately show ?thesis using False m(2,3) ms by (auto simp: sent_on_def)
qed


definition demo_baton :: batonSession where
  "demo_baton = Run_start (newSession ''baton'' False) False defaultConfig []"


section \<open>A game\<close>

text \<open>
  Two peers and the messages between them: the receiver (true for the server), the baton, and the kind
  of stream the receiver sees it on. A peer handles any message in flight as \<open>afterReceive\<close>
  does when nothing fails.
\<close>

record game =
  g_active :: "bool \<Rightarrow> int"
  g_flight :: "(bool \<times> byte \<times> streamKind) list"

text \<open>How the peer sees the stream of the reply.\<close>

fun reply_kind :: "streamKind \<Rightarrow> streamKind" where
  "reply_kind kindUni = kindPeerBidi"
| "reply_kind kindDatagram = kindPeerBidi"
| "reply_kind kindPeerBidi = kindSelfBidi"
| "reply_kind kindSelfBidi = kindUni"

definition game_receive :: "game \<Rightarrow> nat \<Rightarrow> game" where
  "game_receive g i =
     (case g_flight g ! i of (to, x, kind) \<Rightarrow>
        let rest = take i (g_flight g) @ drop (Suc i) (g_flight g);
            done1 = (g_active g)(to := g_active g to - 1)
        in if x = 0 then g\<lparr>g_flight := rest, g_active := done1\<rparr>
           else g\<lparr>g_flight := rest @ [(\<not> to, x + 1, reply_kind kind)],
                  g_active := (if x + 1 = 0 then done1 else g_active g)\<rparr>)"

inductive game_step :: "game \<Rightarrow> game \<Rightarrow> bool" where
  "i < length (g_flight g) \<Longrightarrow> game_step g (game_receive g i)"

text \<open>The server's set-up: \<open>n\<close> batons on unidirectional streams to the client.\<close>

definition game_start :: "nat \<Rightarrow> byte \<Rightarrow> game" where
  "game_start n x = \<lparr>g_active = (\<lambda>_. int n), g_flight = replicate n (False, x, kindUni)\<rparr>"

text \<open>The messages a baton still needs, and whether a side still waits for one.\<close>

definition hops :: "bool \<times> byte \<times> streamKind \<Rightarrow> nat" where
  "hops m = (if fst (snd m) = 0 then 1 else 257 - unat (fst (snd m)))"

definition waits :: "bool \<Rightarrow> bool \<times> byte \<times> streamKind \<Rightarrow> nat" where
  "waits side m = (if fst (snd m) \<noteq> 0 \<or> fst m = side then 1 else 0)"

abbreviation total :: "('a \<Rightarrow> nat) \<Rightarrow> 'a list \<Rightarrow> nat" where
  "total f xs \<equiv> sum_list (map f xs)"

lemma total_remove: "i < length xs \<Longrightarrow> total f xs = f (xs ! i) + total f (take i xs @ drop (Suc i) xs)"
  by (subst id_take_nth_drop [of i xs]) simp_all

lemma unat_byte_lt: "unat (x :: byte) < 256"
  using unsigned_less [of x, where 'a = nat] by simp

lemma unat_byte_Suc: "x + 1 \<noteq> (0 :: byte) \<Longrightarrow> unat (x + 1) = Suc (unat x)"
  by (metis add.commute unatSuc)

lemma hops_next:
  assumes "x \<noteq> 0"
  shows "hops (to, x, k) = Suc (hops (to', x + 1, k'))"
proof -
  have "0 < unat x" using assms by (simp add: unat_gt_0)
  moreover have "unat x < 256" by (rule unat_byte_lt)
  moreover note unat_byte_Suc [of x]
  moreover have "x + 1 = 0 \<Longrightarrow> unat x = 255"
  proof -
    assume "x + 1 = 0"
    moreover have "x = (x + 1) + 255" by simp
    ultimately have "x = 255" by simp
    then show "unat x = 255" by simp
  qed
  moreover have "unat (x + 1) \<noteq> 256" using unat_byte_lt [of "x + 1"] by simp
  ultimately show ?thesis using assms by (auto simp: hops_def)
qed

lemma game_step_hops: "game_step g g' \<Longrightarrow> total hops (g_flight g) = Suc (total hops (g_flight g'))"
proof (induction rule: game_step.induct)
  case (1 i g)
  obtain to x k where m: "g_flight g ! i = (to, x, k)" by (cases "g_flight g ! i")
  show ?case
    using total_remove [OF 1, of hops] m hops_next [of x to k "\<not> to" "reply_kind k"]
    by (auto simp: game_receive_def Let_def hops_def [of "(to, 0, k)"])
qed

definition balanced :: "game \<Rightarrow> bool" where
  "balanced g \<longleftrightarrow> (\<forall>side. g_active g side = int (total (waits side) (g_flight g)))"

lemma game_step_balanced: "game_step g g' \<Longrightarrow> balanced g \<Longrightarrow> balanced g'"
proof (induction rule: game_step.induct)
  case (1 i g)
  obtain to x k where m: "g_flight g ! i = (to, x, k)" by (cases "g_flight g ! i")
  show ?case
    unfolding balanced_def
  proof
    fix side
    show "g_active (game_receive g i) side = int (total (waits side) (g_flight (game_receive g i)))"
      using 1(2) total_remove [OF 1(1), of "waits side"] m
      by (auto simp: balanced_def game_receive_def Let_def waits_def)
  qed
qed

lemma game_run:
  assumes "(game_step ^^ k) (game_start n x) g" and "x \<noteq> 0"
  shows "k \<le> n * (257 - unat x) \<and> (g_flight g = [] \<longleftrightarrow> k = n * (257 - unat x)) \<and>
    (g_flight g \<noteq> [] \<longrightarrow> (\<exists>g'. game_step g g')) \<and>
    (\<forall>side. g_active g side = int (length (filter (\<lambda>m. fst (snd m) \<noteq> 0 \<or> fst m = side) (g_flight g)))) \<and>
    (g_flight g = [] \<longrightarrow> g_active g True = 0 \<and> g_active g False = 0)"
proof -
  have start: "total hops (g_flight (game_start n x)) = n * (257 - unat x)" "balanced (game_start n x)"
    using assms(2) by (simp_all add: game_start_def hops_def balanced_def waits_def sum_list_replicate)
  have "total hops (g_flight (game_start n x)) = k + total hops (g_flight g) \<and> balanced g"
    using assms(1)
  proof (induction k arbitrary: g)
    case (Suc k)
    then obtain g1 where "(game_step ^^ k) (game_start n x) g1" "game_step g1 g" by auto
    with Suc.IH game_step_hops game_step_balanced show ?case by fastforce
  qed (simp add: start)
  then have k: "n * (257 - unat x) = k + total hops (g_flight g)" and b: "balanced g"
    using start by simp_all
  have "0 < hops m" for m using unat_byte_lt [of "fst (snd m)"] by (auto simp: hops_def)
  then have z: "total hops (g_flight g) = 0 \<longleftrightarrow> g_flight g = []" by (cases "g_flight g") simp_all
  have w: "total (waits side) ms = length (filter (\<lambda>m. fst (snd m) \<noteq> 0 \<or> fst m = side) ms)" for side ms
    by (induction ms) (simp_all add: waits_def)
  have "g_flight g \<noteq> [] \<longrightarrow> (\<exists>g'. game_step g g')" using game_step.intros [of 0 g] by auto
  with k b z show ?thesis by (auto simp: balanced_def w)
qed

text \<open>A game of \<open>n\<close> batons that start at \<open>x\<close> takes exactly \<open>n * (257 - x)\<close> messages in whatever order
  they are handled: no run is longer, a run can go on until then, and it is over then. At
  every moment the count each side keeps is the number of batons it has not completed, so neither
  side finishes early, and when no message is left both counts are zero.\<close>
theorem baton_game:
  assumes "(game_step ^^ k) (game_start n x) g" and "x \<noteq> 0"
  shows "k \<le> n * (257 - unat x) \<and> (g_flight g = [] \<longleftrightarrow> k = n * (257 - unat x)) \<and>
    (g_flight g \<noteq> [] \<longrightarrow> (\<exists>g'. game_step g g')) \<and>
    (\<forall>side. g_active g side = int (length (filter (\<lambda>m. fst (snd m) \<noteq> 0 \<or> fst m = side) (g_flight g)))) \<and>
    (g_flight g = [] \<longrightarrow> g_active g True = 0 \<and> g_active g False = 0)"
  using assms by (rule game_run)

theorem baton_game_witness:
  "\<exists>g. (game_step ^^ 2) (game_start 1 255) g \<and> g_flight g = [] \<and> g_active g True = 0 \<and> g_active g False = 0"
proof -
  let ?g1 = "game_receive (game_start 1 255) 0" let ?g2 = "game_receive ?g1 0"
  have "game_step (game_start 1 255) ?g1" by (rule game_step.intros) (simp add: game_start_def)
  moreover have "game_step ?g1 ?g2" by (rule game_step.intros) (simp add: game_start_def game_receive_def Let_def)
  ultimately have s: "(game_step ^^ 2) (game_start 1 255) ?g2" by (auto simp: numeral_2_eq_2)
  moreover have "g_flight ?g2 = []" by (simp add: game_start_def game_receive_def Let_def)
  ultimately show ?thesis using baton_game [OF s] by auto
qed

section \<open>Two goroutines in finish\<close>

text \<open>
  \<^verbatim>\<open>finish\<close> as its goroutines run it: the critical section that records the error, the \<^verbatim>\<open>select\<close> that looks
  at \<^verbatim>\<open>done\<close>, and the close of it. Closing a closed channel panics.
\<close>

datatype finish_pc = AtLock "go_err option" | AtSelect | AtClose | Left

record finish_state =
  f_err :: "go_err option"
  f_done :: bool
  f_panic :: bool
  f_pcs :: "finish_pc list"

inductive finish_step :: "finish_state \<Rightarrow> finish_state \<Rightarrow> bool" where
  lock: "i < length (f_pcs s) \<Longrightarrow> f_pcs s ! i = AtLock err \<Longrightarrow>
    finish_step s (s\<lparr>f_err := (if f_err s = None \<and> err \<noteq> None then err else f_err s), f_pcs := (f_pcs s)[i := AtSelect]\<rparr>)"
| done_case: "i < length (f_pcs s) \<Longrightarrow> f_pcs s ! i = AtSelect \<Longrightarrow> f_done s \<Longrightarrow>
    finish_step s (s\<lparr>f_pcs := (f_pcs s)[i := Left]\<rparr>)"
| default_case: "i < length (f_pcs s) \<Longrightarrow> f_pcs s ! i = AtSelect \<Longrightarrow> \<not> f_done s \<Longrightarrow>
    finish_step s (s\<lparr>f_pcs := (f_pcs s)[i := AtClose]\<rparr>)"
| close: "i < length (f_pcs s) \<Longrightarrow> f_pcs s ! i = AtClose \<Longrightarrow>
    finish_step s (s\<lparr>f_done := True, f_panic := (f_panic s \<or> f_done s), f_pcs := (f_pcs s)[i := Left]\<rparr>)"

definition finish_calls :: "batonSession \<Rightarrow> go_err option list \<Rightarrow> finish_state" where
  "finish_calls b errs = \<lparr>f_err = b_err b, f_done = b_done b, f_panic = False, f_pcs = map AtLock errs\<rparr>"

inductive_cases finish_stepE: "finish_step s s'"

lemma alone_step:
  assumes "finish_step s s'" and "f_pcs s = [pc]" and "\<not> f_panic s" and "pc = AtClose \<longrightarrow> \<not> f_done s"
  shows "\<exists>pc'. f_pcs s' = [pc'] \<and> \<not> f_panic s' \<and> (pc' = AtClose \<longrightarrow> \<not> f_done s')"
  using assms by (cases rule: finish_step.cases) auto

text \<open>C32: \<^verbatim>\<open>finish\<close> is safe for one goroutine but not for two: a single call never panics, but two
  concurrent calls (two handlers that fail at the same time, say) can both find \<^verbatim>\<open>done\<close> open and
  both close it, and the second close panics.\<close>
theorem finish_can_panic:
  "(\<forall>s. rtranclp finish_step (finish_calls b [err]) s \<longrightarrow> \<not> f_panic s) \<and>
   (\<not> b_done b \<longrightarrow> (\<exists>s. rtranclp finish_step (finish_calls b [err, err']) s \<and> f_panic s))"
proof (intro conjI allI impI)
  fix s assume "rtranclp finish_step (finish_calls b [err]) s"
  then have "\<exists>pc. f_pcs s = [pc] \<and> \<not> f_panic s \<and> (pc = AtClose \<longrightarrow> \<not> f_done s)"
  proof (induction rule: rtranclp_induct)
    case (step s s')
    then show ?case using alone_step by blast
  qed (simp add: finish_calls_def)
  then show "\<not> f_panic s" by blast
next
  assume open_done: "\<not> b_done b"
  define e1 where "e1 = (if b_err b = None \<and> err \<noteq> None then err else b_err b)"
  define e2 where "e2 = (if e1 = None \<and> err' \<noteq> None then err' else e1)"
  let ?s = "\<lambda>x d p ps. \<lparr>f_err = x, f_done = d, f_panic = p, f_pcs = ps\<rparr>"
  have 1: "finish_step (finish_calls b [err, err']) (?s e1 False False [AtSelect, AtLock err'])"
    using finish_step.lock [of 0 "?s (b_err b) False False [AtLock err, AtLock err']" err] open_done
    by (simp add: finish_calls_def e1_def split del: if_split cong: if_cong)
  have 2: "finish_step (?s e1 False False [AtSelect, AtLock err']) (?s e2 False False [AtSelect, AtSelect])"
    using finish_step.lock [of 1 "?s e1 False False [AtSelect, AtLock err']" err'] by (simp add: e2_def split del: if_split cong: if_cong)
  have 3: "finish_step (?s e2 False False [AtSelect, AtSelect]) (?s e2 False False [AtClose, AtSelect])"
    using finish_step.default_case [of 0 "?s e2 False False [AtSelect, AtSelect]"] by simp
  have 4: "finish_step (?s e2 False False [AtClose, AtSelect]) (?s e2 False False [AtClose, AtClose])"
    using finish_step.default_case [of 1 "?s e2 False False [AtClose, AtSelect]"] by simp
  have 5: "finish_step (?s e2 False False [AtClose, AtClose]) (?s e2 True False [Left, AtClose])"
    using finish_step.close [of 0 "?s e2 False False [AtClose, AtClose]"] by simp
  have 6: "finish_step (?s e2 True False [Left, AtClose]) (?s e2 True True [Left, Left])"
    using finish_step.close [of 1 "?s e2 True False [Left, AtClose]"] by simp
  from 1 2 3 4 5 6 have "rtranclp finish_step (finish_calls b [err, err']) (?s e2 True True [Left, Left])"
    by (meson rtranclp.rtrancl_into_rtrancl rtranclp.rtrancl_refl)
  then show "\<exists>s. rtranclp finish_step (finish_calls b [err, err']) s \<and> f_panic s" by force
qed

theorem finish_can_panic_witness:
  "\<exists>s. rtranclp finish_step (finish_calls demo_baton [Some EOF, Some EOF]) s \<and> f_panic s"
  using finish_can_panic [of demo_baton "Some EOF" "Some EOF"] by (simp add: demo_baton_def Run_start_def)

section \<open>A baton that is queued when the session ends\<close>

text \<open>The last baton can be lost. When the peer ends the session after it has sent its last baton,
  and that stream is still queued, the accept loop may see the end of the session first: it
  returns, and leaves the baton unread, the count as it was and the run not done.\<close>
theorem queued_baton_can_be_lost:
  assumes "done_ch (b_sess b)" and "incomingUnidirectionalStreams (b_sess b) = r # rs"
  shows "\<exists>k. acceptUni_iter k None b = Some (False, b)"
proof -
  have "AcceptUnidirectionalStream 1 None (b_sess b) = Some (Inl ErrSessionClosed, b_sess b)"
    using assms by (simp add: AcceptUnidirectionalStream_def select_ready_def)
  then have "acceptUni_iter 1 None b = Some (False, b)" by (simp add: acceptUni_iter_def)
  then show ?thesis by blast
qed

text \<open>Baton 0 on the server's stream 3, and the end of the CONNECT stream.\<close>

definition last_baton :: Session where
  "last_baton = (case readLoop quicwire_varint quicwire_capsule (\<lambda>_. 0) 20 (newSession ''baton'' False)
     [0x99, 0x0B, 0x4D, 0x3B, 3, 3, 0, 0] EOF of Returned s \<Rightarrow> s | _ \<Rightarrow> newSession ''baton'' False)"

theorem queued_baton_can_be_lost_witness:
  "let b = Run_start last_baton False defaultConfig []
   in map (srb_data \<circ> recvBuffer) (recvs last_baton) = [[0, 0]] \<and>
      (\<exists>k. acceptUni_iter k None b = Some (False, b)) \<and> \<not> b_done b \<and> b_active b = 1"
proof -
  let ?b = "Run_start last_baton False defaultConfig []"
  have l: "done_ch last_baton" "incomingUnidirectionalStreams last_baton = [0]"
    "map (srb_data \<circ> recvBuffer) (recvs last_baton) = [[0, 0]]" by code_simp+
  then have "\<exists>k. acceptUni_iter k None ?b = Some (False, ?b)"
    by (intro queued_baton_can_be_lost) (simp_all add: Run_start_def)
  with l(3) show ?thesis by (simp add: Run_start_def defaultConfig_def)
qed

end
