(* ===== verification/Baton_Duel.thy ===== *)
theory Baton_Duel
  imports Baton_Game Wire_Order
begin

text \<open>
  A game of batons between two baton sessions, a server and a client. Each runs its own goroutines and its own read
  loop; the messages one has written and the other has not handled are in flight between them. The theory shows that
  every such run is a run of the abstract game of Baton_Game, so that what holds there of counts and of
  the length of a game holds of the code.
\<close>

section \<open>The messages between the peers\<close>

text \<open>How an endpoint sees a stream on which a message arrives.\<close>

definition seen_as :: "bool \<Rightarrow> stream_id \<Rightarrow> streamKind" where
  "seen_as srv sid =
     (if \<not> isBidirectionalStream sid then kindUni else if isOurStream srv sid then kindSelfBidi else kindPeerBidi)"

lemma isOurStream_other: "isOurStream (\<not> srv) sid \<longleftrightarrow> \<not> isOurStream srv sid"
  by (auto simp: isOurStream_bit)

text \<open>The messages in a list of capsules: a baton message is one data capsule.\<close>

definition capsule_message :: "varint_ops \<Rightarrow> CapsuleType \<times> bytes \<Rightarrow> (stream_id \<times> bytes) list" where
  "capsule_message V c =
     (if fst c = CapsuleWTStream then (case vread V (snd c) EOF of Inr x \<Rightarrow> [x] | Inl err \<Rightarrow> []) else [])"

definition messages :: "varint_ops \<Rightarrow> (CapsuleType \<times> bytes) list \<Rightarrow> (stream_id \<times> bytes) list" where
  "messages V cs = concat (map (capsule_message V) cs)"

lemma messages_simps [simp]:
  "messages V [] = []" "messages V (cs @ ds) = messages V cs @ messages V ds"
  "messages V (c # cs) = capsule_message V c @ messages V cs"
  by (simp_all add: messages_def)

lemma no_message: "fst c \<noteq> CapsuleWTStream \<Longrightarrow> capsule_message V c = []"
  by (simp add: capsule_message_def)

lemma no_messages: "(\<And>c. c \<in> set cs \<Longrightarrow> fst c \<noteq> CapsuleWTStream) \<Longrightarrow> messages V cs = []"
  by (induction cs) (simp_all add: no_message)


definition baton_of :: "varint_ops \<Rightarrow> bytes \<Rightarrow> byte" where
  "baton_of V raw = (case decodeBaton V raw of Inr (padding, x) \<Rightarrow> x | Inl err \<Rightarrow> 0)"

record duel =
  d_peer :: "bool \<Rightarrow> batonSession"
  d_pc :: "bool \<Rightarrow> loop_pc"
  d_flight :: "(bool \<times> stream_id \<times> bytes) list"

text \<open>A message has arrived on a stream: its receive side holds the message and is finished, and a stream
  that the peer opened for a reply can still be written.\<close>

definition arrived :: "Session \<Rightarrow> stream_id \<Rightarrow> bytes \<Rightarrow> readerCloser \<Rightarrow> bool" where
  "arrived s sid raw src \<longleftrightarrow>
     srb_closed (recvBuffer (recvs s ! src_recv src)) \<and> srb_data (recvBuffer (recvs s ! src_recv src)) = raw \<and>
     (case src of
        SrcStream st \<Rightarrow> isBidirectionalStream sid \<and>
          (isOurStream (isServer s) sid \<or> st_ID st = sid \<and> sends s ! st_send st = \<lparr>ss_ID = sid, ss_closed = False\<rparr>)
      | SrcReceive r \<Rightarrow> \<not> isBidirectionalStream sid)"

text \<open>One message of the game. The receiver's goroutines and read loop run on, without a message and without a
  change of its status, until a handler has its stream to the end; the handler runs; and what it wrote is in flight to the
  other peer.\<close>

inductive duel_step :: "varint_ops \<Rightarrow> capsule_ops \<Rightarrow> go_err \<Rightarrow> duel \<Rightarrow> duel \<Rightarrow> bool" for V K e where
  message: "i < length (d_flight d) \<Longrightarrow> d_flight d ! i = (to, sid, raw) \<Longrightarrow>
    rtranclp (baton_step V K e) ((False, d_peer d to), d_pc d to) ((False, b), pc) \<Longrightarrow>
    status b = status (d_peer d to) \<Longrightarrow> written (b_sess b) = written (b_sess (d_peer d to)) \<Longrightarrow>
    j < length (b_inflight b) \<Longrightarrow> b_inflight b ! j = (src, seen_as to sid) \<Longrightarrow> arrived (b_sess b) sid raw src \<Longrightarrow>
    handleIncoming V sz (b\<lparr>b_inflight := take j (b_inflight b) @ drop (Suc j) (b_inflight b)\<rparr>) src (seen_as to sid) = Some b' \<Longrightarrow>
    duel_step V K e d
      (d\<lparr>d_peer := (d_peer d)(to := b'), d_pc := (d_pc d)(to := pc),
         d_flight := (take i (d_flight d) @ drop (Suc i) (d_flight d)) @
           map (\<lambda>(sid, m). (\<not> to, sid, m)) (messages V (drop (length (written (b_sess b))) (written (b_sess b'))))\<rparr>)"

definition duel_game :: "varint_ops \<Rightarrow> duel \<Rightarrow> game" where
  "duel_game V d =
     \<lparr>g_active = (\<lambda>side. b_active (d_peer d side)),
      g_flight = map (\<lambda>(to, sid, raw). (to, baton_of V raw, seen_as to sid)) (d_flight d)\<rparr>"

definition peer_ok :: "bool \<Rightarrow> batonSession \<Rightarrow> loop_pc \<Rightarrow> bool" where
  "peer_ok side b pc \<longleftrightarrow> session_ok (b_sess b) \<and> pc_ok (b_sess b) pc \<and> baton_refs b \<and> isServer (b_sess b) = side \<and> settled b"

definition duel_ok :: "varint_ops \<Rightarrow> duel \<Rightarrow> bool" where
  "duel_ok V d \<longleftrightarrow> (\<forall>side. peer_ok side (d_peer d side) (d_pc d side)) \<and>
     (\<forall>(to, sid, raw)\<in>set (d_flight d). \<exists>padding x. decodeBaton V raw = Inr (padding, x))"

section \<open>One message\<close>

lemma reach_isServer: "session_reach V K e c d \<Longrightarrow> isServer (fst d) = isServer (fst c)"
proof (induction rule: session_reach.induct)
  case (step d d')
  obtain s pc s' pc' where [simp]: "d = (s, pc)" "d' = (s', pc')" by fastforce
  have "wire_move V s s'" using step.hyps(2) step_moves by simp
  then have "isServer s' = isServer s" by cases (auto simp: quiet_def)
  with step show ?case by simp
qed simp

lemma uses_isServer: "uses V K e s s' \<Longrightarrow> isServer s' = isServer s"
  using reach_isServer [of V K e "(s, Running [])" "(s', Running [])"] by (simp add: uses_def)

lemma written_close_stream:
  "b_close_stream V b st = Some (r, b') \<Longrightarrow>
   \<exists>cs. written (b_sess b') = written (b_sess b) @ cs \<and> (\<forall>c\<in>set cs. fst c = CapsuleWTStreamFin)"
  by (auto simp: b_close_stream_def Stream_Close_def SendStream_Close_def writeCapsule_def upd_send_def Let_def
      dest!: next_werr_same split: prod.splits if_splits option.splits)

text \<open>The last message of a baton is not answered.\<close>

lemma afterReceive_last:
  assumes "afterReceive V b 0 raw kind src = Some b'"
  shows "messages V (drop (length (written (b_sess b))) (written (b_sess b'))) = []"
proof -
  let ?b1 = "completeOne (mirror b 0 raw)"
  obtain ms where ms: "written (b_sess ?b1) = written (b_sess b) @ ms" "set ms \<subseteq> {(CapsuleDatagram, raw)}"
    using mirror_same(4) [of b 0 raw] by (auto simp: completeOne_def finish_def Let_def)
  have "b' = ?b1 \<or> (\<exists>st r. b_close_stream V ?b1 st = Some (r, b'))"
    using assms by (auto simp: afterReceive_def Let_def split: streamKind.splits readerCloser.splits)
  then obtain cs where "written (b_sess b') = written (b_sess ?b1) @ cs" "\<forall>c\<in>set cs. fst c = CapsuleWTStreamFin"
    using written_close_stream by (metis append_Nil2 empty_iff empty_set)
  with ms have "drop (length (written (b_sess b))) (written (b_sess b')) = ms @ cs"
    "\<forall>c\<in>set (ms @ cs). fst c \<noteq> CapsuleWTStream"
    by (auto simp: capsule_types)
  then show ?thesis using no_messages by metis
qed

lemma seen_as_reply:
  assumes "reply_stream to (seen_as to sid) src sid'" and "arrived s sid raw src" and "isServer s = to"
  shows "seen_as (\<not> to) sid' = reply_kind (seen_as to sid)"
  using assms by (cases src) (auto simp: seen_as_def arrived_def isOurStream_other split: if_splits)

lemma arrived_can_reply:
  "arrived s sid raw src \<Longrightarrow> isServer s = to \<Longrightarrow> can_reply s (seen_as to sid) src"
  by (cases src) (auto simp: seen_as_def arrived_def)

lemma message_of_capsules:
  assumes "varint_codec V" and "vappend V sid = Some hdr" and "set ms \<subseteq> {(CapsuleDatagram, raw)}"
  shows "messages V (ms @ [(CapsuleWTStream, hdr @ msg), (CapsuleWTStreamFin, hdr)]) = [(sid, msg)]"
proof -
  have "messages V ms = []" using assms(3) by (intro no_messages) (auto simp: capsule_types)
  then show ?thesis
    using varint_codec.read_append [OF assms(1,2)] by (simp add: capsule_message_def capsule_types)
qed

lemma handler_message:
  assumes "varint_codec V" and "session_ok (b_sess b)" and "src_ok (b_sess b) src" and "Padding (b_cfg b) < 2 ^ 62"
    and srv: "isServer (b_sess b) = to" and arr: "arrived (b_sess b) sid raw src" and dec: "decodeBaton V raw = Inr (padding, x)"
    and "handleIncoming V sz b src (seen_as to sid) = Some b'" and "b_err b' = None" and "\<not> b_done b"
  defines "M \<equiv> messages V (drop (length (written (b_sess b))) (written (b_sess b')))"
  shows "b_active b' = b_active b - (if x = 0 \<or> x + 1 = 0 then 1 else 0) \<and>
    (if x = 0 then M = []
     else \<exists>sid' msg padding'. M = [(sid', msg)] \<and> seen_as (\<not> to) sid' = reply_kind (seen_as to sid) \<and>
       decodeBaton V msg = Inr (padding', x + 1))"
proof -
  let ?r = "src_recv src"
  have r: "?r < length (recvs (b_sess b))" using assms(3) by (cases src) simp_all
  obtain buf where rd: "srb_ReadAll sz 0 (recvBuffer (recvs (b_sess b) ! ?r)) = Some (raw, buf)"
    using srb_ReadAll_closed arr by (simp add: arrived_def)
  let ?b1 = "b\<lparr>b_sess := upd_recv (b_sess b) ?r (\<lambda>st. st\<lparr>recvBuffer := buf\<rparr>)\<rparr>"
  have same: "sends (b_sess ?b1) = sends (b_sess b)" "isServer (b_sess ?b1) = isServer (b_sess b)"
    "written (b_sess ?b1) = written (b_sess b)" "b_cfg ?b1 = b_cfg b" "\<not> b_done ?b1" "b_active ?b1 = b_active b"
    using assms(10) by (simp_all add: upd_recv_def)
  have h: "afterReceive V ?b1 x raw (seen_as to sid) src = Some b'"
    using assms(8) rd dec by (simp add: handleIncoming_def Let_def)
  have ok: "session_ok (b_sess ?b1)" using uses_keeps [OF uses_ReadAll [OF rd r] assms(2)] by simp
  have can: "can_reply (b_sess ?b1) (seen_as to sid) src"
    using arrived_can_reply [OF arr srv] can_reply_cong [OF same(1)] by simp
  show ?thesis
  proof (cases "x = 0")
    case True
    with h have h0: "afterReceive V ?b1 0 raw (seen_as to sid) src = Some b'" by simp
    from moves_afterReceive [OF h] status_mirror [of ?b1 0 raw] h0 True same(6) have "b_active b' = b_active b - 1"
      by (auto simp: afterReceive_def Let_def completeOne_def finish_def split: streamKind.splits readerCloser.splits
          dest!: status_writes(3))
    with True afterReceive_last [OF h0] same(3) show ?thesis by (simp add: M_def)
  next
    case False
    have pad: "0 \<le> Padding (b_cfg ?b1)"
      using h False mirror_same(3) [of ?b1 x raw]
      by (auto simp: afterReceive_def sendNext_def baton_message_def Let_def split: if_splits)
    from afterReceive_sends [OF assms(1) ok can pad _ h assms(9) same(5)] False assms(4) same(2-4,6)
    obtain ms sid' hdr msg where m: "b_active b' = b_active b - (if x + 1 = 0 then 1 else 0)" "set ms \<subseteq> {(CapsuleDatagram, raw)}"
      "written (b_sess b') = written (b_sess b) @ ms @ [(CapsuleWTStream, hdr @ msg), (CapsuleWTStreamFin, hdr)]"
      "vappend V sid' = Some hdr" "reply_stream to (seen_as to sid) src sid'"
      "\<exists>padding'. decodeBaton V msg = Inr (padding', x + 1)"
      using srv by auto
    have "M = [(sid', msg)]" using message_of_capsules [OF assms(1) m(4,2)] m(3) by (simp add: M_def)
    with False m(1,6) seen_as_reply [OF m(5) arr srv] show ?thesis by simp
  qed
qed

lemma balanced_receiver:
  assumes "balanced g" and "i < length (g_flight g)" and "g_flight g ! i = (to, x, k)"
  shows "0 < g_active g to"
proof -
  have "0 < waits to (g_flight g ! i)" using assms(3) by (simp add: waits_def)
  with total_remove [OF assms(2), of "waits to"] assms(1) show ?thesis by (simp add: balanced_def)
qed

lemma moves_error: "moves b b' \<Longrightarrow> b_err b' = None \<Longrightarrow> b_err b = None"
  by (auto simp: moves_def completeOne_def fail_def finish_def Let_def split: if_splits)

lemma peer_ok_run:
  assumes "varint_codec V" and "rtranclp (baton_step V K e) ((u, b), pc) ((u', b'), pc')" and "peer_ok side b pc"
    and "status b' = status b"
  shows "peer_ok side b' pc'"
proof -
  have ok: "session_ok (b_sess b)" "pc_ok (b_sess b) pc" "baton_refs b" using assms(3) by (simp_all add: peer_ok_def)
  then have l: "session_reach V K e (b_sess b, pc) (b_sess b', pc') \<and> baton_refs b'"
    using session_client.run_legal [OF baton_client [OF assms(1)] assms(2)] by simp
  then show ?thesis
    using reach_ok [of V K e "(b_sess b, pc)" "(b_sess b', pc')"] reach_isServer [of V K e "(b_sess b, pc)" "(b_sess b', pc')"]
      ok assms(3,4)
    by (simp add: peer_ok_def settled_def)
qed

lemma peer_ok_handler:
  assumes "varint_codec V" and "peer_ok side b pc" and "j < length (b_inflight b)" and "b_inflight b ! j = (src, kind)"
    and "handleIncoming V sz (b\<lparr>b_inflight := take j (b_inflight b) @ drop (Suc j) (b_inflight b)\<rparr>) src kind = Some b'"
  shows "peer_ok side b' pc"
proof -
  let ?b0 = "b\<lparr>b_inflight := take j (b_inflight b) @ drop (Suc j) (b_inflight b)\<rparr>"
  have ok: "session_ok (b_sess ?b0)" "baton_refs b" "pc_ok (b_sess b) pc" "settled ?b0" "isServer (b_sess b) = side"
    using assms(2) by (simp_all add: peer_ok_def settled_def)
  have r: "baton_refs ?b0" "src_ok (b_sess ?b0) src" using removed_refs [OF ok(2) assms(3,4)] by simp_all
  then have "Padding (b_cfg ?b0) < 2 ^ 62" by (simp add: baton_refs_def)
  then have l: "b_legal V K EOF ?b0 b'" for K
    using varint_codec.handleIncoming_legal [OF assms(1,5) ok(1) r(2)] by simp
  have "uses V K EOF (b_sess b) (b_sess b')" for K using l by (simp add: b_legal_def)
  then have "evolves (b_sess b) (b_sess b')" "isServer (b_sess b') = side"
    using uses_keeps ok(1,5) uses_isServer by fastforce+
  with settled_moves [OF moves_handleIncoming [OF assms(5)] ok(4)] b_legal_ok [OF l ok(1)] b_legal_refs [OF l ok(1) r(1)]
    pc_ok_evolves ok(3) show ?thesis by (simp add: peer_ok_def)
qed

text \<open>Forward simulation: a message between the sessions is a message of the game.\<close>

lemma duel_refines:
  assumes "varint_codec V" and "duel_step V K e d d'" and "duel_ok V d" and "balanced (duel_game V d)"
    and "\<forall>side. b_err (d_peer d' side) = None"
  shows "duel_ok V d' \<and> game_step (duel_game V d) (duel_game V d')"
  using assms(2)
proof cases
  case (message i to sid raw b pc j src sz b')
  let ?b0 = "b\<lparr>b_inflight := take j (b_inflight b) @ drop (Suc j) (b_inflight b)\<rparr>"
  let ?M = "messages V (drop (length (written (b_sess b))) (written (b_sess b')))"
  have pk: "peer_ok to b pc" using peer_ok_run [OF assms(1) message(4) _ message(5)] assms(3) by (simp add: duel_ok_def)
  have pk': "peer_ok to b' pc" using peer_ok_handler [OF assms(1) pk message(7,8,10)] .
  obtain padding x where dec: "decodeBaton V raw = Inr (padding, x)"
    using assms(3) message(2,3) nth_mem [OF message(2)] by (auto simp: duel_ok_def)
  then have x: "baton_of V raw = x" by (simp add: baton_of_def)
  have err: "b_err b' = None" using spec [OF assms(5), of to] message(1) by simp
  then have "b_err b = None" using moves_error [OF moves_handleIncoming [OF message(10)]] by simp
  moreover have "0 < b_active b"
    using balanced_receiver [OF assms(4), of i to x "seen_as to sid"] message(2,3,5) x by (simp add: duel_game_def)
  ultimately have nd: "\<not> b_done ?b0" using pk by (simp add: peer_ok_def settled_def)
  have ok0: "session_ok (b_sess ?b0)" "src_ok (b_sess ?b0) src" "Padding (b_cfg ?b0) < 2 ^ 62" "isServer (b_sess ?b0) = to"
    "arrived (b_sess ?b0) sid raw src"
    using pk removed_refs [OF _ message(7,8)] message(9) by (simp_all add: peer_ok_def baton_refs_def)
  have m: "b_active b' = b_active b - (if x = 0 \<or> x + 1 = 0 then 1 else 0)"
    "if x = 0 then ?M = [] else \<exists>sid' msg padding'. ?M = [(sid', msg)] \<and>
       seen_as (\<not> to) sid' = reply_kind (seen_as to sid) \<and> decodeBaton V msg = Inr (padding', x + 1)"
    using handler_message [OF assms(1) ok0 dec message(10) err nd] by (cases "x = 0"; simp)+
  have "duel_game V d' = game_receive (duel_game V d) i"
    using m message(1,2,3,5) x
    by (auto simp: duel_game_def game_receive_def baton_of_def take_map drop_map fun_eq_iff split: if_splits)
  moreover have "duel_ok V d'"
    using assms(3) pk' m(2) message(1)
    by (auto simp: duel_ok_def dest: in_set_takeD in_set_dropD split: if_splits)
  ultimately show ?thesis using game_step.intros [of i "duel_game V d"] message(2) by (simp add: duel_game_def)
qed

section \<open>The set-up and the whole game\<close>

definition setup_messages :: "varint_ops \<Rightarrow> nat \<Rightarrow> byte \<Rightarrow> (stream_id \<times> bytes) list \<Rightarrow> bool" where
  "setup_messages V n x ms \<longleftrightarrow> length ms = n \<and>
     (\<forall>(sid, m)\<in>set ms. \<not> isBidirectionalStream sid \<and> (\<exists>padding. decodeBaton V m = Inr (padding, x)))"

lemma sendUni_message:
  assumes "varint_codec V" and "sendUni V b x = Some (None, b')" and "session_ok (b_sess b)" and "Padding (b_cfg b) < 2 ^ 62"
  shows "\<exists>cs. written (b_sess b') = written (b_sess b) @ cs \<and> setup_messages V 1 x (messages V cs)"
    and "b_legal V K e b b'"
proof -
  obtain msg where msg: "baton_message V b x = Some msg" "sendUniMsg V b msg = Some (None, b')"
    using assms(2) by (auto simp: sendUni_def split: option.splits)
  then have pad: "0 \<le> Padding (b_cfg b)" "encodeBaton V (replicate (nat (Padding (b_cfg b))) 0) x = Some msg"
    by (auto simp: baton_message_def split: if_splits)
  have dec: "decodeBaton V msg = Inr (replicate (nat (Padding (b_cfg b))) 0, x)"
    using varint_codec.decode_encode [OF assms(1) pad(2)] assms(4) by simp
  obtain sid hdr where s: "\<not> isBidirectionalStream sid" "vappend V sid = Some hdr"
    "written (b_sess b') = written (b_sess b) @ [(CapsuleWTStream, hdr @ msg), (CapsuleWTStreamFin, hdr)]"
    using sendUniMsg_sent [OF msg(2) assms(3)] by (auto simp: sent_on_def)
  have "messages V [(CapsuleWTStream, hdr @ msg), (CapsuleWTStreamFin, hdr)] = [(sid, msg)]"
    using message_of_capsules [OF assms(1) s(2), of "[]"] by simp
  with s dec show "\<exists>cs. written (b_sess b') = written (b_sess b) @ cs \<and> setup_messages V 1 x (messages V cs)"
    by (auto simp: setup_messages_def)
  show "b_legal V K e b b'"
    using sendUniMsg_legal [OF msg(2) assms(3)] varint_codec.baton_message_length [OF assms(1) msg(1) assms(4)] .
qed

lemma send_batons_messages:
  assumes "varint_codec V" and "send_batons V n b x = Some (None, b')" and "session_ok (b_sess b)" and "Padding (b_cfg b) < 2 ^ 62"
  shows "\<exists>cs. written (b_sess b') = written (b_sess b) @ cs \<and> setup_messages V n x (messages V cs)"
  using assms(2-)
proof (induction n arbitrary: b)
  case (Suc n)
  then obtain b1 where b1: "sendUni V b x = Some (None, b1)" "send_batons V n b1 x = Some (None, b')"
    by (auto simp: and_then_def split: option.splits)
  have l: "b_legal V K EOF b b1" for K by (rule sendUni_message(2) [OF assms(1) b1(1) Suc.prems(2,3)])
  obtain cs where cs: "written (b_sess b1) = written (b_sess b) @ cs" "setup_messages V 1 x (messages V cs)"
    using sendUni_message(1) [OF assms(1) b1(1) Suc.prems(2,3)] by blast
  have "session_ok (b_sess b1)" "Padding (b_cfg b1) < 2 ^ 62"
    using b_legal_ok [OF l Suc.prems(2)] l Suc.prems(3) by (simp_all add: b_legal_def)
  from Suc.IH [OF b1(2) this] obtain ds where "written (b_sess b') = written (b_sess b1) @ ds" "setup_messages V n x (messages V ds)"
    by blast
  with cs show ?case by (intro exI [of _ "cs @ ds"]) (auto simp: setup_messages_def)
qed (simp add: setup_messages_def)

lemma setup_messages_sent:
  assumes "varint_codec V" and "baton_setup V rnd b = Some (None, b')" and "session_ok (b_sess b)" and "Padding (b_cfg b) < 2 ^ 62"
  shows "Baton (b_cfg b') \<noteq> 0 \<and> (\<exists>cs. written (b_sess b') = written (b_sess b) @ cs \<and>
    setup_messages V (nat (Count (b_cfg b))) (Baton (b_cfg b')) (messages V cs))"
proof -
  have keep: "b_cfg c' = b_cfg c" if "send_batons V n c x = Some (None, c')" for n c c' x
    using that
  proof (induction n arbitrary: c)
    case (Suc n)
    then show ?case
      by (auto simp: and_then_def sendUni_def sendUniMsg_def b_write_def b_close_send_def b_flush_def dest!: next_werr_same
          split: option.splits prod.splits sum.splits)
  qed simp
  obtain c x where c: "send_batons V (nat (Count (b_cfg b))) c x = Some (None, b')" "x \<noteq> 0" "Baton (b_cfg c) = x"
    "b_sess c = b_sess b" "Padding (b_cfg c) = Padding (b_cfg b)"
  proof (cases "Baton (b_cfg b) = 0")
    case True
    then obtain r where "rnd = Inr r" using assms(2) by (auto simp: baton_setup_def split: sum.splits)
    with True assms(2) show ?thesis
      by (intro that [of "b\<lparr>b_cfg := (b_cfg b)\<lparr>Baton := if r = 0 then 1 else r\<rparr>\<rparr>" "if r = 0 then 1 else r"])
        (simp_all add: baton_setup_def Let_def)
  qed (use assms(2) in \<open>auto intro!: that [of b "Baton (b_cfg b)"] simp: baton_setup_def\<close>)
  from send_batons_messages [OF assms(1) c(1)] c(2-5) keep [OF c(1)] assms(3,4) show ?thesis by auto
qed

text \<open>A server that has set up and a client, and the server's first messages in flight.\<close>

definition duel_start :: "varint_ops \<Rightarrow> batonSession \<Rightarrow> batonSession \<Rightarrow> bytes \<Rightarrow> bytes \<Rightarrow> duel" where
  "duel_start V srv cli input input' =
     \<lparr>d_peer = (\<lambda>side. if side then srv else cli), d_pc = (\<lambda>side. Running (if side then input else input')),
      d_flight = map (\<lambda>(sid, m). (False, sid, m)) (messages V (written (b_sess srv)))\<rparr>"

lemma duel_run:
  assumes "varint_codec V" and "(duel_step V K e ^^ k) d0 d" and "duel_ok V d0" and "balanced (duel_game V d0)"
    and "\<forall>side. b_err (d_peer d side) = None"
  shows "duel_ok V d \<and> balanced (duel_game V d) \<and> (game_step ^^ k) (duel_game V d0) (duel_game V d)"
  using assms(2,5)
proof (induction k arbitrary: d)
  case 0
  then show ?case using assms(3,4) by simp
next
  case (Suc k)
  then obtain d1 where d1: "(duel_step V K e ^^ k) d0 d1" "duel_step V K e d1 d" by auto
  have "b_err (d_peer d1 side) = None" for side
    using d1(2)
  proof cases
    case (message i to sid raw b pc j src sz b')
    have "b_err b' = None" "side \<noteq> to \<longrightarrow> b_err (d_peer d1 side) = None"
      using spec [OF Suc.prems(2), of to] spec [OF Suc.prems(2), of side] message(1) by (auto split: if_splits)
    moreover have "b_err b = None"
      using moves_error [OF moves_handleIncoming [OF message(10)]] \<open>b_err b' = None\<close> by simp
    ultimately show ?thesis using message(5) by (cases "side = to") simp_all
  qed
  then have IH: "duel_ok V d1" "balanced (duel_game V d1)" "(game_step ^^ k) (duel_game V d0) (duel_game V d1)"
    using Suc.IH [OF d1(1)] by simp_all
  from duel_refines [OF assms(1) d1(2) IH(1,2) Suc.prems(2)] game_step_balanced IH(2,3) show ?case by auto
qed

lemma duel_start_ok:
  assumes "varint_codec V" and "Padding cfg < 2 ^ 62" and "Padding cfg' < 2 ^ 62" and "1 \<le> Count cfg" and "Count cfg' = Count cfg"
    and "baton_setup V rnd (Run_start (newSessionConfigured p True peer) True cfg ws) = Some (None, srv)"
    and d0_def: "d0 = duel_start V srv (Run_start (newSessionConfigured p' False peer') False cfg' ws') input input'"
  shows "duel_ok V d0 \<and> duel_game V d0 = game_start (nat (Count cfg)) (Baton (b_cfg srv)) \<and> Baton (b_cfg srv) \<noteq> 0"
proof -
  let ?s = "Run_start (newSessionConfigured p True peer) True cfg ws"
  have ok: "session_ok (b_sess ?s)" "baton_refs ?s" "Padding (b_cfg ?s) < 2 ^ 62"
    using assms(2) session_ok_new by (simp_all add: Run_start_def baton_refs_def)
  obtain cs where cs: "Baton (b_cfg srv) \<noteq> 0" "written (b_sess srv) = written (b_sess ?s) @ cs"
    "setup_messages V (nat (Count cfg)) (Baton (b_cfg srv)) (messages V cs)"
    using setup_messages_sent [OF assms(1,6) ok(1,3)] by (auto simp: Run_start_def)
  have w: "written (b_sess srv) = cs" using cs(2) by (simp add: Run_start_def newSessionConfigured_def)
  have l: "b_legal V K EOF ?s srv" for K by (rule varint_codec.setup_legal [OF assms(1,6) ok(1,3)])
  have "isServer (b_sess srv) = isServer (b_sess ?s)" using uses_isServer [of V quicwire_capsule EOF] l [of quicwire_capsule] unfolding b_legal_def by blast
  then have "peer_ok True srv (Running input)"
    using b_legal_ok [OF l ok(1)] b_legal_refs [OF l ok(1,2)] status_setup [OF assms(6)] assms(4)
    by (simp add: peer_ok_def settled_def Run_start_def newSessionConfigured_def)
  moreover have "peer_ok False (Run_start (newSessionConfigured p' False peer') False cfg' ws') (Running input')"
    using assms(3-5) session_ok_new
    by (simp add: peer_ok_def settled_def Run_start_def baton_refs_def newSessionConfigured_def [of p' False peer', THEN arg_cong [where f = isServer]])
  ultimately have "duel_ok V d0"
    using cs(3) w by (auto simp: duel_ok_def d0_def duel_start_def setup_messages_def)
  moreover have "map (\<lambda>(to, sid, raw). (to, baton_of V raw, seen_as to sid)) (d_flight d0) =
      replicate (nat (Count cfg)) (False, Baton (b_cfg srv), kindUni)"
    using cs(3) w
    by (intro replicate_eqI) (auto simp: d0_def duel_start_def setup_messages_def baton_of_def seen_as_def)
  moreover have "b_active (d_peer d0 side) = int (nat (Count cfg))" for side
    using status_setup [OF assms(6)] assms(4,5) by (simp add: d0_def duel_start_def Run_start_def)
  ultimately show ?thesis using cs(1) by (auto simp: duel_game_def game_start_def)
qed

text \<open>C5: A game of Devious Baton between two baton sessions of the code, a server that has set up and a client with
  the same count, in whatever order and with whatever interleaving the messages are handled, as long as neither side
  has had an error: it takes exactly \<open>n * (257 - x)\<close> messages for \<open>n\<close> batons that start at \<open>x\<close>, no more, and it is
  over exactly then; each side's count of active batons is the number of batons it still waits for, and it is done
  exactly when there is none; and when no message is left, \<^verbatim>\<open>Run\<close> returns without an error on both.\<close>
theorem baton_duel:
  assumes "varint_codec V" and "Padding cfg < 2 ^ 62" and "Padding cfg' < 2 ^ 62" and "1 \<le> Count cfg" and "Count cfg' = Count cfg"
    and "baton_setup V rnd (Run_start (newSessionConfigured p True peer) True cfg ws) = Some (None, srv)"
    and "(duel_step V K e ^^ k)
      (duel_start V srv (Run_start (newSessionConfigured p' False peer') False cfg' ws') input input') d"
    and "\<forall>side. b_err (d_peer d side) = None"
  shows "k \<le> nat (Count cfg) * (257 - unat (Baton (b_cfg srv))) \<and>
    (d_flight d = [] \<longleftrightarrow> k = nat (Count cfg) * (257 - unat (Baton (b_cfg srv)))) \<and>
    (\<forall>side. b_active (d_peer d side) =
       int (length (filter (\<lambda>(to, sid, raw). baton_of V raw \<noteq> 0 \<or> to = side) (d_flight d))) \<and>
       (b_done (d_peer d side) \<longleftrightarrow> filter (\<lambda>(to, sid, raw). baton_of V raw \<noteq> 0 \<or> to = side) (d_flight d) = [])) \<and>
    (d_flight d = [] \<longrightarrow> (\<forall>side. b_done (d_peer d side) \<and> Run_result (d_peer d side) = None))"
proof -
  note s = duel_start_ok [OF assms(1-6) refl]
  have "balanced (game_start (nat (Count cfg)) (Baton (b_cfg srv)))" if "Baton (b_cfg srv) \<noteq> 0"
    using that by (simp add: game_start_def balanced_def waits_def sum_list_replicate)
  then have r: "duel_ok V d" "(game_step ^^ k) (game_start (nat (Count cfg)) (Baton (b_cfg srv))) (duel_game V d)"
    "Baton (b_cfg srv) \<noteq> 0"
    using duel_run [OF assms(1,7) _ _ assms(8)] s by metis+
  note g = game_run [OF r(2,3)]
  have fl: "g_flight (duel_game V d) = [] \<longleftrightarrow> d_flight d = []" by (simp add: duel_game_def)
  let ?P = "\<lambda>side (to, sid, raw). baton_of V raw \<noteq> 0 \<or> to = side"
  have "length (filter (\<lambda>m. fst (snd m) \<noteq> 0 \<or> fst m = side) (g_flight (duel_game V d))) = length (filter (?P side) (d_flight d))"
    for side by (simp add: duel_game_def filter_map o_def split_def)
  then have act: "b_active (d_peer d side) = int (length (filter (?P side) (d_flight d)))" for side
    using g by (simp add: duel_game_def)
  have dn: "b_done (d_peer d side) \<longleftrightarrow> filter (?P side) (d_flight d) = []" for side
    using r(1) assms(8) act [of side] by (auto simp: duel_ok_def peer_ok_def settled_def)
  show ?thesis using g fl act dn assms(8) by (auto simp: Run_result_def)
qed

text \<open>A game of one baton that starts at 255: the server's message, and the client's, which is the last.\<close>

definition pump :: "batonSession \<times> loop_pc \<Rightarrow> batonSession \<times> loop_pc" where
  "pump bp = (case snd bp of
       Running bs \<Rightarrow> (case after_iter (readLoop_iter quicwire_varint quicwire_capsule 0 (b_sess (fst bp)) bs EOF) of
         (s, pc) \<Rightarrow> ((fst bp)\<lparr>b_sess := s\<rparr>, pc))
     | _ \<Rightarrow> bp)"

lemma pump_step:
  assumes "snd bp = Running bs"
  shows "baton_step quicwire_varint quicwire_capsule EOF ((u, fst bp), snd bp) ((u, fst (pump bp)), snd (pump bp))"
proof -
  obtain s pc where a: "after_iter (readLoop_iter quicwire_varint quicwire_capsule 0 (b_sess (fst bp)) bs EOF) = (s, pc)"
    by fastforce
  have "session_step quicwire_varint quicwire_capsule EOF (b_sess (fst bp), Running bs) (s, pc)"
    using session_step.loop [of _ _ _ "b_sess (fst bp)" bs 0] unfolding a [symmetric] by simp
  from baton_step.session [OF this] a assms show ?thesis by (simp add: pump_def)
qed

definition wire_bytes :: "Session \<Rightarrow> bytes" where
  "wire_bytes s = concat (map (\<lambda>(t, d). the (cap_write quicwire_capsule t d)) (written s))"

definition short_cfg :: Config where
  "short_cfg = defaultConfig\<lparr>Baton := 255\<rparr>"

definition short_srv :: batonSession where
  "short_srv = snd (the (baton_setup quicwire_varint (Inr 0) (Run_start (newSessionConfigured ''baton'' True None) True short_cfg [])))"

abbreviation short_cli :: batonSession where
  "short_cli \<equiv> Run_start (newSessionConfigured ''baton'' False None) False short_cfg []"

text \<open>What each of the two writes.\<close>

definition first_bytes :: bytes where
  "first_bytes = [153, 11, 77, 60, 3, 3, 0, 255, 153, 11, 77, 59, 1, 3]"

definition reply_bytes :: bytes where
  "reply_bytes = [153, 11, 77, 60, 3, 0, 0, 0, 153, 11, 77, 59, 1, 0]"

definition cli_read :: "batonSession \<times> loop_pc" where
  "cli_read = pump (pump (short_cli, Running first_bytes))"

definition cli_accepted :: batonSession where
  "cli_accepted = snd (the (acceptUni_iter 0 None (fst cli_read)))"

definition cli_handled :: batonSession where
  "cli_handled = the (handleIncoming quicwire_varint (\<lambda>_. 511)
     (cli_accepted\<lparr>b_inflight := take 0 (b_inflight cli_accepted) @ drop (Suc 0) (b_inflight cli_accepted)\<rparr>) (SrcReceive 0) kindUni)"

definition srv_read :: "batonSession \<times> loop_pc" where
  "srv_read = pump (pump (short_srv, Running reply_bytes))"

definition srv_accepted :: batonSession where
  "srv_accepted = snd (the (acceptBidi_iter 0 None (fst srv_read)))"

definition srv_handled :: batonSession where
  "srv_handled = the (handleIncoming quicwire_varint (\<lambda>_. 511)
     (srv_accepted\<lparr>b_inflight := take 0 (b_inflight srv_accepted) @ drop (Suc 0) (b_inflight srv_accepted)\<rparr>)
     (fst (b_inflight srv_accepted ! 0)) kindPeerBidi)"

definition short_duel :: duel where
  "short_duel = duel_start quicwire_varint short_srv short_cli reply_bytes first_bytes"

lemma two_pumps:
  assumes "snd bp = Running bs" and "snd (pump bp) = Running cs"
    and "baton_step quicwire_varint quicwire_capsule EOF ((False, fst (pump (pump bp))), snd (pump (pump bp))) ((False, b), pc)"
  shows "rtranclp (baton_step quicwire_varint quicwire_capsule EOF) ((False, fst bp), snd bp) ((False, b), pc)"
proof -
  let ?S = "baton_step quicwire_varint quicwire_capsule EOF"
  have "rtranclp ?S ((False, fst bp), snd bp) ((False, fst (pump bp)), snd (pump bp))"
    by (rule r_into_rtranclp) (rule pump_step [OF assms(1)])
  from this pump_step [OF assms(2)] have "rtranclp ?S ((False, fst bp), snd bp) ((False, fst (pump (pump bp))), snd (pump (pump bp)))"
    by (rule rtranclp.rtrancl_into_rtrancl)
  from this assms(3) show ?thesis by (rule rtranclp.rtrancl_into_rtrancl)
qed

lemma cli_run:
  "rtranclp (baton_step quicwire_varint quicwire_capsule EOF)
     ((False, short_cli), Running first_bytes) ((False, cli_accepted), snd cli_read)"
proof -
  have "snd (pump (short_cli, Running first_bytes)) = Running (drop 8 first_bytes)"
    by code_simp
  moreover have "map_option fst (acceptUni_iter 0 None (fst cli_read)) = Some True" by code_simp
  then have "acceptUni_iter 0 None (fst cli_read) = Some (True, cli_accepted)" by (auto simp: cli_accepted_def)
  from baton_step.accept_uni [OF this]
  have "baton_step quicwire_varint quicwire_capsule EOF ((False, fst cli_read), snd cli_read) ((False, cli_accepted), snd cli_read)" .
  ultimately show ?thesis
    using two_pumps [of "(short_cli, Running first_bytes)"] by (simp add: cli_read_def)
qed

lemma srv_run:
  "rtranclp (baton_step quicwire_varint quicwire_capsule EOF)
     ((False, short_srv), Running reply_bytes) ((False, srv_accepted), snd srv_read)"
proof -
  have "snd (pump (short_srv, Running reply_bytes)) = Running (drop 8 reply_bytes)"
    by code_simp
  moreover have "map_option fst (acceptBidi_iter 0 None (fst srv_read)) = Some True" by code_simp
  then have "acceptBidi_iter 0 None (fst srv_read) = Some (True, srv_accepted)" by (auto simp: srv_accepted_def)
  from baton_step.accept_bidi [OF this]
  have "baton_step quicwire_varint quicwire_capsule EOF ((False, fst srv_read), snd srv_read) ((False, srv_accepted), snd srv_read)" .
  ultimately show ?thesis
    using two_pumps [of "(short_srv, Running reply_bytes)"] by (simp add: srv_read_def)
qed

definition duel_after :: "duel \<Rightarrow> bool \<Rightarrow> batonSession \<Rightarrow> batonSession \<Rightarrow> loop_pc \<Rightarrow> duel" where
  "duel_after d to b b' pc =
     d\<lparr>d_peer := (d_peer d)(to := b'), d_pc := (d_pc d)(to := pc),
       d_flight := (take 0 (d_flight d) @ drop (Suc 0) (d_flight d)) @
         map (\<lambda>(sid, m). (\<not> to, sid, m)) (messages quicwire_varint (drop (length (written (b_sess b))) (written (b_sess b'))))\<rparr>"

definition short_duel1 :: duel where
  "short_duel1 = duel_after short_duel False cli_accepted cli_handled (snd cli_read)"

definition short_duel2 :: duel where
  "short_duel2 = duel_after short_duel1 True srv_accepted srv_handled (snd srv_read)"

lemma first_message: "duel_step quicwire_varint quicwire_capsule EOF short_duel short_duel1"
  unfolding short_duel1_def duel_after_def
proof (rule duel_step.message [where sid = 3 and raw = "[0, 255]" and j = 0 and src = "SrcReceive 0" and sz = "\<lambda>_. 511"])
  have f: "d_flight short_duel = [(False, 3, [0, 255])]" by code_simp
  show "0 < length (d_flight short_duel)" "d_flight short_duel ! 0 = (False, 3, [0, 255])" by (simp_all add: f)
  have p: "d_peer short_duel False = short_cli" "d_pc short_duel False = Running first_bytes"
    by (simp_all add: short_duel_def duel_start_def)
  show "rtranclp (baton_step quicwire_varint quicwire_capsule EOF)
     ((False, d_peer short_duel False), d_pc short_duel False) ((False, cli_accepted), snd cli_read)"
    unfolding p by (rule cli_run)
  show "status cli_accepted = status (d_peer short_duel False)" "written (b_sess cli_accepted) = written (b_sess (d_peer short_duel False))"
    unfolding p by code_simp+
  have i: "b_inflight cli_accepted = [(SrcReceive 0, kindUni)]" by code_simp
  have k: "seen_as False 3 = kindUni" by code_simp
  show "0 < length (b_inflight cli_accepted)" "b_inflight cli_accepted ! 0 = (SrcReceive 0, seen_as False 3)"
    by (simp_all add: i k)
  show "arrived (b_sess cli_accepted) 3 [0, 255] (SrcReceive 0)" by code_simp
  have "map_option b_active (handleIncoming quicwire_varint (\<lambda>_. 511)
     (cli_accepted\<lparr>b_inflight := take 0 (b_inflight cli_accepted) @ drop (Suc 0) (b_inflight cli_accepted)\<rparr>) (SrcReceive 0) kindUni) = Some 0"
    by code_simp
  then show "handleIncoming quicwire_varint (\<lambda>_. 511)
     (cli_accepted\<lparr>b_inflight := take 0 (b_inflight cli_accepted) @ drop (Suc 0) (b_inflight cli_accepted)\<rparr>) (SrcReceive 0)
     (seen_as False 3) = Some cli_handled"
    unfolding k cli_handled_def by (auto simp del: take_0)
qed

lemma second_message: "duel_step quicwire_varint quicwire_capsule EOF short_duel1 short_duel2"
  unfolding short_duel2_def duel_after_def
proof (rule duel_step.message [where sid = 0 and raw = "[0, 0]" and j = 0 and src = "fst (b_inflight srv_accepted ! 0)" and sz = "\<lambda>_. 511"])
  have f: "d_flight short_duel1 = [(True, 0, [0, 0])]" by code_simp
  show "0 < length (d_flight short_duel1)" "d_flight short_duel1 ! 0 = (True, 0, [0, 0])" by (simp_all add: f)
  have p: "d_peer short_duel1 True = short_srv" "d_pc short_duel1 True = Running reply_bytes"
    by (simp_all add: short_duel1_def duel_after_def short_duel_def duel_start_def)
  show "rtranclp (baton_step quicwire_varint quicwire_capsule EOF)
     ((False, d_peer short_duel1 True), d_pc short_duel1 True) ((False, srv_accepted), snd srv_read)"
    unfolding p by (rule srv_run)
  show "status srv_accepted = status (d_peer short_duel1 True)" "written (b_sess srv_accepted) = written (b_sess (d_peer short_duel1 True))"
    unfolding p by code_simp+
  have i: "map snd (b_inflight srv_accepted) = [kindPeerBidi]" by code_simp
  have k: "seen_as True 0 = kindPeerBidi" by code_simp
  show "0 < length (b_inflight srv_accepted)" "b_inflight srv_accepted ! 0 = (fst (b_inflight srv_accepted ! 0), seen_as True 0)"
    using i by (auto simp: k)
  show "arrived (b_sess srv_accepted) 0 [0, 0] (fst (b_inflight srv_accepted ! 0))" by code_simp
  have "map_option b_active (handleIncoming quicwire_varint (\<lambda>_. 511)
     (srv_accepted\<lparr>b_inflight := take 0 (b_inflight srv_accepted) @ drop (Suc 0) (b_inflight srv_accepted)\<rparr>)
     (fst (b_inflight srv_accepted ! 0)) kindPeerBidi) = Some 0"
    by code_simp
  then show "handleIncoming quicwire_varint (\<lambda>_. 511)
     (srv_accepted\<lparr>b_inflight := take 0 (b_inflight srv_accepted) @ drop (Suc 0) (b_inflight srv_accepted)\<rparr>)
     (fst (b_inflight srv_accepted ! 0)) (seen_as True 0) = Some srv_handled"
    unfolding k srv_handled_def by (auto simp del: take_0)
qed

theorem baton_duel_witness:
  "wire_bytes (b_sess short_srv) = first_bytes \<and> wire_bytes (b_sess cli_handled) = reply_bytes \<and>
   (duel_step quicwire_varint quicwire_capsule EOF ^^ 2) short_duel short_duel2 \<and> d_flight short_duel2 = [] \<and>
   (\<forall>side. b_done (d_peer short_duel2 side) \<and> Run_result (d_peer short_duel2 side) = None)"
proof -
  have r: "(duel_step quicwire_varint quicwire_capsule EOF ^^ 2) short_duel short_duel2"
    using first_message second_message by (auto simp: numeral_2_eq_2)
  have "map_option fst (baton_setup quicwire_varint (Inr 0) (Run_start (newSessionConfigured ''baton'' True None) True short_cfg [])) =
      Some None" by code_simp
  then have s: "baton_setup quicwire_varint (Inr 0) (Run_start (newSessionConfigured ''baton'' True None) True short_cfg []) =
      Some (None, short_srv)"
    by (auto simp: short_srv_def)
  have c: "Padding short_cfg < 2 ^ 62" "1 \<le> Count short_cfg" "Count short_cfg = 1" by (simp_all add: short_cfg_def defaultConfig_def)
  have x: "Baton (b_cfg short_srv) = 255" by code_simp
  have "b_err srv_handled = None" "b_err cli_handled = None" by code_simp+
  then have e: "\<forall>side. b_err (d_peer short_duel2 side) = None"
    by (auto simp: short_duel2_def short_duel1_def duel_after_def)
  from baton_duel [OF qw.varint_codec_axioms c(1,1,2) refl s _ e, of 2 quicwire_capsule EOF "''baton''" None "[]" reply_bytes first_bytes] r c(3) x
  have "d_flight short_duel2 = []" "d_flight short_duel2 = [] \<longrightarrow>
    (\<forall>side. b_done (d_peer short_duel2 side) \<and> Run_result (d_peer short_duel2 side) = None)"
    unfolding short_duel_def by simp_all
  moreover have "wire_bytes (b_sess short_srv) = first_bytes" "wire_bytes (b_sess cli_handled) = reply_bytes" by code_simp+
  ultimately show ?thesis using r by simp
qed

end
