(* ===== verification/Echo_Channels.thy ===== *)
theory Echo_Channels
  imports Echo_Trip
begin

text \<open>
  The echo of a unidirectional stream and of a datagram, end to end, as Echo_Trip has it for a bidirectional stream:
  the bytes that one endpoint flushed are the input of the other.
\<close>

section \<open>Unidirectional streams\<close>

text \<open>The first unidirectional stream of an endpoint.\<close>

definition first_uni :: "bool \<Rightarrow> stream_id" where
  "first_uni srv = (if srv then 3 else 2)"

text \<open>An endpoint that has not opened a stream yet.\<close>

definition unopened :: "bool \<Rightarrow> peerInitialLimits \<Rightarrow> Session \<Rightarrow> bool" where
  "unopened srv pl s \<longleftrightarrow> isServer s = srv \<and> \<not> stop s \<and> \<not> done_ch s \<and> createdStreamCounter s = 0 \<and> sends s = [] \<and>
     limits s = adoptPeerSendLimits zero_sendLimits pl \<and> StreamReceiveBufferSize s = 65536"

text \<open>An endpoint that has received no unidirectional stream yet.\<close>

definition unreceived :: "Session \<Rightarrow> bool" where
  "unreceived s \<longleftrightarrow> \<not> stop s \<and> \<not> done_ch s \<and> receiveStreams s = Map.empty \<and> recvs s = [] \<and>
     incomingUnidirectionalStreams s = [] \<and> StreamReceiveBufferSize s = 65536"

lemma new_session_fresh:
  "unopened srv pl (newSessionConfigured pr srv (Some pl))" "unreceived (newSessionConfigured pr srv peer)"
  by (simp_all add: unopened_def unreceived_def newSessionConfigured_def defaultReceiveBufferSize_def)

lemma uni_sent:
  assumes "unopened srv pl s" and "vappend V (first_uni srv) = Some h" and "length p \<le> 65536" and "0 < peer_maxStreamsUni pl"
    and "length p \<le> unat (peer_maxData pl)" and "length p \<le> unat (peer_streamDataUni pl)"
  shows "\<exists>s'. send_uni V s p None None = Some (None, s') \<and>
    written s' = written s @ [(CapsuleWTStream, h @ p), (CapsuleWTStreamFin, h)] \<and> flushed s' = length (written s') \<and>
    isServer s' = isServer s \<and> (unreceived s \<longrightarrow> unreceived s') \<and> recvs s' = recvs s"
proof -
  note s = assms(1) [unfolded unopened_def]
  let ?l = "(adoptPeerSendLimits zero_sendLimits pl)\<lparr>openedUni := 1, streamMax := [first_uni srv \<mapsto> peer_streamDataUni pl]\<rparr>"
  have "fst (reserveSendData ?l (first_uni srv) (length p)) = None"
    using assms by (intro reserve_unsent) (simp_all add: adoptPeerSendLimits_def zero_sendLimits_def go_index_def)
  then obtain l where "reserveSendData ?l (first_uni srv) (length p) = (None, l)" by (metis prod.collapse)
  moreover have "allocLocalStream srv 0 (adoptPeerSendLimits zero_sendLimits pl) False = (Inr (first_uni srv), 4, ?l)"
    using assms(4) by (cases srv) (simp_all add: allocLocalStream_def nextStreamID_def ensureStreamSendLimitLocked_def
        adoptPeerSendLimits_def zero_sendLimits_def initialStreamSendLimitLocked_def isBidirectionalStream_def isOurStream_def
        first_uni_def Let_def word_gt_0 not_le)
  ultimately show ?thesis
    using assms(2) s
    by (simp add: send_uni_def OpenUnidirectionalStream_def newSendStream_def write_payload_def SendStream_Write_def
        SendStream_Close_def upd_send_def writeCapsule_def flush_ok_def unreceived_def Session_Flush_def Let_def)
qed

lemma uni_received:
  assumes "unreceived s" and "length p \<le> 65536" and "isServer s = srv"
  shows "\<exists>s1 s2. (\<forall>k rest. readLoop_stream k s (first_uni (\<not> srv)) p False rest = Next s1 rest) \<and> \<not> stop s1 \<and>
    (\<forall>k rest. readLoop_stream k s1 (first_uni (\<not> srv)) [] True rest = Next s2 rest) \<and>
    incomingUnidirectionalStreams s2 = [0] \<and> \<not> done_ch s2 \<and> (unopened srv' pl s \<longrightarrow> unopened srv' pl s2) \<and>
    written s2 = written s \<and>
    recvs s2 = [\<lparr>rs_ID = first_uni (\<not> srv), rs_closed = False,
      recvBuffer = (newStreamReceiveBuffer 65536)\<lparr>srb_data := p, srb_closed := True\<rparr>\<rparr>]"
proof -
  have "\<not> isBidirectionalStream (first_uni (\<not> srv))" "\<not> isOurStream srv (first_uni (\<not> srv))"
    by (cases srv; simp add: first_uni_def isBidirectionalStream_def isOurStream_def)+
  with assms show ?thesis
    by (simp add: readLoop_stream_def newReceiveStream_def accept_uni_def enqueueIncomingUniStream_def select_ready_def
        incoming_capacity_def deliver_uni_def receiveStreamData_def streamReceiveBuffer_write_def finishReceive_def
        newStreamReceiveBuffer_def streamReceiveBuffer_close_def upd_recv_def unreceived_def unopened_def Let_def)
qed

lemma server_echoes_uni:
  assumes "wire V K" and "vappend V 2 = Some h" and "vappend V 3 = Some h'"
    and "capsule_codec.write_all K [(CapsuleWTStream, h @ p), (CapsuleWTStreamFin, h)] = Some b"
    and "length p \<le> 65536" and "0 < peer_maxStreamsUni ps" and "length p \<le> unat (peer_maxData ps)"
    and "length p \<le> unat (peer_streamDataUni ps)"
  shows "\<exists>s. rtranclp (echo_step V K e) (runEchoServer (newSessionConfigured pr True (Some ps)), Running b)
      (runEchoServer s, Running []) \<and> written s = [(CapsuleWTStream, h' @ p), (CapsuleWTStreamFin, h')] \<and>
    flushed s = length (written s)"
proof -
  let ?n = "newSessionConfigured pr True (Some ps)"
  have f: "first_uni (\<not> True) = 2" "first_uni True = 3" "isServer ?n = True" "\<not> stop ?n" "written ?n = []"
    by (simp_all add: first_uni_def newSessionConfigured_def)
  obtain s1 s2 where s: "\<And>k rest. readLoop_stream k ?n 2 p False rest = Next s1 rest" "\<not> stop s1"
    "\<And>k rest. readLoop_stream k s1 2 [] True rest = Next s2 rest"
    and q: "incomingUnidirectionalStreams s2 = [0]" "\<not> done_ch s2" "unopened True ps s2" "written s2 = []"
    and r: "recvs s2 = [\<lparr>rs_ID = 2, rs_closed = False, recvBuffer = (newStreamReceiveBuffer 65536)\<lparr>srb_data := p, srb_closed := True\<rparr>\<rparr>]"
    using uni_received [OF new_session_fresh(2) assms(5) f(3), of True ps] new_session_fresh(1) [of True ps pr] f(1,5) by auto
  have "session_reach V K e (?n, Running b) (s2, Running [])"
    by (rule wire.two_capsules [OF assms(1,2,5,4) f(4) s])
  from echo_session_steps [OF this, of "runEchoServer ?n" "Running b"]
  have r1: "rtranclp (echo_step V K e) (runEchoServer ?n, Running b) (runEchoServer s2, Running [])"
    by (simp add: runEchoServer_def)
  let ?s3 = "s2\<lparr>incomingUnidirectionalStreams := []\<rparr>"
  have "echoUniLoop_iter 0 None (runEchoServer s2) = Some (True, (runEchoServer ?s3)\<lparr>es_jobs := [EchoUni 0]\<rparr>)"
    using q(1,2) by (simp add: echoUniLoop_iter_def AcceptUnidirectionalStream_def select_ready_def runEchoServer_def)
  then have "echo_step V K e (runEchoServer s2, Running []) ((runEchoServer ?s3)\<lparr>es_jobs := [EchoUni 0]\<rparr>, Running [])"
    using echo_step.uni_loop [of "runEchoServer s2" 0 None True _ V K e "Running []"] by (simp add: runEchoServer_def)
  with r1 have r2: "rtranclp (echo_step V K e) (runEchoServer ?n, Running b) ((runEchoServer ?s3)\<lparr>es_jobs := [EchoUni 0]\<rparr>, Running [])"
    by (rule rtranclp.rtrancl_into_rtrancl)
  let ?s4 = "upd_recv ?s3 0 (\<lambda>x. x\<lparr>recvBuffer := (newStreamReceiveBuffer 65536)\<lparr>srb_data := [], srb_closed := True\<rparr>\<rparr>)"
  have "unopened True ps ?s4" "written ?s4 = []" using q(3,4) by (simp_all add: unopened_def upd_recv_def)
  with uni_sent [of True ps ?s4 V h' p] assms(3,5-8) f(2) obtain s5 where s5: "send_uni V ?s4 p None None = Some (None, s5)"
    "written s5 = [(CapsuleWTStream, h' @ p), (CapsuleWTStreamFin, h')]" "flushed s5 = length (written s5)"
    by auto
  have "srb_ReadAll (\<lambda>_. 0) 0 (recvBuffer (recvs ?s3 ! 0)) =
      Some (p, (newStreamReceiveBuffer 65536)\<lparr>srb_data := [], srb_closed := True\<rparr>)"
    using srb_ReadAll_closed [of "recvBuffer (recvs ?s3 ! 0)"] r by simp
  then have "echoUni V (\<lambda>_. 0) ?s3 0 None None = Some (None, s5)" using s5(1) by (simp add: echoUni_def)
  moreover have "in_memory ?s3" using r assms(5) by (simp add: in_memory_def)
  ultimately have "echo_step V K e ((runEchoServer ?s3)\<lparr>es_jobs := [EchoUni 0]\<rparr>, Running []) (runEchoServer s5, Running [])"
    by (intro echo_step.job [where i = 0 and sz = "\<lambda>_. 0" and ?w1.0 = None and ?w2.0 = None])
      (simp_all add: runEchoServer_def log_line_def)
  with r2 have "rtranclp (echo_step V K e) (runEchoServer ?n, Running b) (runEchoServer s5, Running [])"
    by (rule rtranclp.rtrancl_into_rtrancl)
  with s5(2,3) show ?thesis by blast
qed

lemma uni_trip:
  assumes "wire V K" and "length p \<le> 65536" and "0 < peer_maxStreamsUni pc" and "0 < peer_maxStreamsUni ps"
    and "length p \<le> unat (peer_maxData pc)" and "length p \<le> unat (peer_streamDataUni pc)"
    and "length p \<le> unat (peer_maxData ps)" and "length p \<le> unat (peer_streamDataUni ps)"
  shows "\<exists>c b srv b' c' r c'' c3.
    exchangeUni_send V (newSessionConfigured pr False (Some pc)) p None None = Some (None, c) \<and>
    capsule_codec.write_all K (take (flushed c) (written c)) = Some b \<and>
    rtranclp (echo_step V K e) (runEchoServer (newSessionConfigured pr True (Some ps)), Running b) (srv, Running []) \<and>
    es_log srv = [] \<and> es_jobs srv = [] \<and>
    capsule_codec.write_all K (take (flushed (es_sess srv)) (written (es_sess srv))) = Some b' \<and>
    session_reach V K e (c, Running b') (c', Running []) \<and>
    exchangeUni_accept k None c' = Some (Inr r, c'') \<and>
    exchangeUni_reply sz k None c'' r = Some (Inr p, c3) \<and> RunClient_check ModeUni p (Inr p) = None"
proof -
  have wv: "varint_codec V" using assms(1) by (simp add: wire_def)
  obtain h h' where h: "vappend V 2 = Some h" "vappend V 3 = Some h'"
    using varint_codec.append_small [OF wv, of 2] varint_codec.append_small [OF wv, of 3] by auto
  let ?n = "newSessionConfigured pr False (Some pc)"
  have f: "first_uni False = 2" "first_uni (\<not> False) = 3" "written ?n = []" "isServer ?n = False"
    by (simp_all add: first_uni_def newSessionConfigured_def)
  obtain c where c: "send_uni V ?n p None None = Some (None, c)" "written c = [(CapsuleWTStream, h @ p), (CapsuleWTStreamFin, h)]"
    "flushed c = length (written c)" "isServer c = False" "unreceived c"
    using uni_sent [OF new_session_fresh(1), of V False h p pc pr] h(1) f assms(2,3,5,6) new_session_fresh(2) by auto
  obtain b b' where b: "capsule_codec.write_all K [(CapsuleWTStream, h @ p), (CapsuleWTStreamFin, h)] = Some b"
    "capsule_codec.write_all K [(CapsuleWTStream, h' @ p), (CapsuleWTStreamFin, h')] = Some b'"
    using wire.two_written [OF assms(1) h(1) assms(2)] wire.two_written [OF assms(1) h(2) assms(2)] by blast
  obtain s where s: "rtranclp (echo_step V K e) (runEchoServer (newSessionConfigured pr True (Some ps)), Running b)
      (runEchoServer s, Running [])" "written s = [(CapsuleWTStream, h' @ p), (CapsuleWTStreamFin, h')]"
    "flushed s = length (written s)"
    using server_echoes_uni [OF assms(1) h b(1) assms(2,4,7,8), of e pr] by blast
  obtain c1 c2 where cc: "\<And>k rest. readLoop_stream k c 3 p False rest = Next c1 rest" "\<not> stop c1"
    "\<And>k rest. readLoop_stream k c1 3 [] True rest = Next c2 rest"
    and q: "incomingUnidirectionalStreams c2 = [0]" "\<not> done_ch c2"
    and r: "recvs c2 = [\<lparr>rs_ID = 3, rs_closed = False, recvBuffer = (newStreamReceiveBuffer 65536)\<lparr>srb_data := p, srb_closed := True\<rparr>\<rparr>]"
    using uni_received [OF c(5) assms(2) c(4), of False pc] f(2) by auto
  have st: "\<not> stop c" using c(5) by (simp add: unreceived_def)
  have "session_reach V K e (c, Running b') (c2, Running [])"
    by (rule wire.two_capsules [OF assms(1) h(2) assms(2) b(2) st cc])
  moreover have "exchangeUni_accept k None c2 = Some (Inr 0, c2\<lparr>incomingUnidirectionalStreams := []\<rparr>)"
    using q by (simp add: exchangeUni_accept_def AcceptUnidirectionalStream_def select_ready_def)
  moreover obtain c3 where "exchangeUni_reply sz k None (c2\<lparr>incomingUnidirectionalStreams := []\<rparr>) 0 = Some (Inr p, c3)"
    using srb_ReadAll_closed [of "recvBuffer (recvs c2 ! 0)" sz 0] r
    by (simp add: exchangeUni_reply_def readAllContext_def select_ready_def)
  moreover have "RunClient_check ModeUni p (Inr p) = None" by (simp add: RunClient_check_def)
  ultimately show ?thesis
    using c(1-3) b s
    by (intro exI [of _ c] exI [of _ b] exI [of _ "runEchoServer s"] exI [of _ b'] exI [of _ c2] exI [of _ 0]
        exI [of _ "c2\<lparr>incomingUnidirectionalStreams := []\<rparr>"] exI [of _ c3]) (simp add: runEchoServer_def exchangeUni_send_def)
qed

section \<open>Datagrams\<close>

text \<open>An endpoint with an empty datagram buffer.\<close>

definition idle_datagrams :: "Session \<Rightarrow> bool" where
  "idle_datagrams s \<longleftrightarrow> \<not> stop s \<and> datagramBuffer s = newDatagramReceiveBuffer 65536"

lemma datagram_sent:
  assumes "idle_datagrams s"
  shows "\<exists>s'. exchangeDatagram_send s p None = (None, s') \<and> written s' = written s @ [(CapsuleDatagram, p)] \<and>
    flushed s' = length (written s') \<and> idle_datagrams s'"
  using assms by (simp add: exchangeDatagram_send_def SendDatagram_def writeCapsule_def Session_Flush_def idle_datagrams_def)

context wire
begin

lemma one_datagram:
  assumes "write_all [(CapsuleDatagram, p)] = Some b" and "length p < 2 ^ 62" and "\<not> stop s"
  shows "session_reach V K e (s, Running b) (deliverDatagram s p, Running [])"
proof -
  obtain b1 where b: "cap_write K CapsuleDatagram p = Some b1" "b = b1 @ []"
    using assms(1) by (auto split: option.splits)
  have "readLoop_iter V K 0 s b e = Next (deliverDatagram s p) []"
    unfolding b(2) iter_capsule [OF assms(3) b(1) assms(2)] by (simp add: readLoop_capsule_def capsule_types ReadAll_def)
  then have "session_step V K e (s, Running b) (deliverDatagram s p, Running [])"
    using session_step.loop [of V K e s b 0] by (simp add: after_iter_def)
  then show ?thesis by (blast intro: session_reach.intros)
qed

lemma datagram_written: "length p < 2 ^ 62 \<Longrightarrow> \<exists>b. write_all [(CapsuleDatagram, p)] = Some b"
  by (intro write_all_ok) (auto simp: CapsuleDatagram_def)

end

text \<open>A datagram of at most 64 KiB reaches the reader of an endpoint that has none queued.\<close>

lemma datagram_received:
  assumes "idle_datagrams s" and "length p \<le> 65536"
  shows "\<exists>s'. ReceiveDatagram ctx (deliverDatagram s p) = Some (Inr p, s') \<and> written s' = written s \<and> \<not> stop s'"
  using assms
  by (simp add: idle_datagrams_def deliverDatagram_def datagramReceiveBuffer_write_def newDatagramReceiveBuffer_def
      ReceiveDatagram_def ReceiveDatagram_poll_def datagramReceiveBuffer_poll_def)

lemma server_echoes_datagram:
  assumes "wire V K" and "capsule_codec.write_all K [(CapsuleDatagram, p)] = Some b" and "length p \<le> 65536"
  shows "\<exists>s. rtranclp (echo_step V K e) (runEchoServer (newSessionConfigured pr True peer), Running b)
      (runEchoServer s, Running []) \<and> written s = [(CapsuleDatagram, p)] \<and> flushed s = length (written s)"
proof -
  let ?n = "newSessionConfigured pr True peer"
  have n: "idle_datagrams ?n" "written ?n = []" "\<not> stop ?n"
    by (simp_all add: idle_datagrams_def newSessionConfigured_def defaultReceiveBufferSize_def)
  have "session_reach V K e (?n, Running b) (deliverDatagram ?n p, Running [])"
    using wire.one_datagram [OF assms(1,2) _ n(3)] assms(3) by simp
  from echo_session_steps [OF this, of "runEchoServer ?n" "Running b"]
  have r: "rtranclp (echo_step V K e) (runEchoServer ?n, Running b) (runEchoServer (deliverDatagram ?n p), Running [])"
    by (simp add: runEchoServer_def)
  obtain s where s: "ReceiveDatagram None (deliverDatagram ?n p) = Some (Inr p, s)" "written s = []" "\<not> stop s"
    using datagram_received [OF n(1) assms(3)] n(2) by auto
  let ?s = "Session_Flush (s\<lparr>written := [(CapsuleDatagram, p)]\<rparr>)"
  have "echoDatagramLoop_iter None None (runEchoServer (deliverDatagram ?n p)) = Some (True, runEchoServer ?s)"
    using s by (simp add: echoDatagramLoop_iter_def runEchoServer_def SendDatagram_def writeCapsule_def)
  then have "echo_step V K e (runEchoServer (deliverDatagram ?n p), Running []) (runEchoServer ?s, Running [])"
    using echo_step.datagram_loop [of "runEchoServer (deliverDatagram ?n p)" None None True _ V K e "Running []"]
    by (simp add: runEchoServer_def)
  with r have "rtranclp (echo_step V K e) (runEchoServer ?n, Running b) (runEchoServer ?s, Running [])"
    by (rule rtranclp.rtrancl_into_rtrancl)
  then show ?thesis by (intro exI [of _ ?s]) (simp add: Session_Flush_def)
qed

lemma datagram_trip:
  assumes "wire V K" and "length p \<le> 65536"
  shows "\<exists>c b srv b' c' c''.
    exchangeDatagram_send (newSessionConfigured pr False pc) p None = (None, c) \<and>
    capsule_codec.write_all K (take (flushed c) (written c)) = Some b \<and>
    rtranclp (echo_step V K e) (runEchoServer (newSessionConfigured pr True ps), Running b) (srv, Running []) \<and>
    es_log srv = [] \<and> es_jobs srv = [] \<and>
    capsule_codec.write_all K (take (flushed (es_sess srv)) (written (es_sess srv))) = Some b' \<and>
    session_reach V K e (c, Running b') (c', Running []) \<and>
    exchangeDatagram_reply None c' = Some (Inr p, c'') \<and> RunClient_check ModeDatagram p (Inr p) = None"
proof -
  let ?n = "newSessionConfigured pr False pc"
  have n: "idle_datagrams ?n" "written ?n = []"
    by (simp_all add: idle_datagrams_def newSessionConfigured_def defaultReceiveBufferSize_def)
  obtain c where c: "exchangeDatagram_send ?n p None = (None, c)" "written c = [(CapsuleDatagram, p)]"
    "flushed c = length (written c)" "idle_datagrams c"
    using datagram_sent [OF n(1), of p] n(2) by auto
  obtain b where b: "capsule_codec.write_all K [(CapsuleDatagram, p)] = Some b"
    using wire.datagram_written [OF assms(1)] assms(2) by fastforce
  obtain s where s: "rtranclp (echo_step V K e) (runEchoServer (newSessionConfigured pr True ps), Running b) (runEchoServer s, Running [])"
    "written s = [(CapsuleDatagram, p)]" "flushed s = length (written s)"
    using server_echoes_datagram [OF assms(1) b assms(2)] by blast
  have "session_reach V K e (c, Running b) (deliverDatagram c p, Running [])"
    using wire.one_datagram [OF assms(1) b] assms(2) c(4) by (simp add: idle_datagrams_def)
  moreover obtain c'' where "ReceiveDatagram None (deliverDatagram c p) = Some (Inr p, c'')"
    using datagram_received [OF c(4) assms(2)] by blast
  ultimately show ?thesis
    using c(1-3) b s
    by (intro exI [of _ c] exI [of _ b] exI [of _ "runEchoServer s"] exI [of _ b] exI [of _ "deliverDatagram c p"] exI [of _ c''])
      (simp add: runEchoServer_def exchangeDatagram_reply_def RunClient_check_def)
qed

end
