(* ===== verification/Echo_Client.thy ===== *)
theory Echo_Client
  imports Echo_Channels
begin

text \<open>
  \<^verbatim>\<open>RunClient\<close> as a program of small steps, one for each call on the session, between which the read loop and the
  rest of the program can run; that it uses its session legally; and its exchange with the echo server in each mode.
\<close>

section \<open>The steps of RunClient\<close>

text \<open>Where \<^verbatim>\<open>RunClient\<close> is: before the switch over the mode, in one of the three exchanges, or returned.\<close>

datatype client_pc =
    Exchange
  | BidiWrite Stream | BidiFin Stream | BidiFlush Stream | BidiRead Stream
  | UniWrite nat | UniFin nat | UniFlush | UniAccept | UniRead nat
  | DgramFlush | DgramReceive
  | Returned "go_err option"

record echoClient =
  ec_sess :: Session
  ec_pc :: client_pc

text \<open>The arguments \<open>sz\<close>, \<open>k\<close>, \<open>ctx\<close> and \<open>w\<close> are the sizes of the reads, the choice of a select, the error of the context
  if it is done, and the outcome of a write; \<open>None\<close> is a call that waits (or the panic of a write that cannot
  encode its stream).\<close>

definition after_write :: "(go_err option \<times> Session) option \<Rightarrow> client_pc \<Rightarrow> echoClient option" where
  "after_write r pc =
     map_option (\<lambda>(err, s). \<lparr>ec_sess = s, ec_pc = (case err of None \<Rightarrow> pc | Some e \<Rightarrow> Returned (Some e))\<rparr>) r"

definition after_open :: "(go_err + 'a) \<times> Session \<Rightarrow> ('a \<Rightarrow> client_pc) \<Rightarrow> echoClient" where
  "after_open r pc = (case r of (x, s) \<Rightarrow> \<lparr>ec_sess = s, ec_pc = (case x of Inr a \<Rightarrow> pc a | Inl e \<Rightarrow> Returned (Some e))\<rparr>)"

fun RunClient_next ::
  "varint_ops \<Rightarrow> Mode \<Rightarrow> bytes \<Rightarrow> (nat \<Rightarrow> nat) \<Rightarrow> nat \<Rightarrow> go_err option \<Rightarrow> go_err option \<Rightarrow> Session \<Rightarrow> client_pc \<Rightarrow>
   echoClient option" where
  "RunClient_next V mode payload sz k ctx w s Exchange =
     (if mode = ModeBidi then Some (after_open (OpenStream s) BidiWrite)
      else if mode = ModeUni then Some (after_open (OpenUnidirectionalStream s) UniWrite)
      else if mode = ModeDatagram then after_write (Some (SendDatagram s payload w)) DgramFlush
      else Some \<lparr>ec_sess = s, ec_pc = Returned (Some (ErrorsNew ''mode must be bidi, uni, or datagram''))\<rparr>)"
| "RunClient_next V mode payload sz k ctx w s (BidiWrite st) = after_write (write_payload V s (st_send st) payload w) (BidiFin st)"
| "RunClient_next V mode payload sz k ctx w s (BidiFin st) = after_write (SendStream_Close V s (st_send st) w) (BidiFlush st)"
| "RunClient_next V mode payload sz k ctx w s (BidiFlush st) = Some \<lparr>ec_sess = Session_Flush s, ec_pc = BidiRead st\<rparr>"
| "RunClient_next V mode payload sz k ctx w s (BidiRead st) =
     map_option (\<lambda>(r, s1). \<lparr>ec_sess = s1, ec_pc = Returned (RunClient_check mode payload r)\<rparr>) (exchangeBidi_reply sz k ctx s st)"
| "RunClient_next V mode payload sz k ctx w s (UniWrite out) = after_write (write_payload V s out payload w) (UniFin out)"
| "RunClient_next V mode payload sz k ctx w s (UniFin out) = after_write (SendStream_Close V s out w) UniFlush"
| "RunClient_next V mode payload sz k ctx w s UniFlush = Some \<lparr>ec_sess = Session_Flush s, ec_pc = UniAccept\<rparr>"
| "RunClient_next V mode payload sz k ctx w s UniAccept =
     map_option (\<lambda>r. after_open r UniRead) (exchangeUni_accept k ctx s)"
| "RunClient_next V mode payload sz k ctx w s (UniRead r) =
     map_option (\<lambda>(x, s1). \<lparr>ec_sess = s1, ec_pc = Returned (RunClient_check mode payload x)\<rparr>) (exchangeUni_reply sz k ctx s r)"
| "RunClient_next V mode payload sz k ctx w s DgramFlush = Some \<lparr>ec_sess = Session_Flush s, ec_pc = DgramReceive\<rparr>"
| "RunClient_next V mode payload sz k ctx w s DgramReceive =
     map_option (\<lambda>(r, s1). \<lparr>ec_sess = s1, ec_pc = Returned (RunClient_check mode payload r)\<rparr>) (exchangeDatagram_reply ctx s)"
| "RunClient_next V mode payload sz k ctx w s (Returned err) = None"

inductive client_step ::
  "varint_ops \<Rightarrow> capsule_ops \<Rightarrow> go_err \<Rightarrow> Mode \<Rightarrow> bytes \<Rightarrow> echoClient \<times> loop_pc \<Rightarrow> echoClient \<times> loop_pc \<Rightarrow> bool"
  for V K e mode payload where
  run: "RunClient_next V mode payload sz k ctx w (ec_sess c) (ec_pc c) = Some c' \<Longrightarrow>
    client_step V K e mode payload (c, pc) (c', pc)"
| session: "session_step V K e (ec_sess c, pc) (s1, pc') \<Longrightarrow> client_step V K e mode payload (c, pc) (c\<lparr>ec_sess := s1\<rparr>, pc')"

definition RunClient :: "Session \<Rightarrow> echoClient" where
  "RunClient session = \<lparr>ec_sess = session, ec_pc = Exchange\<rparr>"

section \<open>Legal use of the session\<close>

fun client_pc_ok :: "Session \<Rightarrow> client_pc \<Rightarrow> bool" where
  "client_pc_ok s (BidiWrite st) \<longleftrightarrow> job_ok s (EchoBidi st)"
| "client_pc_ok s (BidiFin st) \<longleftrightarrow> job_ok s (EchoBidi st)"
| "client_pc_ok s (BidiFlush st) \<longleftrightarrow> job_ok s (EchoBidi st)"
| "client_pc_ok s (BidiRead st) \<longleftrightarrow> job_ok s (EchoBidi st)"
| "client_pc_ok s (UniWrite w) \<longleftrightarrow> w < length (sends s)"
| "client_pc_ok s (UniFin w) \<longleftrightarrow> w < length (sends s)"
| "client_pc_ok s (UniRead r) \<longleftrightarrow> job_ok s (EchoUni r)"
| "client_pc_ok s _ \<longleftrightarrow> True"

definition client_refs :: "bytes \<Rightarrow> echoClient \<Rightarrow> bool" where
  "client_refs p c \<longleftrightarrow> length p < 2 ^ 63 \<and> client_pc_ok (ec_sess c) (ec_pc c)"

lemma client_pc_ok_mono:
  "client_pc_ok s pc \<Longrightarrow> length (recvs s) \<le> length (recvs s') \<Longrightarrow> length (sends s) \<le> length (sends s') \<Longrightarrow> client_pc_ok s' pc"
  by (cases pc) auto

lemma Open_job: "OpenStream s = (Inr st, s') \<Longrightarrow> job_ok s' (EchoBidi st)"
  by (auto simp: OpenStream_def newStream_def newReceiveStream_def newSendStream_def Let_def split: if_splits prod.splits sum.splits)

lemma readAllContext_uses:
  "readAllContext sz k ctx s r = Some (x, s') \<Longrightarrow> r < length (recvs s) \<Longrightarrow> uses V K e s s'"
  by (auto simp: readAllContext_def dest!: select_ready_in split: option.splits intro: uses_ReadAll uses_close_recv)

lemma accept_job:
  assumes "AcceptUnidirectionalStream k ctx s = Some (Inr r, s')" and "session_ok s"
  shows "job_ok s' (EchoUni r)"
proof -
  have "r < length (recvs s)"
    using Accept_queued(2) [OF assms(1)] assms(2) by (auto simp: session_ok_def queues_ok_def recv_ok_def points_def)
  then show ?thesis using job_ok_mono [of s "EchoUni r"] uses_lengths [OF uses_accept(2) [OF assms(1)] assms(2)] by simp
qed

lemma after_writeD:
  assumes "after_write r pc = Some c'" and "\<And>err s1. r = Some (err, s1) \<Longrightarrow> uses V K e s s1" and "client_pc_ok s pc"
  shows "uses V K e s (ec_sess c') \<and> client_pc_ok s (ec_pc c')"
  using assms by (auto simp: after_write_def split: option.splits)

lemma after_openD:
  assumes "r = (x, s1) \<Longrightarrow> uses V K e s s1" and "\<And>a. x = Inr a \<Longrightarrow> client_pc_ok s1 (pc a)" and "r = (x, s1)"
  shows "uses V K e s (ec_sess (after_open r pc)) \<and> client_pc_ok (ec_sess (after_open r pc)) (ec_pc (after_open r pc))"
  using assms by (auto simp: after_open_def split: sum.splits)

lemma RunClient_start_legal:
  assumes "RunClient_next V mode p sz k ctx w s Exchange = Some c'"
  shows "uses V K e s (ec_sess c') \<and> client_pc_ok (ec_sess c') (ec_pc c')"
proof -
  obtain x1 s1 x2 s2 where o: "OpenStream s = (x1, s1)" "OpenUnidirectionalStream s = (x2, s2)" by (metis prod.exhaust)
  have "uses V K e s (ec_sess (after_open (OpenStream s) BidiWrite)) \<and>
      client_pc_ok (ec_sess (after_open (OpenStream s) BidiWrite)) (ec_pc (after_open (OpenStream s) BidiWrite))"
    using o(1) Open_job [of s _ s1] by (intro after_openD) (auto intro: uses_open(1) [of s])
  moreover have "uses V K e s (ec_sess (after_open (OpenUnidirectionalStream s) UniWrite)) \<and>
      client_pc_ok (ec_sess (after_open (OpenUnidirectionalStream s) UniWrite)) (ec_pc (after_open (OpenUnidirectionalStream s) UniWrite))"
    using o(2) OpenUni_sends [of s _ s2] by (intro after_openD) (auto intro: uses_open(2) [of s])
  moreover have "uses V K e s (ec_sess d) \<and> client_pc_ok (ec_sess d) (ec_pc d)"
    if "after_write (Some (SendDatagram s p w)) DgramFlush = Some d" for d
    using that uses_datagrams(1) [of s p w, where V = V and K = K and e = e]
    by (auto simp: after_write_def split: option.splits prod.splits)
  ultimately show ?thesis using assms by (auto split: if_splits)
qed

lemma RunClient_accept_legal:
  assumes "RunClient_next V mode p sz k ctx w s UniAccept = Some c'" and "session_ok s"
  shows "uses V K e s (ec_sess c') \<and> client_pc_ok (ec_sess c') (ec_pc c')"
proof -
  obtain x s1 where a: "AcceptUnidirectionalStream k ctx s = Some (x, s1)" "c' = after_open (x, s1) UniRead"
    using assms(1) by (auto simp: exchangeUni_accept_def)
  have "uses V K e s (ec_sess (after_open (x, s1) UniRead)) \<and>
      client_pc_ok (ec_sess (after_open (x, s1) UniRead)) (ec_pc (after_open (x, s1) UniRead))"
    using a(1) accept_job [OF _ assms(2)] uses_accept(2) [OF a(1)] by (intro after_openD) auto
  with a(2) show ?thesis by simp
qed

text \<open>A step of \<^verbatim>\<open>RunClient\<close> uses the session, and what it holds on to points into the session.\<close>

lemma RunClient_next_legal:
  assumes "RunClient_next V mode p sz k ctx w s pc = Some c'" and "session_ok s" and "client_pc_ok s pc" and "length p < 2 ^ 63"
  shows "uses V K e s (ec_sess c') \<and> client_pc_ok (ec_sess c') (ec_pc c')"
proof -
  have keep: ?thesis if "uses V K e s (ec_sess c') \<and> client_pc_ok s (ec_pc c')"
    using that client_pc_ok_mono uses_lengths [OF _ assms(2)] by blast
  show ?thesis
  proof (cases pc)
    case Exchange
    with assms(1) show ?thesis using RunClient_start_legal by blast
  next
    case UniAccept
    with assms(1,2) show ?thesis using RunClient_accept_legal by blast
  next
    case (BidiWrite st)
    then show ?thesis using assms by (intro keep after_writeD) (auto intro: write_payload_uses)
  next
    case (BidiFin st)
    then show ?thesis using assms by (intro keep after_writeD) (auto intro: uses_close_send)
  next
    case (UniWrite st)
    then show ?thesis using assms by (intro keep after_writeD) (auto intro: write_payload_uses)
  next
    case (UniFin st)
    then show ?thesis using assms by (intro keep after_writeD) (auto intro: uses_close_send)
  next
    case (BidiRead st)
    then show ?thesis using assms by (intro keep) (auto simp: exchangeBidi_reply_def intro: readAllContext_uses)
  next
    case (UniRead st)
    then show ?thesis using assms by (intro keep) (auto simp: exchangeUni_reply_def intro: readAllContext_uses)
  next
    case DgramReceive
    then show ?thesis
      using assms by (auto simp: exchangeDatagram_reply_def intro: uses_ReceiveDatagram)
  qed (use assms keep uses_flush in \<open>auto\<close>)
qed

lemma client_step_legal:
  assumes "client_step V K e mode p (c, pc) (c', pc')" and "session_ok (ec_sess c)" and "client_refs p c"
  shows "session_reach V K e (ec_sess c, pc) (ec_sess c', pc') \<and> client_refs p c'"
  using assms(1)
proof (cases rule: client_step.cases)
  case (run sz k ctx w)
  with RunClient_next_legal [OF run(2) assms(2)] assms(3) show ?thesis by (simp add: client_refs_def uses_def)
next
  case (session s1)
  have st: "session_step V K e (ec_sess c, pc) (s1, pc')" using session by simp
  have "grows (ec_sess c) s1" using step_evolves [OF st] by (simp add: evolves_def)
  then have "client_pc_ok s1 (ec_pc c)" using assms(3) client_pc_ok_mono grows_lengths by (auto simp: client_refs_def)
  moreover have "session_reach V K e (ec_sess c, pc) (s1, pc')" using session_reach.start st by (rule session_reach.step)
  ultimately show ?thesis using session(1) assms(3) by (simp add: client_refs_def)
qed

interpretation echo_client: session_client V K e "client_step V K e mode p" ec_sess "client_refs p" for V K e mode p
  by unfold_locales (use client_step_legal in \<open>blast+\<close>)

section \<open>The exchange with the server\<close>

lemma RunClient_returned:
  "RunClient_next V mode p sz k ctx w (ec_sess c) (ec_pc c) = Some c' \<Longrightarrow>
   rtranclp (client_step V K e mode p) c0 (c, pc) \<Longrightarrow> rtranclp (client_step V K e mode p) c0 (c', pc)"
  by (blast intro: rtranclp.rtrancl_into_rtrancl client_step.run)

lemma client_session_steps:
  "session_reach V K e c d \<Longrightarrow> c = (ec_sess s, pc) \<Longrightarrow>
   rtranclp (client_step V K e mode p) (s, pc) (s\<lparr>ec_sess := fst d\<rparr>, snd d)"
proof (induction rule: session_reach.induct)
  case (step d d')
  have "client_step V K e mode p (s\<lparr>ec_sess := fst d\<rparr>, snd d) (s\<lparr>ec_sess := fst d'\<rparr>, snd d')"
    using client_step.session [of V K e "s\<lparr>ec_sess := fst d\<rparr>" "snd d" "fst d'" "snd d'"] step.hyps(2) by simp
  with step show ?case by auto
qed simp

text \<open>The steps up to the wait for the reply are the sending halves of the exchanges.\<close>

lemma bidi_send_steps:
  assumes "exchangeBidi_send V s p None None = Some (Inr st, c)"
  shows "rtranclp (client_step V K e ModeBidi p) (RunClient s, pc) (\<lparr>ec_sess = c, ec_pc = BidiRead st\<rparr>, pc)"
proof -
  let ?run = "rtranclp (client_step V K e ModeBidi p) (RunClient s, pc)"
  obtain s1 s2 s3 where s: "OpenStream s = (Inr st, s1)" "write_payload V s1 (st_send st) p None = Some (None, s2)"
    "SendStream_Close V s2 (st_send st) None = Some (None, s3)" "c = Session_Flush s3"
    using assms by (auto simp: exchangeBidi_send_def flush_ok_def split: option.splits prod.splits sum.splits)
  have "?run (\<lparr>ec_sess = s1, ec_pc = BidiWrite st\<rparr>, pc)"
    by (rule RunClient_returned [where c = "RunClient s" and w = None]) (simp_all add: RunClient_def after_open_def s(1))
  then have "?run (\<lparr>ec_sess = s2, ec_pc = BidiFin st\<rparr>, pc)"
    by (rule RunClient_returned [where w = None, rotated]) (simp add: after_write_def s(2))
  then have "?run (\<lparr>ec_sess = s3, ec_pc = BidiFlush st\<rparr>, pc)"
    by (rule RunClient_returned [where w = None, rotated]) (simp add: after_write_def s(3))
  then show ?thesis by (rule RunClient_returned [rotated]) (simp add: s(4))
qed

lemma uni_send_steps:
  assumes "exchangeUni_send V s p None None = Some (None, c)"
  shows "rtranclp (client_step V K e ModeUni p) (RunClient s, pc) (\<lparr>ec_sess = c, ec_pc = UniAccept\<rparr>, pc)"
proof -
  let ?run = "rtranclp (client_step V K e ModeUni p) (RunClient s, pc)"
  obtain out s1 s2 s3 where s: "OpenUnidirectionalStream s = (Inr out, s1)" "write_payload V s1 out p None = Some (None, s2)"
    "SendStream_Close V s2 out None = Some (None, s3)" "c = Session_Flush s3"
    using assms by (auto simp: exchangeUni_send_def send_uni_def flush_ok_def split: option.splits prod.splits sum.splits)
  have m: "ModeUni \<noteq> ModeBidi" by (simp add: ModeUni_def ModeBidi_def)
  have "?run (\<lparr>ec_sess = s1, ec_pc = UniWrite out\<rparr>, pc)"
    by (rule RunClient_returned [where c = "RunClient s" and w = None]) (simp_all add: RunClient_def after_open_def s(1) m)
  then have "?run (\<lparr>ec_sess = s2, ec_pc = UniFin out\<rparr>, pc)"
    by (rule RunClient_returned [where w = None, rotated]) (simp add: after_write_def s(2))
  then have "?run (\<lparr>ec_sess = s3, ec_pc = UniFlush\<rparr>, pc)"
    by (rule RunClient_returned [where w = None, rotated]) (simp add: after_write_def s(3))
  then show ?thesis by (rule RunClient_returned [rotated]) (simp add: s(4))
qed

lemma datagram_send_steps:
  assumes "exchangeDatagram_send s p None = (None, c)"
  shows "rtranclp (client_step V K e ModeDatagram p) (RunClient s, pc) (\<lparr>ec_sess = c, ec_pc = DgramReceive\<rparr>, pc)"
proof -
  let ?run = "rtranclp (client_step V K e ModeDatagram p) (RunClient s, pc)"
  obtain s1 where s: "SendDatagram s p None = (None, s1)" "c = Session_Flush s1"
    using assms by (auto simp: exchangeDatagram_send_def split: option.splits prod.splits)
  have m: "ModeDatagram \<noteq> ModeBidi" "ModeDatagram \<noteq> ModeUni" by (simp_all add: ModeUni_def ModeBidi_def ModeDatagram_def)
  have "?run (\<lparr>ec_sess = s1, ec_pc = DgramFlush\<rparr>, pc)"
    by (rule RunClient_returned [where c = "RunClient s" and w = None]) (simp_all add: RunClient_def after_write_def s(1) m)
  then show ?thesis by (rule RunClient_returned [rotated]) (simp add: s(2))
qed

text \<open>A whole exchange: what the client flushed reaches the server, what the server flushed reaches the client, and
  \<^verbatim>\<open>RunClient\<close> returns nil.\<close>

definition echo_exchange ::
  "varint_ops \<Rightarrow> capsule_ops \<Rightarrow> go_err \<Rightarrow> Mode \<Rightarrow> bytes \<Rightarrow> Session \<Rightarrow> Session \<Rightarrow> bool" where
  "echo_exchange V K e mode p cli ss \<longleftrightarrow>
    (\<exists>c b srv b' c'. rtranclp (client_step V K e mode p) (RunClient cli, Running []) (c, Running []) \<and>
      capsule_codec.write_all K (take (flushed (ec_sess c)) (written (ec_sess c))) = Some b \<and>
      rtranclp (echo_step V K e) (runEchoServer ss, Running b) (srv, Running []) \<and> es_log srv = [] \<and> es_jobs srv = [] \<and>
      capsule_codec.write_all K (take (flushed (es_sess srv)) (written (es_sess srv))) = Some b' \<and>
      rtranclp (client_step V K e mode p) (c, Running b') (c', Running []) \<and> ec_pc c' = Returned None)"

lemma exchange_from_reply:
  assumes "rtranclp (client_step V K e mode p) (RunClient cli, Running []) (\<lparr>ec_sess = c, ec_pc = w\<rparr>, Running [])"
    and "capsule_codec.write_all K (take (flushed c) (written c)) = Some b"
    and "rtranclp (echo_step V K e) (runEchoServer ss, Running b) (srv, Running [])" and "es_log srv = []" and "es_jobs srv = []"
    and "capsule_codec.write_all K (take (flushed (es_sess srv)) (written (es_sess srv))) = Some b'"
    and "session_reach V K e (c, Running b') (c', Running [])"
    and "rtranclp (client_step V K e mode p) (\<lparr>ec_sess = c', ec_pc = w\<rparr>, Running []) (d, Running [])" and "ec_pc d = Returned None"
  shows "echo_exchange V K e mode p cli ss"
proof -
  have "rtranclp (client_step V K e mode p) (\<lparr>ec_sess = c, ec_pc = w\<rparr>, Running b') (\<lparr>ec_sess = c', ec_pc = w\<rparr>, Running [])"
    using client_session_steps [OF assms(7), of "\<lparr>ec_sess = c, ec_pc = w\<rparr>" "Running b'" mode p] by simp
  from rtranclp_trans [OF this assms(8)] assms(1-6,9) show ?thesis
    unfolding echo_exchange_def by (metis echoClient.select_convs(1))
qed

lemma bidi_exchange:
  assumes "wire V K" and "length p \<le> 65536" and "0 < peer_maxStreamsBidi pc"
    and "length p \<le> unat (peer_maxData pc)" and "length p \<le> unat (peer_streamDataBidiRemote pc)"
    and "length p \<le> unat (peer_maxData ps)" and "length p \<le> unat (peer_streamDataBidiLocal ps)"
  shows "echo_exchange V K e ModeBidi p (newSessionConfigured pr False (Some pc)) (newSessionConfigured pr True (Some ps))"
proof -
  obtain st c b srv b' c' c'' where x: "exchangeBidi_send V (newSessionConfigured pr False (Some pc)) p None None = Some (Inr st, c)"
    "capsule_codec.write_all K (take (flushed c) (written c)) = Some b"
    "rtranclp (echo_step V K e) (runEchoServer (newSessionConfigured pr True (Some ps)), Running b) (srv, Running [])"
    "es_log srv = []" "es_jobs srv = []"
    "capsule_codec.write_all K (take (flushed (es_sess srv)) (written (es_sess srv))) = Some b'"
    "session_reach V K e (c, Running b') (c', Running [])"
    and r: "exchangeBidi_reply (\<lambda>_. 0) 0 None c' st = Some (Inr p, c'')" "RunClient_check ModeBidi p (Inr p) = None"
    using bidi_trip [OF assms, of pr e "\<lambda>_. 0" 0] by blast
  have "rtranclp (client_step V K e ModeBidi p) (\<lparr>ec_sess = c', ec_pc = BidiRead st\<rparr>, Running [])
      (\<lparr>ec_sess = c'', ec_pc = Returned None\<rparr>, Running [])"
    by (rule RunClient_returned [OF _ rtranclp.rtrancl_refl, where sz = "\<lambda>_. 0" and k = 0 and ctx = None]) (simp add: r)
  with bidi_send_steps [OF x(1)] show ?thesis by (rule exchange_from_reply [OF _ x(2-7)]) simp
qed

lemma uni_exchange:
  assumes "wire V K" and "length p \<le> 65536" and "0 < peer_maxStreamsUni pc" and "0 < peer_maxStreamsUni ps"
    and "length p \<le> unat (peer_maxData pc)" and "length p \<le> unat (peer_streamDataUni pc)"
    and "length p \<le> unat (peer_maxData ps)" and "length p \<le> unat (peer_streamDataUni ps)"
  shows "echo_exchange V K e ModeUni p (newSessionConfigured pr False (Some pc)) (newSessionConfigured pr True (Some ps))"
proof -
  obtain c b srv b' c' r c'' c3 where x: "exchangeUni_send V (newSessionConfigured pr False (Some pc)) p None None = Some (None, c)"
    "capsule_codec.write_all K (take (flushed c) (written c)) = Some b"
    "rtranclp (echo_step V K e) (runEchoServer (newSessionConfigured pr True (Some ps)), Running b) (srv, Running [])"
    "es_log srv = []" "es_jobs srv = []"
    "capsule_codec.write_all K (take (flushed (es_sess srv)) (written (es_sess srv))) = Some b'"
    "session_reach V K e (c, Running b') (c', Running [])"
    and r: "exchangeUni_accept 0 None c' = Some (Inr r, c'')" "exchangeUni_reply (\<lambda>_. 0) 0 None c'' r = Some (Inr p, c3)"
      "RunClient_check ModeUni p (Inr p) = None"
    using uni_trip [OF assms, of pr e 0 "\<lambda>_. 0"] by blast
  have "rtranclp (client_step V K e ModeUni p) (\<lparr>ec_sess = c', ec_pc = UniAccept\<rparr>, Running [])
      (\<lparr>ec_sess = c'', ec_pc = UniRead r\<rparr>, Running [])"
    by (rule RunClient_returned [OF _ rtranclp.rtrancl_refl, where k = 0 and ctx = None]) (simp add: r(1) after_open_def)
  then have "rtranclp (client_step V K e ModeUni p) (\<lparr>ec_sess = c', ec_pc = UniAccept\<rparr>, Running [])
      (\<lparr>ec_sess = c3, ec_pc = Returned None\<rparr>, Running [])"
    by (rule RunClient_returned [where sz = "\<lambda>_. 0" and k = 0 and ctx = None, rotated]) (simp add: r(2,3))
  with uni_send_steps [OF x(1)] show ?thesis by (rule exchange_from_reply [OF _ x(2-7)]) simp
qed

lemma datagram_exchange:
  assumes "wire V K" and "length p \<le> 65536"
  shows "echo_exchange V K e ModeDatagram p (newSessionConfigured pr False pc) (newSessionConfigured pr True ps)"
proof -
  obtain c b srv b' c' c'' where x: "exchangeDatagram_send (newSessionConfigured pr False pc) p None = (None, c)"
    "capsule_codec.write_all K (take (flushed c) (written c)) = Some b"
    "rtranclp (echo_step V K e) (runEchoServer (newSessionConfigured pr True ps), Running b) (srv, Running [])"
    "es_log srv = []" "es_jobs srv = []"
    "capsule_codec.write_all K (take (flushed (es_sess srv)) (written (es_sess srv))) = Some b'"
    "session_reach V K e (c, Running b') (c', Running [])"
    and r: "exchangeDatagram_reply None c' = Some (Inr p, c'')" "RunClient_check ModeDatagram p (Inr p) = None"
    using datagram_trip [OF assms, of pr pc e ps] by blast
  have "rtranclp (client_step V K e ModeDatagram p) (\<lparr>ec_sess = c', ec_pc = DgramReceive\<rparr>, Running [])
      (\<lparr>ec_sess = c'', ec_pc = Returned None\<rparr>, Running [])"
    by (rule RunClient_returned [OF _ rtranclp.rtrancl_refl, where ctx = None]) (simp add: r)
  with datagram_send_steps [OF x(1)] show ?thesis by (rule exchange_from_reply [OF _ x(2-7)]) simp
qed





end
