(* ===== verification/Url_Query.thy ===== *)
theory Url_Query
  imports Go_Text "HOL-Library.List_Lexorder" "HOL-Library.Char_ord"
begin

text \<open>
  What the commands and the baton handler use of net/url: \<^verbatim>\<open>Values.Encode\<close>, \<^verbatim>\<open>ParseQuery\<close> (as \<^verbatim>\<open>URL.Query\<close>
  calls it, without its error), and the query part of a request URI. Parsing what was encoded gives the
  values back.
\<close>

section \<open>Escaping\<close>

definition url_alnum :: "char \<Rightarrow> bool" where
  "url_alnum c \<longleftrightarrow>
     (let n = of_char c :: nat in 48 \<le> n \<and> n \<le> 57 \<or> 65 \<le> n \<and> n \<le> 90 \<or> 97 \<le> n \<and> n \<le> 122)"

definition shouldEscape :: "char \<Rightarrow> bool" where
  "shouldEscape c \<longleftrightarrow> \<not> (url_alnum c \<or> c \<in> set [CHR ''-'', CHR ''_'', CHR ''.'', CHR ''~''])"

definition upper_hex :: "nat \<Rightarrow> char" where
  "upper_hex n = (if n < 10 then char_of (48 + n) else char_of (55 + n))"

definition escape_char :: "char \<Rightarrow> string" where
  "escape_char c =
     (if c = CHR '' '' then ''+''
      else if shouldEscape c then
        (let n = of_char c :: nat in [CHR ''%'', upper_hex (n div 16), upper_hex (n mod 16)])
      else [c])"

definition QueryEscape :: "string \<Rightarrow> string" where
  "QueryEscape s = concat (map escape_char s)"

definition unhex :: "char \<Rightarrow> nat option" where
  "unhex c =
     (let n = of_char c :: nat
      in if 48 \<le> n \<and> n \<le> 57 then Some (n - 48)
         else if 97 \<le> n \<and> n \<le> 102 then Some (n - 87)
         else if 65 \<le> n \<and> n \<le> 70 then Some (n - 55)
         else None)"

fun QueryUnescape :: "string \<Rightarrow> string option" where
  "QueryUnescape [] = Some []"
| "QueryUnescape (c # cs) =
     (if c = CHR ''%'' then
        (case cs of
           a # b # ds \<Rightarrow>
             (case (unhex a, unhex b, QueryUnescape ds) of
                (Some x, Some y, Some s) \<Rightarrow> Some (char_of (16 * x + y) # s)
              | _ \<Rightarrow> None)
         | _ \<Rightarrow> None)
      else map_option ((#) (if c = CHR ''+'' then CHR '' '' else c)) (QueryUnescape cs))"

section \<open>Encode and ParseQuery\<close>

text \<open>The pairs in the order of the sorted keys, joined by ampersands.\<close>

definition Values_pairs :: "url_Values \<Rightarrow> (string \<times> string) list" where
  "Values_pairs q = concat (map (\<lambda>(k, vs). map (Pair k) vs) (sort_key fst q))"

fun join_pairs :: "(string \<times> string) list \<Rightarrow> string" where
  "join_pairs [] = []"
| "join_pairs [(k, v)] = QueryEscape k @ CHR ''='' # QueryEscape v"
| "join_pairs ((k, v) # p # ps) = QueryEscape k @ CHR ''='' # QueryEscape v @ CHR ''&'' # join_pairs (p # ps)"

definition Values_Encode :: "url_Values \<Rightarrow> string" where
  "Values_Encode q = join_pairs (Values_pairs q)"

text \<open>\<^verbatim>\<open>strings.Cut\<close> at a character.\<close>

definition cut :: "char \<Rightarrow> string \<Rightarrow> string \<times> string" where
  "cut c s = (takeWhile (\<lambda>x. x \<noteq> c) s, drop 1 (dropWhile (\<lambda>x. x \<noteq> c) s))"

lemma cut_shorter: "s \<noteq> [] \<Longrightarrow> length (snd (cut c s)) < length s"
  using length_dropWhile_le [of "\<lambda>x. x \<noteq> c" s] by (simp add: cut_def) (cases s; simp)

definition parse_pair :: "url_Values \<Rightarrow> string \<Rightarrow> url_Values" where
  "parse_pair m key =
     (if CHR '';'' \<in> set key \<or> key = [] then m
      else case cut CHR ''='' key of (k, v) \<Rightarrow>
        (case (QueryUnescape k, QueryUnescape v) of
           (Some k', Some v') \<Rightarrow> Values_Add m k' v'
         | _ \<Rightarrow> m))"

function parseQuery :: "url_Values \<Rightarrow> string \<Rightarrow> url_Values" where
  "parseQuery m query =
     (if query = [] then m
      else parseQuery (parse_pair m (fst (cut CHR ''&'' query))) (snd (cut CHR ''&'' query)))"
  by pat_completeness auto
termination by (relation "measure (length \<circ> snd)") (use cut_shorter in auto)

declare parseQuery.simps [simp del]

definition url_ParseQuery :: "string \<Rightarrow> url_Values" where
  "url_ParseQuery query = parseQuery [] query"

text \<open>The part of a request URI after the question mark.\<close>

definition URI_Query :: "string \<Rightarrow> url_Values" where
  "URI_Query uri = url_ParseQuery (snd (cut CHR ''?'' uri))"

section \<open>Round trip\<close>

lemma hex_value:
  fixes n :: nat
  assumes "n < 16"
  shows "n \<in> {0, 1, 2, 3, 4, 5, 6, 7, 8, 9, 10, 11, 12, 13, 14, 15}"
  using assms by (simp add: less_Suc_eq numeral_eq_Suc)

lemma unhex_upper_hex: "n < 16 \<Longrightarrow> unhex (upper_hex n) = Some n"
  using hex_value [of n] by (auto simp: unhex_def upper_hex_def)

lemma char_split: "char_of (16 * (of_char c div 16) + of_char c mod 16 :: nat) = c"
  by simp

lemma char_high_nibble: "(of_char c :: nat) div 16 < 16"
  using nat_of_char_less_256 [of c] by linarith

lemma Unescape_char: "QueryUnescape (escape_char c @ s) = map_option ((#) c) (QueryUnescape s)"
proof (cases "c = CHR '' '' \<or> \<not> shouldEscape c")
  case True
  moreover have "\<not> shouldEscape c \<Longrightarrow> c \<noteq> CHR ''%'' \<and> c \<noteq> CHR ''+''"
    by (auto simp: shouldEscape_def url_alnum_def)
  ultimately show ?thesis by (auto simp: escape_char_def)
next
  case False
  then show ?thesis
    by (simp add: char_high_nibble escape_char_def Let_def unhex_upper_hex char_split split: option.split)
qed

lemma Unescape_Escape: "QueryUnescape (QueryEscape s) = Some s"
  by (induction s) (simp_all add: QueryEscape_def Unescape_char)

text \<open>None of the separators occurs in an escaped string.\<close>

lemma escape_no_separator: "d \<in> set (escape_char c) \<Longrightarrow> d \<noteq> CHR ''&'' \<and> d \<noteq> CHR ''='' \<and> d \<noteq> CHR '';''"
proof -
  assume d: "d \<in> set (escape_char c)"
  have hex: "upper_hex n \<noteq> CHR ''&'' \<and> upper_hex n \<noteq> CHR ''='' \<and> upper_hex n \<noteq> CHR '';''" if "n < 16" for n
    using hex_value [OF that] by (elim insertE) (simp_all add: upper_hex_def char_of_def)
  then show ?thesis using d by (auto simp: char_high_nibble escape_char_def Let_def shouldEscape_def url_alnum_def split: if_splits)
qed

lemma QueryEscape_no_separator:
  "d \<in> set (QueryEscape s) \<Longrightarrow> d \<noteq> CHR ''&'' \<and> d \<noteq> CHR ''='' \<and> d \<noteq> CHR '';''"
  using escape_no_separator by (auto simp: QueryEscape_def)

lemma cut_at: "c \<notin> set a \<Longrightarrow> cut c (a @ c # b) = (a, b)"
  by (induction a) (auto simp: cut_def)

lemma cut_none: "c \<notin> set a \<Longrightarrow> cut c a = (a, [])"
  by (induction a) (auto simp: cut_def)

definition pair_text :: "string \<times> string \<Rightarrow> string" where
  "pair_text p = QueryEscape (fst p) @ CHR ''='' # QueryEscape (snd p)"

lemma pair_text_amp: "CHR ''&'' \<notin> set (pair_text p)" "pair_text p \<noteq> []"
  using QueryEscape_no_separator [of _ "fst p"] QueryEscape_no_separator [of _ "snd p"] by (auto simp: pair_text_def)

lemma parse_pair_text: "parse_pair m (pair_text (k, v)) = Values_Add m k v"
proof -
  have "CHR '';'' \<notin> set (pair_text (k, v))" "CHR ''='' \<notin> set (QueryEscape k)"
    using QueryEscape_no_separator [of _ k] QueryEscape_no_separator [of _ v] by (auto simp: pair_text_def)
  then show ?thesis by (simp add: parse_pair_def pair_text_def cut_at Unescape_Escape)
qed

lemma parseQuery_joined: "parseQuery m (join_pairs ps) = foldl (\<lambda>m (k, v). Values_Add m k v) m ps"
proof (induction ps arbitrary: m rule: join_pairs.induct)
  case 1
  then show ?case by (simp add: parseQuery.simps)
next
  case (2 k v)
  have "join_pairs [(k, v)] = pair_text (k, v)" by (simp add: pair_text_def)
  with pair_text_amp [of "(k, v)"] show ?case
    by (subst parseQuery.simps) (simp add: cut_none parse_pair_text parseQuery.simps [of _ "[]"] del: join_pairs.simps)
next
  case (3 k v p ps)
  have "join_pairs ((k, v) # p # ps) = pair_text (k, v) @ CHR ''&'' # join_pairs (p # ps)"
    by (simp add: pair_text_def)
  with pair_text_amp [of "(k, v)"] 3 show ?case
    by (subst parseQuery.simps) (simp add: cut_at parse_pair_text del: join_pairs.simps)
qed

lemma values_of_foldl:
  "values_of (foldl (\<lambda>m (k, v). Values_Add m k v) m ps) x = values_of m x @ map snd (filter (\<lambda>p. fst p = x) ps)"
  by (induction ps arbitrary: m) auto

lemma filter_pairs:
  "distinct (map fst q) \<Longrightarrow>
   map snd (filter (\<lambda>p. fst p = x) (concat (map (\<lambda>(k, vs). map (Pair k) vs) q))) = values_of q x"
proof (induction q)
  case (Cons a q)
  obtain k vs where a: "a = (k, vs)" by (cases a)
  have "filter (\<lambda>p. fst p = x) (map (Pair k) vs) = (if k = x then map (Pair k) vs else [])"
    by (induction vs) auto
  moreover have "values_of q k = []"
    using Cons.prems map_of_eq_None_iff [of q k] by (simp add: a values_of_def)
  ultimately show ?case using Cons by (auto simp: a values_of_def comp_def)
qed (simp add: values_of_def)

lemma distinct_sort_key: "distinct (map fst q) \<Longrightarrow> distinct (map fst (sort_key fst q))"
  by (simp add: distinct_map)

lemma values_of_sort: "distinct (map fst q) \<Longrightarrow> values_of (sort_key fst q) x = values_of q x"
  using map_of_inject_set [of "sort_key fst q" q] by (simp add: values_of_def distinct_sort_key)

lemma Query_Encode:
  assumes "distinct (map fst q)"
  shows "values_of (url_ParseQuery (Values_Encode q)) x = values_of q x"
  using filter_pairs [OF distinct_sort_key [OF assms]] values_of_sort [OF assms]
  by (simp add: url_ParseQuery_def Values_Encode_def parseQuery_joined values_of_foldl Values_pairs_def)
    (simp add: values_of_def)

end
