(* ===== verification/Handlers.thy ===== *)
theory Handlers
  imports Handshake Echo_Client Baton_Session Url_Query
begin

text \<open>
  The HTTP handlers of internal/echo and internal/baton, and the dial functions of the commands that
  connect to them. A handler yields what it runs on the session it opened (nothing if it refused) and
  the response it wrote.
\<close>

section \<open>internal/echo\<close>

definition echo_SelectProtocol :: "server_request \<Rightarrow> string list \<Rightarrow> go_err + string" where
  "echo_SelectProtocol r available = (if echo_Protocol \<in> set available then Inr echo_Protocol else Inr '''')"

definition echo_Handler ::
  "sfv_ops \<Rightarrow> go_err option \<Rightarrow> ResponseWriter \<Rightarrow> server_request \<Rightarrow> echoServer option \<times> ResponseWriter" where
  "echo_Handler F fullDuplex w r =
     (case Upgrade F (Some echo_SelectProtocol) fullDuplex w r of
        (Inl err, w1) \<Rightarrow> (None, http_Error w1 (Error err) 400)
      | (Inr (session, meta), w1) \<Rightarrow> (Some (runEchoServer session), w1))"

text \<open>\<^verbatim>\<open>dial\<close> of cmd/echo.\<close>

definition echo_dial ::
  "sfv_ops \<Rightarrow> (string \<Rightarrow> go_err + req_url) \<Rightarrow> (request \<Rightarrow> (go_err + response) \<times> peerWTSettingsCapture) \<Rightarrow>
   string \<Rightarrow> ((go_err + Session \<times> sessionMeta) \<times> connect_effects) option" where
  "echo_dial F parseURL RoundTrip rawURL = Connect F parseURL RoundTrip rawURL [echo_Protocol] (Some Map.empty)"

section \<open>internal/baton\<close>

definition rejectBadRequest :: "ResponseWriter \<Rightarrow> string \<Rightarrow> ResponseWriter" where
  "rejectBadRequest w msg = http_Error w msg 400"

text \<open>The session and the configuration \<^verbatim>\<open>Run\<close> is called with.\<close>

definition baton_Handler ::
  "sfv_ops \<Rightarrow> go_err option \<Rightarrow> int \<Rightarrow> int \<Rightarrow> ResponseWriter \<Rightarrow> server_request \<Rightarrow>
   (Session \<times> Config) option \<times> ResponseWriter" where
  "baton_Handler F fullDuplex maxCount padding w r =
     (case ParseQuery (URI_Query (r_RequestURI r)) of
        Inl err \<Rightarrow> (None, rejectBadRequest w (Error err))
      | Inr cfg \<Rightarrow>
          if Count cfg > maxCount then
            (None, rejectBadRequest w (''count '' @ fmt_int (Count cfg) @ '' exceeds server max '' @ fmt_int maxCount))
          else
            (case Upgrade F None fullDuplex w r of
               (Inl err, w1) \<Rightarrow> (None, http_Error w1 (Error err) 400)
             | (Inr (session, meta), w1) \<Rightarrow> (Some (session, cfg\<lparr>Padding := padding\<rparr>), w1)))"

text \<open>\<^verbatim>\<open>dial\<close> of cmd/devious-baton, whose callers offer no protocols.\<close>

definition baton_dial ::
  "sfv_ops \<Rightarrow> (string \<Rightarrow> go_err + req_url) \<Rightarrow> (request \<Rightarrow> (go_err + response) \<times> peerWTSettingsCapture) \<Rightarrow>
   string \<Rightarrow> string list \<Rightarrow> ((go_err + Session \<times> sessionMeta) \<times> connect_effects) option" where
  "baton_dial F parseURL RoundTrip rawURL protocols = Connect F parseURL RoundTrip rawURL protocols (Some Map.empty)"

section \<open>What a handler answers\<close>

lemma http_Error_status: "rw_status w = None \<Longrightarrow> rw_status (http_Error w msg code) = Some code"
  by (simp add: http_Error_def WriteHeader_def Let_def)

lemma Upgrade_status:
  assumes "rw_status w = None" and "Upgrade F sel fd w r = (res, w')"
  shows "case res of Inl _ \<Rightarrow> rw_status w' = None | Inr (s, _) \<Rightarrow> rw_status w' = Some 200 \<and> isServer s"
  using assms by (auto simp: Upgrade_def WriteHeader_def newSessionConfigured_def Let_def split: if_splits sum.splits option.splits prod.splits)

text \<open>The baton handler answers every request: it runs a baton session exactly after a response of
  200, and answers 400 otherwise. What it runs has the version 0, a count between one and the
  server's maximum, the server's padding, and the initial baton and count of the query.\<close>
theorem baton_Handler_answers:
  assumes "rw_status w = None" and "baton_Handler F fd maxCount padding w r = (run, w')"
  shows "case run of
      None \<Rightarrow> rw_status w' = Some 400
    | Some (s, cfg) \<Rightarrow> rw_status w' = Some 200 \<and> isServer s \<and> Version cfg = 0 \<and> 1 \<le> Count cfg \<and> Count cfg \<le> maxCount \<and>
        Padding cfg = padding \<and> ParseQuery (URI_Query (r_RequestURI r)) = Inr (cfg\<lparr>Padding := 0\<rparr>)"
proof (cases "ParseQuery (URI_Query (r_RequestURI r))")
  case (Inl err)
  with assms show ?thesis by (auto simp: baton_Handler_def rejectBadRequest_def http_Error_status)
next
  case (Inr cfg)
  note v = ParseQuery_valid [OF Inr]
  obtain res w1 where u: "Upgrade F None fd w r = (res, w1)" by fastforce
  note s = Upgrade_status [OF assms(1) u]
  show ?thesis
    using assms Inr v s u
    by (auto simp: baton_Handler_def rejectBadRequest_def http_Error_status split: if_splits sum.splits prod.splits)
qed

definition demo_request :: server_request where
  "demo_request =
    \<lparr>r_Method = ''CONNECT'', r_Proto = ''HTTP/2.0'', r_Header = Header_Set Map.empty '':protocol'' ''webtransport'',
     r_RemoteAddr = ''peer'', r_RequestURI = ''/webtransport/devious-baton?baton=42&count=2'', r_peerSettings = None\<rparr>"

theorem baton_Handler_answers_witness:
  "\<exists>s cfg w'. baton_Handler quoted_sfv None 16 3 new_ResponseWriter demo_request = (Some (s, cfg), w') \<and>
     rw_status w' = Some 200 \<and> Count cfg = 2 \<and> Baton cfg = 42 \<and> Padding cfg = 3"
proof -
  obtain run w' where h: "baton_Handler quoted_sfv None 16 3 new_ResponseWriter demo_request = (run, w')" by fastforce
  have q: "ParseQuery (URI_Query (r_RequestURI demo_request)) = Inr \<lparr>Version = 0, Baton = 42, Count = 2, Padding = 0\<rparr>"
    by code_simp
  have "fst (baton_Handler quoted_sfv None 16 3 new_ResponseWriter demo_request) \<noteq> None" by code_simp
  then obtain s cfg where r: "run = Some (s, cfg)" using h by auto
  have "rw_status new_ResponseWriter = None" by (simp add: new_ResponseWriter_def)
  from baton_Handler_answers [OF this h] q r h show ?thesis by (cases cfg) auto
qed

section \<open>From the settings to the echo\<close>

lemma echo_Handler_upgrade:
  "echo_Handler F fd new_ResponseWriter r =
     (map_option (\<lambda>x. runEchoServer (fst x)) (fst (upgrade_handler F (Some echo_SelectProtocol) fd r)),
      snd (upgrade_handler F (Some echo_SelectProtocol) fd r))"
  by (auto simp: echo_Handler_def upgrade_handler_def split: prod.split sum.split)

lemma echo_offer_selected:
  assumes "sfv_codec F"
  shows "\<exists>h h'. connect_header F [echo_Protocol] Map.empty = Inr h \<and>
    negotiate F (Some echo_SelectProtocol) (arriving addr sc u h) Map.empty = Inr (echo_Protocol, h')"
proof -
  have pr: "\<forall>p\<in>set [echo_Protocol]. sfv_printable p" by (simp add: echo_Protocol_def sfv_printable_def)
  obtain enc where "encodeAvailableProtocolsHeader F [echo_Protocol] = Inr enc"
    using sfv_codec.list_encodes [OF assms pr] by (auto simp: encodeAvailableProtocolsHeader_def)
  then obtain h where h: "connect_header F [echo_Protocol] Map.empty = Inr h" by (auto simp: connect_header_def Let_def)
  have av: "parseAvailableProtocolsHeader F (Header_Values (r_Header (arriving addr sc u h)) ''WT-Available-Protocols'') =
      Inr ['''', echo_Protocol]"
    using connect_header_available [OF assms h] by (simp add: arriving_def)
  obtain v where "encodeSelectedProtocolHeader F echo_Protocol = Inr v"
    using sfv_codec.item_encodes [OF assms] pr by (auto simp: encodeSelectedProtocolHeader_def)
  then have "\<exists>h'. negotiate F (Some echo_SelectProtocol) (arriving addr sc u h) Map.empty = Inr (echo_Protocol, h')"
    by (simp add: negotiate_def av echo_SelectProtocol_def echo_Protocol_def)
  with h show ?thesis by blast
qed

text \<open>The limits the two ends of a connection of the commands start with.\<close>

lemma default_limits:
  assumes "w \<in> {DefaultWebTransportSettings, DefaultClientWebTransportSettings}"
  shows "unat (peer_maxData (peerLimitsFromSettings w)) = 2 ^ 20"
    and "unat (peer_streamDataBidiLocal (peerLimitsFromSettings w)) = 2 ^ 20"
    and "unat (peer_streamDataBidiRemote (peerLimitsFromSettings w)) = 2 ^ 20"
    and "unat (peer_streamDataUni (peerLimitsFromSettings w)) = 2 ^ 20"
    and "0 < peer_maxStreamsBidi (peerLimitsFromSettings w)" and "0 < peer_maxStreamsUni (peerLimitsFromSettings w)"
  using assms
  by (auto simp: peerLimitsFromSettings_def DefaultClientWebTransportSettings_def DefaultWebTransportSettings_def Let_def)

lemma default_exchange:
  assumes "wire V K" and "mode \<in> {ModeBidi, ModeUni, ModeDatagram}" and "length p \<le> 65536"
  shows "echo_exchange V K e mode p
    (newSessionConfigured pr False (Some (peerLimitsFromSettings DefaultWebTransportSettings)))
    (newSessionConfigured pr True (Some (peerLimitsFromSettings DefaultClientWebTransportSettings)))"
proof -
  have w: "DefaultWebTransportSettings \<in> {DefaultWebTransportSettings, DefaultClientWebTransportSettings}"
    "DefaultClientWebTransportSettings \<in> {DefaultWebTransportSettings, DefaultClientWebTransportSettings}" by simp_all
  note d = default_limits [OF w(1)] default_limits [OF w(2)]
  consider "mode = ModeBidi" | "mode = ModeUni" | "mode = ModeDatagram" using assms(2) by blast
  then show ?thesis
  proof cases
    case 1
    show ?thesis unfolding 1 using assms(1,3) by (rule bidi_exchange) (use assms(3) d in simp_all)
  next
    case 2
    show ?thesis unfolding 2 using assms(1,3) by (rule uni_exchange) (use assms(3) d in simp_all)
  next
    case 3
    show ?thesis unfolding 3 using assms(1,3) by (rule datagram_exchange)
  qed
qed



end
