(* ===== verification/Certificates.thy ===== *)
theory Certificates
  imports Go_Errors
begin

text \<open>
  internal/tlsx: which certificate a server uses, and which addresses a self-signed one is for. The
  cryptography (keys, signing, PEM, parsing) is the record \<open>tls_ops\<close>; the addresses are those of package
  net, four or sixteen bytes.
\<close>

section \<open>Addresses\<close>

type_synonym IP = bytes

definition v4InV6Prefix :: bytes where "v4InV6Prefix = replicate 10 0 @ [0xff, 0xff]"

definition net_IPv4 :: "byte \<Rightarrow> byte \<Rightarrow> byte \<Rightarrow> byte \<Rightarrow> IP" where
  "net_IPv4 a b c d = v4InV6Prefix @ [a, b, c, d]"

definition IPv6loopback :: IP where "IPv6loopback = replicate 15 0 @ [1]"

definition To4 :: "IP \<Rightarrow> IP option" where
  "To4 ip =
     (if length ip = 4 then Some ip
      else if length ip = 16 \<and> take 12 ip = v4InV6Prefix then Some (drop 12 ip)
      else None)"

definition To16 :: "IP \<Rightarrow> IP option" where
  "To16 ip =
     (if length ip = 4 then Some (v4InV6Prefix @ ip)
      else if length ip = 16 then Some ip
      else None)"

definition IP_Equal :: "IP \<Rightarrow> IP \<Rightarrow> bool" where
  "IP_Equal ip x \<longleftrightarrow>
     (if length ip = length x then ip = x
      else if length ip = 4 \<and> length x = 16 then take 12 x = v4InV6Prefix \<and> ip = drop 12 x
      else if length ip = 16 \<and> length x = 4 then take 12 ip = v4InV6Prefix \<and> drop 12 ip = x
      else False)"

definition IsLoopback :: "IP \<Rightarrow> bool" where
  "IsLoopback ip \<longleftrightarrow> (case To4 ip of Some ip4 \<Rightarrow> ip4 ! 0 = 127 | None \<Rightarrow> IP_Equal ip IPv6loopback)"

text \<open>An address of an interface: a network, or something else.\<close>

datatype net_Addr = IPNet IP | OtherAddr string

fun interface_ips :: "IP list \<Rightarrow> net_Addr list \<Rightarrow> IP list" where
  "interface_ips ips [] = ips"
| "interface_ips ips (OtherAddr a # addrs) = interface_ips ips addrs"
| "interface_ips ips (IPNet ip # addrs) =
     (if IsLoopback ip then interface_ips ips addrs
      else case To4 ip of
        Some ip4 \<Rightarrow> interface_ips (ips @ [ip4]) addrs
      | None \<Rightarrow>
          (case To16 ip of
             Some ip6 \<Rightarrow> interface_ips (ips @ [ip6]) addrs
           | None \<Rightarrow> interface_ips ips addrs))"

definition certificate_ips :: "go_err + net_Addr list \<Rightarrow> IP list" where
  "certificate_ips interfaceAddrs =
     (let ips = [net_IPv4 127 0 0 1, IPv6loopback]
      in case interfaceAddrs of Inl err \<Rightarrow> ips | Inr addrs \<Rightarrow> interface_ips ips addrs)"

section \<open>Certificates\<close>

text \<open>The template; times are seconds.\<close>

record x509_template =
  SerialNumber :: int
  CommonName :: string
  NotBefore :: int
  NotAfter :: int
  IPAddresses :: "IP list"
  DNSNames :: "string list"

record ('key, 'cert, 'leaf) tls_ops =
  ecdsa_GenerateKey :: "go_err + 'key"
  x509_CreateCertificate :: "x509_template \<Rightarrow> 'key \<Rightarrow> go_err + bytes"
  pem_EncodeToMemory :: "string \<Rightarrow> bytes \<Rightarrow> bytes"
  x509_MarshalECPrivateKey :: "'key \<Rightarrow> go_err + bytes"
  tls_X509KeyPair :: "bytes \<Rightarrow> bytes \<Rightarrow> go_err + 'cert"
  x509_ParseCertificate :: "'cert \<Rightarrow> go_err + 'leaf"
  tls_LoadX509KeyPair :: "string \<Rightarrow> string \<Rightarrow> go_err + 'cert"

definition self_signed_template :: "int \<Rightarrow> IP list \<Rightarrow> x509_template" where
  "self_signed_template now ips =
    \<lparr>SerialNumber = 1, CommonName = ''localhost'', NotBefore = now, NotAfter = now + 24 * 60 * 60,
     IPAddresses = ips, DNSNames = [''localhost'']\<rparr>"

definition GenerateSelfSignedCert ::
  "('key, 'cert, 'leaf) tls_ops \<Rightarrow> int \<Rightarrow> go_err + net_Addr list \<Rightarrow> go_err + 'cert \<times> 'leaf list" where
  "GenerateSelfSignedCert T now interfaceAddrs =
     (case ecdsa_GenerateKey T of
        Inl err \<Rightarrow> Inl err
      | Inr key \<Rightarrow>
        (case x509_CreateCertificate T (self_signed_template now (certificate_ips interfaceAddrs)) key of
           Inl err \<Rightarrow> Inl err
         | Inr der \<Rightarrow>
           (case x509_MarshalECPrivateKey T key of
              Inl err \<Rightarrow> Inl err
            | Inr keyDER \<Rightarrow>
              (case tls_X509KeyPair T (pem_EncodeToMemory T ''CERTIFICATE'' der)
                      (pem_EncodeToMemory T ''EC PRIVATE KEY'' keyDER) of
                 Inl err \<Rightarrow> Inl err
               | Inr cert \<Rightarrow>
                 (case x509_ParseCertificate T cert of
                    Inl err \<Rightarrow> Inl err
                  | Inr leaf \<Rightarrow> Inr (cert, [leaf]))))))"

definition LoadCertificate ::
  "('key, 'cert, 'leaf) tls_ops \<Rightarrow> int \<Rightarrow> go_err + net_Addr list \<Rightarrow> string \<Rightarrow> string \<Rightarrow> bool \<Rightarrow> go_err + 'cert" where
  "LoadCertificate T now interfaceAddrs certFile keyFile selfSigned =
     (if certFile \<noteq> '''' \<and> keyFile \<noteq> '''' then tls_LoadX509KeyPair T certFile keyFile
      else if selfSigned \<or> certFile = '''' \<and> keyFile = '''' then
        (case GenerateSelfSignedCert T now interfaceAddrs of
           Inl err \<Rightarrow> Inl err
         | Inr (cert, pool) \<Rightarrow> Inr cert)
      else Inl (ErrorsNew ''provide both -cert and -key, or use -selfsigned''))"

section \<open>Properties\<close>

lemma interface_ips_set:
  "set (interface_ips ips addrs) = set ips \<union>
     {x. \<exists>ip. IPNet ip \<in> set addrs \<and> \<not> IsLoopback ip \<and> (To4 ip = Some x \<or> To4 ip = None \<and> To16 ip = Some x)}"
  by (induction ips addrs rule: interface_ips.induct) (auto split: option.splits)

lemma IP_Equal_To: "To4 ip = Some x \<Longrightarrow> IP_Equal ip x" "To16 ip = Some x \<Longrightarrow> IP_Equal ip x"
  by (auto simp: To4_def To16_def IP_Equal_def v4InV6Prefix_def split: if_splits)

lemma loopbacks: "IsLoopback (net_IPv4 127 0 0 1)" "IsLoopback IPv6loopback"
  by code_simp+

text \<open>The addresses of a self-signed certificate are right: the two loopback addresses, and, as far as
  package net compares addresses, exactly the addresses of the interfaces that are not loopback
  addresses (and have four or sixteen bytes).\<close>
theorem certificate_ips_exact:
  "(\<forall>ip. IPNet ip \<in> set addrs \<and> (length ip = 4 \<or> length ip = 16) \<longrightarrow>
      (\<exists>x\<in>set (certificate_ips (Inr addrs)). IP_Equal ip x \<or> IsLoopback ip \<and> IsLoopback x)) \<and>
   (\<forall>x\<in>set (certificate_ips (Inr addrs)). IsLoopback x \<or> (\<exists>ip. IPNet ip \<in> set addrs \<and> \<not> IsLoopback ip \<and> IP_Equal ip x))"
proof -
  have s: "set (certificate_ips (Inr addrs)) = {net_IPv4 127 0 0 1, IPv6loopback} \<union>
      {x. \<exists>ip. IPNet ip \<in> set addrs \<and> \<not> IsLoopback ip \<and> (To4 ip = Some x \<or> To4 ip = None \<and> To16 ip = Some x)}"
    by (simp add: certificate_ips_def interface_ips_set Let_def)
  have "\<exists>x. (To4 ip = Some x \<or> To4 ip = None \<and> To16 ip = Some x) \<and> IP_Equal ip x" if "length ip = 4 \<or> length ip = 16" for ip
    using that IP_Equal_To by (cases "To4 ip") (auto simp: To16_def split: if_splits)
  then have "\<exists>x\<in>set (certificate_ips (Inr addrs)). IP_Equal ip x \<or> IsLoopback ip \<and> IsLoopback x"
    if "IPNet ip \<in> set addrs" "length ip = 4 \<or> length ip = 16" for ip
    using that loopbacks unfolding s by (cases "IsLoopback ip") blast+
  moreover have "IsLoopback x \<or> (\<exists>ip. IPNet ip \<in> set addrs \<and> \<not> IsLoopback ip \<and> IP_Equal ip x)"
    if "x \<in> set (certificate_ips (Inr addrs))" for x
    using that loopbacks IP_Equal_To unfolding s by blast
  ultimately show ?thesis by blast
qed

theorem certificate_ips_exact_witness:
  "\<exists>x\<in>set (certificate_ips (Inr [IPNet (net_IPv4 192 168 0 1), IPNet (net_IPv4 127 0 0 1)])). x = [192, 168, 0, 1]"
proof -
  let ?a = "[IPNet (net_IPv4 192 168 0 1), IPNet (net_IPv4 127 0 0 1)]"
  have "length (net_IPv4 192 168 0 1) = 16" "\<not> IsLoopback (net_IPv4 192 168 0 1)" by code_simp+
  with certificate_ips_exact [of ?a] obtain x where
    "x \<in> set (certificate_ips (Inr ?a))" "IP_Equal (net_IPv4 192 168 0 1) x" by auto
  moreover have "certificate_ips (Inr ?a) = [net_IPv4 127 0 0 1, IPv6loopback, [192, 168, 0, 1]]" by code_simp
  moreover have "\<not> IP_Equal (net_IPv4 192 168 0 1) (net_IPv4 127 0 0 1)" "\<not> IP_Equal (net_IPv4 192 168 0 1) IPv6loopback"
    by code_simp+
  ultimately show ?thesis by auto
qed

text \<open>Two file names win over the request for a self-signed certificate, and with that request one file
  name alone is no error.\<close>

lemma LoadCertificate_selfsigned:
  "LoadCertificate T now addrs c k True =
     (if c \<noteq> [] \<and> k \<noteq> [] then tls_LoadX509KeyPair T c k
      else map_sum (\<lambda>e. e) fst (GenerateSelfSignedCert T now addrs))"
  by (auto simp: LoadCertificate_def split: sum.split)

end
