(* ===== verification/Flags.thy ===== *)
theory Flags
  imports Go_Text
begin

text \<open>
  What the commands use of the flag package: a set of flags with their defaults and \<^verbatim>\<open>FlagSet.Parse\<close> with the
  policy to exit on an error, and below it \<^verbatim>\<open>strconv.ParseBool\<close> and \<^verbatim>\<open>strconv.ParseInt\<close> with base 0.
  \<^verbatim>\<open>time.ParseDuration\<close> computes with floating point numbers and is a parameter.
\<close>

section \<open>Numbers and truth values\<close>

datatype num_error = ErrSyntax | ErrRange

definition is_letter :: "char \<Rightarrow> bool" where
  "is_letter c \<longleftrightarrow> (let n = of_char c :: nat in 65 \<le> n \<and> n \<le> 90 \<or> 97 \<le> n \<and> n \<le> 122)"

text \<open>The value of a digit, the letters of either case for 10 and up.\<close>

definition digit_of :: "char \<Rightarrow> nat option" where
  "digit_of c =
     (if is_digit c then Some (digit_value c)
      else if is_letter c then Some ((if (of_char c :: nat) \<le> 90 then of_char c - 65 else of_char c - 97) + 10)
      else None)"

primrec parse_digits :: "nat \<Rightarrow> int \<Rightarrow> bool \<Rightarrow> string \<Rightarrow> num_error + int \<times> bool" where
  "parse_digits base n underscores [] = Inr (n, underscores)"
| "parse_digits base n underscores (c # cs) =
     (if c = CHR ''_'' then parse_digits base n True cs
      else case digit_of c of
        None \<Rightarrow> Inl ErrSyntax
      | Some d \<Rightarrow>
          if base \<le> d then Inl ErrSyntax
          else if n * int base + int d > 18446744073709551615 then Inl ErrRange
          else parse_digits base (n * int base + int d) underscores cs)"

text \<open>\<^verbatim>\<open>underscoreOK\<close>: underscores only between digits; a base prefix counts as a digit.\<close>

datatype seen = SeenBegin | SeenDigit | SeenUnderscore | SeenOther

primrec underscores_ok :: "bool \<Rightarrow> seen \<Rightarrow> string \<Rightarrow> bool" where
  "underscores_ok hex prev [] = (prev \<noteq> SeenUnderscore)"
| "underscores_ok hex prev (c # cs) =
     (if is_digit c \<or> hex \<and> (case digit_of c of None \<Rightarrow> False | Some d \<Rightarrow> d < 16) then underscores_ok hex SeenDigit cs
      else if c = CHR ''_'' then prev = SeenDigit \<and> underscores_ok hex SeenUnderscore cs
      else prev \<noteq> SeenUnderscore \<and> underscores_ok hex SeenOther cs)"

definition base_prefix :: "string \<Rightarrow> (nat \<times> string) option" where
  "base_prefix s =
     (case s of
        z # x # rest \<Rightarrow>
          if z = CHR ''0'' \<and> (x = CHR ''b'' \<or> x = CHR ''B'') then Some (2, rest)
          else if z = CHR ''0'' \<and> (x = CHR ''o'' \<or> x = CHR ''O'') then Some (8, rest)
          else if z = CHR ''0'' \<and> (x = CHR ''x'' \<or> x = CHR ''X'') then Some (16, rest)
          else None
      | _ \<Rightarrow> None)"

definition underscoreOK :: "string \<Rightarrow> bool" where
  "underscoreOK s =
     (case base_prefix s of
        Some (base, rest) \<Rightarrow> underscores_ok (base = 16) SeenDigit rest
      | None \<Rightarrow> underscores_ok False SeenBegin s)"

definition ParseUint0 :: "string \<Rightarrow> num_error + int" where
  "ParseUint0 s =
     (if s = '''' then Inl ErrSyntax
      else let (base, ds) = (case base_prefix s of
                 Some (base, rest) \<Rightarrow> if rest \<noteq> '''' then (base, rest) else (8, tl s)
               | None \<Rightarrow> if hd s = CHR ''0'' then (8, tl s) else (10, s))
           in case parse_digits base 0 False ds of
                Inl err \<Rightarrow> Inl err
              | Inr (n, underscores) \<Rightarrow> if underscores \<and> \<not> underscoreOK s then Inl ErrSyntax else Inr n)"

definition ParseInt0 :: "string \<Rightarrow> num_error + int" where
  "ParseInt0 s =
     (let neg = (case s of c # cs \<Rightarrow> c = CHR ''-'' | [] \<Rightarrow> False);
          ds = (case s of c # cs \<Rightarrow> if c = CHR ''-'' \<or> c = CHR ''+'' then cs else s | [] \<Rightarrow> [])
      in case ParseUint0 ds of
           Inl err \<Rightarrow> Inl err
         | Inr un \<Rightarrow>
             if \<not> neg \<and> un \<ge> 9223372036854775808 then Inl ErrRange
             else if neg \<and> un > 9223372036854775808 then Inl ErrRange
             else Inr (if neg then - un else un))"

definition ParseBool :: "string \<Rightarrow> bool option" where
  "ParseBool s =
     (if s \<in> set [''1'', ''t'', ''T'', ''true'', ''TRUE'', ''True''] then Some True
      else if s \<in> set [''0'', ''f'', ''F'', ''false'', ''FALSE'', ''False''] then Some False
      else None)"

section \<open>Flag sets\<close>

datatype flag_value = FString string | FBool bool | FInt int | FDuration int

type_synonym flag_set = "(string \<times> flag_value) list"

type_synonym duration_parser = "string \<Rightarrow> int option"

fun is_bool_flag :: "flag_value \<Rightarrow> bool" where
  "is_bool_flag (FBool b) = True"
| "is_bool_flag v = False"

text \<open>\<^verbatim>\<open>Value.Set\<close>; the error is its text.\<close>

fun flag_Set :: "duration_parser \<Rightarrow> flag_value \<Rightarrow> string \<Rightarrow> string + flag_value" where
  "flag_Set D (FString x) s = Inr (FString s)"
| "flag_Set D (FBool x) s = (case ParseBool s of None \<Rightarrow> Inl ''parse error'' | Some b \<Rightarrow> Inr (FBool b))"
| "flag_Set D (FInt x) s =
     (case ParseInt0 s of
        Inl ErrSyntax \<Rightarrow> Inl ''parse error''
      | Inl ErrRange \<Rightarrow> Inl ''value out of range''
      | Inr n \<Rightarrow> Inr (FInt n))"
| "flag_Set D (FDuration x) s = (case D s of None \<Rightarrow> Inl ''parse error'' | Some d \<Rightarrow> Inr (FDuration d))"

text \<open>\<^verbatim>\<open>parseOne\<close>: one flag taken, the end of the flags, a request for help, or a complaint.\<close>

datatype one_flag = FlagTaken flag_set "string list" | FlagsEnd "string list" | FlagsHelp | FlagsBad string

definition take_flag :: "duration_parser \<Rightarrow> flag_set \<Rightarrow> string \<Rightarrow> string option \<Rightarrow> string list \<Rightarrow> one_flag" where
  "take_flag D fs name value args =
     (case map_of fs name of
        None \<Rightarrow>
          if name = ''help'' \<or> name = ''h'' then FlagsHelp
          else FlagsBad (''flag provided but not defined: -'' @ name)
      | Some old \<Rightarrow>
          if is_bool_flag old then
            (let v = (case value of Some v \<Rightarrow> v | None \<Rightarrow> ''true'')
             in case flag_Set D old v of
                  Inl err \<Rightarrow> FlagsBad (''invalid boolean value '' @ fmt_q v @ '' for -'' @ name @ '': '' @ err)
                | Inr new \<Rightarrow> FlagTaken (AList.update name new fs) args)
          else
            (case (case value of Some v \<Rightarrow> Some (v, args) | None \<Rightarrow> (case args of [] \<Rightarrow> None | v # rest \<Rightarrow> Some (v, rest))) of
               None \<Rightarrow> FlagsBad (''flag needs an argument: -'' @ name)
             | Some (v, rest) \<Rightarrow>
                 (case flag_Set D old v of
                    Inl err \<Rightarrow> FlagsBad (''invalid value '' @ fmt_q v @ '' for flag -'' @ name @ '': '' @ err)
                  | Inr new \<Rightarrow> FlagTaken (AList.update name new fs) rest)))"

text \<open>A name and what follows an equals sign; the first character of the name is not looked at.\<close>

definition split_flag :: "string \<Rightarrow> string \<times> string option" where
  "split_flag name =
     (let k = takeWhile (\<lambda>c. c \<noteq> CHR ''='') (tl name)
      in if length k < length (tl name) then (hd name # k, Some (drop (Suc (length k)) (tl name))) else (name, None))"

definition parseOne :: "duration_parser \<Rightarrow> flag_set \<Rightarrow> string list \<Rightarrow> one_flag" where
  "parseOne D fs args =
     (case args of
        [] \<Rightarrow> FlagsEnd []
      | s # rest \<Rightarrow>
          if length s < 2 \<or> hd s \<noteq> CHR ''-'' then FlagsEnd args
          else if s = ''--'' then FlagsEnd rest
          else let name = (if s ! 1 = CHR ''-'' then drop 2 s else drop 1 s)
               in if name = '''' \<or> hd name = CHR ''-'' \<or> hd name = CHR ''='' then FlagsBad (''bad flag syntax: '' @ s)
                  else case split_flag name of (n, value) \<Rightarrow> take_flag D fs n value rest)"

lemma parseOne_shorter: "parseOne D fs args = FlagTaken fs' rest \<Longrightarrow> length rest < length args"
  by (auto simp: parseOne_def take_flag_def Let_def split: list.splits if_splits prod.splits option.splits sum.splits)

datatype flags_result = Parsed flag_set "string list" | ShownHelp | Refused string

text \<open>\<^verbatim>\<open>Parse\<close>. Under the policy \<^verbatim>\<open>ExitOnError\<close> help exits with 0 and a complaint with 2.\<close>

function flags_Parse :: "duration_parser \<Rightarrow> flag_set \<Rightarrow> string list \<Rightarrow> flags_result" where
  "flags_Parse D fs args =
     (case parseOne D fs args of
        FlagTaken fs' rest \<Rightarrow> flags_Parse D fs' rest
      | FlagsEnd rest \<Rightarrow> Parsed fs rest
      | FlagsHelp \<Rightarrow> ShownHelp
      | FlagsBad msg \<Rightarrow> Refused msg)"
  by pat_completeness auto
termination by (relation "measure (\<lambda>(D, fs, args). length args)") (auto intro: parseOne_shorter)

declare flags_Parse.simps [simp del]

definition flag_string :: "flag_set \<Rightarrow> string \<Rightarrow> string" where
  "flag_string fs name = (case map_of fs name of Some (FString s) \<Rightarrow> s | _ \<Rightarrow> '''')"

definition flag_bool :: "flag_set \<Rightarrow> string \<Rightarrow> bool" where
  "flag_bool fs name = (case map_of fs name of Some (FBool b) \<Rightarrow> b | _ \<Rightarrow> False)"

definition flag_int :: "flag_set \<Rightarrow> string \<Rightarrow> int" where
  "flag_int fs name = (case map_of fs name of Some (FInt n) \<Rightarrow> n | _ \<Rightarrow> 0)"

definition flag_duration :: "flag_set \<Rightarrow> string \<Rightarrow> int" where
  "flag_duration fs name = (case map_of fs name of Some (FDuration d) \<Rightarrow> d | _ \<Rightarrow> 0)"

section \<open>Numbers as the flags print them\<close>

lemma hd_digits: "2 \<le> base \<Longrightarrow> 0 < n \<Longrightarrow> 0 < hd (digits base n)"
proof (induction base n rule: digits.induct)
  case (1 base n)
  then show ?case
    by (cases "n < base") (subst digits.simps, auto simp: hd_append div_greater_zero_iff)+
qed

lemma fmt_d_plain:
  "fmt_d 0 = ''0''"
  "0 < n \<Longrightarrow> hd (fmt_d n) \<noteq> CHR ''0''"
proof -
  show "fmt_d 0 = ''0''" by (simp add: fmt_d_def digits.simps lower_digit_def)
  assume "0 < n"
  then have "0 < hd (digits 10 n)" by (intro hd_digits) simp_all
  moreover have "hd (digits 10 n) < 10" using digits_lt [of 10 "hd (digits 10 n)" n] by simp
  ultimately show "hd (fmt_d n) \<noteq> CHR ''0''"
    using lower_digit_value(2) [of "hd (digits 10 n)"] by (auto simp: fmt_d_def hd_map digit_value_def)
qed

lemma foldl_grows: "a \<le> foldl (\<lambda>a d. 10 * a + d) (a :: nat) ds"
proof (induction ds arbitrary: a)
  case (Cons d ds)
  from Cons [of "10 * a + d"] show ?case by (simp add: order_trans [of a "10 * a + d"])
qed simp

lemma parse_digits_decimal:
  assumes "list_all is_digit ds" and "foldl (\<lambda>a d. 10 * a + d) n (map digit_value ds) < 2 ^ 64"
  shows "parse_digits 10 (int n) us ds = Inr (int (foldl (\<lambda>a d. 10 * a + d) n (map digit_value ds)), us)"
  using assms
proof (induction ds arbitrary: n)
  case (Cons c ds)
  have c: "c \<noteq> CHR ''_''" "digit_of c = Some (digit_value c)" "digit_value c < 10"
    using Cons.prems(1) by (auto simp: is_digit_def digit_of_def digit_value_def)
  have "10 * n + digit_value c < 2 ^ 64"
    using foldl_grows [of "10 * n + digit_value c" "map digit_value ds"] Cons.prems(2) by simp
  then have "\<not> int n * 10 + int (digit_value c) > 18446744073709551615" by simp
  moreover have "parse_digits 10 (int (10 * n + digit_value c)) us ds =
      Inr (int (foldl (\<lambda>a d. 10 * a + d) n (map digit_value (c # ds))), us)"
    using Cons.IH [of "10 * n + digit_value c"] Cons.prems by simp
  moreover have "int n * 10 + int (digit_value c) = int (10 * n + digit_value c)" by simp
  ultimately show ?case using c by (simp only: parse_digits.simps option.case if_False) (simp add: mult.commute add.commute)
qed simp

lemma no_base_prefix: "x \<notin> set ''bBoOxX'' \<Longrightarrow> base_prefix (z # x # rest) = None"
  by (simp add: base_prefix_def)

lemma not_digits: "c \<in> set ''bBoOxX'' \<Longrightarrow> \<not> is_digit c"
  by (auto simp: is_digit_def)

lemma base_prefix_digits: "list_all is_digit s \<Longrightarrow> base_prefix s = None"
proof (cases s rule: list.exhaust [case_names Nil Cons])
  case (Cons z xs)
  assume d: "list_all is_digit s"
  show ?thesis
  proof (cases xs)
    case Nil
    then show ?thesis using Cons by (simp add: base_prefix_def)
  next
    case (Cons x rest)
    then have "is_digit x" using d \<open>s = z # xs\<close> by simp
    then have "x \<notin> set ''bBoOxX''" using not_digits by blast
    then show ?thesis using Cons \<open>s = z # xs\<close> no_base_prefix by simp
  qed
qed (simp add: base_prefix_def)

lemma ParseUint0_fmt_d:
  assumes "n < 2 ^ 64"
  shows "ParseUint0 (fmt_d n) = Inr (int n)"
proof (cases "n = 0")
  case True
  then show ?thesis by (simp add: ParseUint0_def fmt_d_plain(1) base_prefix_def)
next
  case False
  note d = fmt_d_digits [of n]
  have "parse_digits 10 0 False (fmt_d n) = Inr (int n, False)"
    using parse_digits_decimal [OF d(1), of 0 False] d(3) assms by (simp add: undigits_def)
  with False d fmt_d_plain(2) [of n] show ?thesis by (simp add: ParseUint0_def base_prefix_digits)
qed

lemma ParseInt0_fmt_int:
  assumes "- (2 ^ 63) \<le> n" and "n < 2 ^ 63"
  shows "ParseInt0 (fmt_int n) = Inr n"
proof (cases "n < 0")
  case True
  then have "nat (- n) < 2 ^ 64" using assms(1) by simp
  then have "ParseUint0 (fmt_d (nat (- n))) = Inr (int (nat (- n)))" by (rule ParseUint0_fmt_d)
  with True assms(1) show ?thesis by (simp add: ParseInt0_def fmt_int_def Let_def)
next
  case False
  obtain c cs where f: "fmt_d (nat n) = c # cs" using fmt_d_digits(2) by (meson neq_Nil_conv)
  then have "c \<noteq> CHR ''-'' \<and> c \<noteq> CHR ''+''" using fmt_d_digits(1) [of "nat n"] is_digit_not_sign by simp
  moreover have "nat n < 2 ^ 64" using assms(2) by simp
  then have "ParseUint0 (fmt_d (nat n)) = Inr (int (nat n))" by (rule ParseUint0_fmt_d)
  ultimately show ?thesis using False f assms(2) by (simp add: ParseInt0_def fmt_int_def Let_def)
qed

section \<open>Parsing flags\<close>

text \<open>A flag keeps its kind.\<close>

fun same_kind :: "flag_value \<Rightarrow> flag_value \<Rightarrow> bool" where
  "same_kind (FString x) (FString y) = True"
| "same_kind (FBool x) (FBool y) = True"
| "same_kind (FInt x) (FInt y) = True"
| "same_kind (FDuration x) (FDuration y) = True"
| "same_kind x y = False"

lemma same_kind_refl [simp]: "same_kind v v" by (cases v) simp_all

lemma same_kind_trans: "same_kind u v \<Longrightarrow> same_kind v w \<Longrightarrow> same_kind u w"
  by (cases u; cases v; cases w) simp_all

definition same_flags :: "flag_set \<Rightarrow> flag_set \<Rightarrow> bool" where
  "same_flags fs fs' \<longleftrightarrow> (\<forall>n. rel_option same_kind (map_of fs n) (map_of fs' n))"

lemma same_flags_refl [simp]: "same_flags fs fs"
  by (simp add: same_flags_def option.rel_refl)

lemma same_flags_trans: "same_flags a b \<Longrightarrow> same_flags b c \<Longrightarrow> same_flags a c"
  unfolding same_flags_def by (metis (no_types, lifting) option.rel_cases option.rel_inject same_kind_trans option.rel_distinct)

lemma flag_Set_kind: "flag_Set D v s = Inr w \<Longrightarrow> same_kind v w"
  by (cases "(D, v, s)" rule: flag_Set.cases) (auto split: option.splits sum.splits num_error.splits)

lemma take_flag_same:
  assumes "take_flag D fs n value args = FlagTaken fs' rest"
  shows "same_flags fs fs'"
proof -
  obtain old new v where o: "map_of fs n = Some old" "flag_Set D old v = Inr new" "fs' = AList.update n new fs"
    using assms by (auto simp: take_flag_def Let_def split: option.splits if_splits sum.splits prod.splits list.splits)
  then show ?thesis using flag_Set_kind [OF o(2)] by (auto simp: same_flags_def update_conv' option.rel_refl)
qed

lemma parseOne_same: "parseOne D fs args = FlagTaken fs' rest \<Longrightarrow> same_flags fs fs'"
  by (auto simp: parseOne_def Let_def split: list.splits if_splits prod.splits intro: take_flag_same)

lemma flags_Parse_same: "flags_Parse D fs args = Parsed fs' rest \<Longrightarrow> same_flags fs fs'"
proof (induction D fs args rule: flags_Parse.induct)
  case (1 D fs args)
  then show ?case
    by (subst (asm) flags_Parse.simps)
      (auto split: one_flag.splits dest: parseOne_same intro: same_flags_trans)
qed

text \<open>A flag given as \<^verbatim>\<open>-name=value\<close>.\<close>

definition flag_arg :: "string \<Rightarrow> string \<Rightarrow> string" where
  "flag_arg n v = CHR ''-'' # n @ CHR ''='' # v"

definition flag_name :: "string \<Rightarrow> bool" where
  "flag_name n \<longleftrightarrow> n \<noteq> '''' \<and> hd n \<noteq> CHR ''-'' \<and> CHR ''='' \<notin> set n"

lemma split_flag_arg:
  assumes "flag_name n"
  shows "split_flag (n @ CHR ''='' # v) = (n, Some v)"
proof -
  obtain c cs where n: "n = c # cs" "CHR ''='' \<notin> set cs" using assms by (cases n) (auto simp: flag_name_def)
  have "\<forall>x\<in>set cs. x \<noteq> CHR ''=''" using n(2) by auto
  then have "takeWhile (\<lambda>x. x \<noteq> CHR ''='') (cs @ CHR ''='' # v) = cs" by (simp add: takeWhile_append2)
  then show ?thesis by (simp add: split_flag_def n(1))
qed

lemma parseOne_arg:
  assumes "flag_name n"
  shows "parseOne D fs (flag_arg n v # rest) = take_flag D fs n (Some v) rest"
proof -
  obtain c cs where n: "n = c # cs" "c \<noteq> CHR ''-''" "c \<noteq> CHR ''=''" using assms by (cases n) (auto simp: flag_name_def)
  have "split_flag (c # cs @ CHR ''='' # v) = (c # cs, Some v)" using split_flag_arg [OF assms, of v] n(1) by simp
  with n show ?thesis by (simp add: parseOne_def flag_arg_def Let_def)
qed

lemma flags_Parse_arg:
  assumes "flag_name n" and "map_of fs n = Some old" and "flag_Set D old v = Inr new"
  shows "flags_Parse D fs (flag_arg n v # rest) = flags_Parse D (AList.update n new fs) rest"
  using assms by (subst flags_Parse.simps) (simp add: parseOne_arg take_flag_def Let_def)

lemma flags_Parse_Nil: "flags_Parse D fs [] = Parsed fs []"
  by (subst flags_Parse.simps) (simp add: parseOne_def)

section \<open>Round trip\<close>

fun show_flag :: "flag_value \<Rightarrow> string" where
  "show_flag (FString s) = s"
| "show_flag (FBool b) = (if b then ''true'' else ''false'')"
| "show_flag (FInt n) = fmt_int n"
| "show_flag (FDuration d) = ''''"

fun shows_exactly :: "flag_value \<Rightarrow> bool" where
  "shows_exactly (FInt n) \<longleftrightarrow> - (2 ^ 63) \<le> n \<and> n < 2 ^ 63"
| "shows_exactly (FDuration d) \<longleftrightarrow> False"
| "shows_exactly v \<longleftrightarrow> True"

definition given_ok :: "flag_set \<Rightarrow> string \<times> flag_value \<Rightarrow> bool" where
  "given_ok fs p \<longleftrightarrow> flag_name (fst p) \<and> shows_exactly (snd p) \<and>
     (case map_of fs (fst p) of None \<Rightarrow> False | Some old \<Rightarrow> same_kind old (snd p))"

definition set_flags :: "flag_set \<Rightarrow> (string \<times> flag_value) list \<Rightarrow> flag_set" where
  "set_flags fs ps = foldl (\<lambda>f p. AList.update (fst p) (snd p) f) fs ps"

lemma flag_Set_show: "same_kind old v \<Longrightarrow> shows_exactly v \<Longrightarrow> flag_Set D old (show_flag v) = Inr v"
  by (cases "(old, v)" rule: same_kind.cases) (simp_all add: ParseBool_def ParseInt0_fmt_int)

lemma given_ok_set: "given_ok fs p \<Longrightarrow> given_ok fs q \<Longrightarrow> given_ok (AList.update (fst p) (snd p) fs) q"
  by (auto simp: given_ok_def update_conv' split: option.splits) (metis same_kind_refl flag_value.exhaust same_kind.simps)+

lemma flags_roundtrip_lemma:
  assumes "list_all (given_ok fs) ps"
  shows "flags_Parse D fs (map (\<lambda>p. flag_arg (fst p) (show_flag (snd p))) ps) = Parsed (set_flags fs ps) []"
  using assms
proof (induction ps arbitrary: fs)
  case (Cons p ps)
  then obtain old where o: "flag_name (fst p)" "map_of fs (fst p) = Some old" "flag_Set D old (show_flag (snd p)) = Inr (snd p)"
    using flag_Set_show by (fastforce simp: given_ok_def split: option.splits)
  have "list_all (given_ok (AList.update (fst p) (snd p) fs)) ps"
    using Cons.prems given_ok_set by (auto simp: list_all_iff)
  from Cons.IH [OF this] flags_Parse_arg [OF o] show ?case by (simp add: set_flags_def)
qed (simp add: flags_Parse_Nil set_flags_def)

end
