(* ===== verification/Commands.thy ===== *)
theory Commands
  imports Handlers Certificates Flags
begin

text \<open>
  cmd/devious-baton, cmd/echo, cmd/demoserver and internal/serve: what the commands do with their
  arguments and with the outcomes of the operations they call. Listening, configuring the HTTP/2 server,
  waiting for signals, parsing a URL and the run of a session under a context are parameters: their outcomes are
  arguments.
\<close>

section \<open>Servers\<close>

text \<open>What is registered with a \<^verbatim>\<open>http.ServeMux\<close>.\<close>

datatype mux_handler = EchoHandler | BatonHandler int int | SelftestHandler Config | ReleaseHandler

type_synonym serve_mux = "(string \<times> mux_handler) list"

record 'cert http_server =
  hs_Handler :: serve_mux
  hs_Certificate :: 'cert
  hs_NextProtos :: "string list"
  hs_KeyLogFile :: "string option"
  hs_WebTransport :: "WebTransportSettings option"

definition newServer :: "('cert http_server \<Rightarrow> go_err option) \<Rightarrow> 'cert \<Rightarrow> serve_mux \<Rightarrow> go_err + 'cert http_server" where
  "newServer ConfigureServer cert handler =
     (let server = \<lparr>hs_Handler = handler, hs_Certificate = cert, hs_NextProtos = [''h2''], hs_KeyLogFile = None,
                    hs_WebTransport = Some DefaultWebTransportSettings\<rparr>
      in case ConfigureServer server of Some err \<Rightarrow> Inl err | None \<Rightarrow> Inr server)"

text \<open>cmd/echo has a copy of the function.\<close>

definition echo_newServer :: "('cert http_server \<Rightarrow> go_err option) \<Rightarrow> 'cert \<Rightarrow> serve_mux \<Rightarrow> go_err + 'cert http_server" where
  "echo_newServer = newServer"

text \<open>\<^verbatim>\<open>newServer\<close> of cmd/demoserver, with the key log file that the environment names.\<close>

definition demo_newServer ::
  "('cert http_server \<Rightarrow> go_err option) \<Rightarrow> string \<Rightarrow> (string \<Rightarrow> go_err option) \<Rightarrow> 'cert \<Rightarrow> serve_mux \<Rightarrow>
   go_err + 'cert http_server" where
  "demo_newServer ConfigureServer SSLKEYLOGFILE OpenFile cert handler =
     (let openErr = (if SSLKEYLOGFILE \<noteq> '''' then OpenFile SSLKEYLOGFILE else None)
      in case openErr of
           Some err \<Rightarrow> Inl (Errorf ''SSLKEYLOGFILE: '' err '''')
         | None \<Rightarrow>
             (let server = \<lparr>hs_Handler = handler, hs_Certificate = cert, hs_NextProtos = [''h2''],
                            hs_KeyLogFile = (if SSLKEYLOGFILE \<noteq> '''' then Some SSLKEYLOGFILE else None),
                            hs_WebTransport = Some DefaultWebTransportSettings\<rparr>
              in case ConfigureServer server of Some err \<Rightarrow> Inl err | None \<Rightarrow> Inr server))"

text \<open>What the select of \<^verbatim>\<open>UntilSignal\<close> sees first: a signal, or the end of \<^verbatim>\<open>Serve\<close> with
  \<^verbatim>\<open>http.ErrServerClosed\<close> or another error. The result is the error and whether the key log was closed.\<close>

datatype serve_event = GotSignal | ServerClosed | ServeFailed go_err

definition UntilSignal :: "go_err option \<Rightarrow> serve_event \<Rightarrow> 'cert http_server \<Rightarrow> go_err option \<times> bool" where
  "UntilSignal listenErr ev server =
     (case listenErr of
        Some err \<Rightarrow> (Some err, False)
      | None \<Rightarrow>
          (case ev of
             GotSignal \<Rightarrow> (None, hs_KeyLogFile server \<noteq> None)
           | ServerClosed \<Rightarrow> (None, False)
           | ServeFailed err \<Rightarrow> (Some err, False)))"

text \<open>What a serving command meets outside: the clock, the interfaces, the patterns that \<^verbatim>\<open>ServeMux.Handle\<close> takes
  without a panic, the listener by its address, the events of a server.\<close>

record ('key, 'cert, 'leaf) serve_env =
  env_tls :: "('key, 'cert, 'leaf) tls_ops"
  env_now :: int
  env_addrs :: "go_err + net_Addr list"
  env_pattern :: "string \<Rightarrow> bool"
  env_ConfigureServer :: "'cert http_server \<Rightarrow> go_err option"
  env_listen :: "string \<Rightarrow> go_err option"
  env_event :: "'cert http_server \<Rightarrow> serve_event"

text \<open>How a command ends: it exits while it reads its flags, it panics, or it returns.\<close>

datatype cmd_end = CmdExit nat | CmdPanic | CmdReturn "go_err option"

definition with_flags :: "duration_parser \<Rightarrow> flag_set \<Rightarrow> string list \<Rightarrow> (flag_set \<Rightarrow> cmd_end) \<Rightarrow> cmd_end" where
  "with_flags D fs args f =
     (case flags_Parse D fs args of
        Parsed fs' rest \<Rightarrow> f fs'
      | ShownHelp \<Rightarrow> CmdExit 0
      | Refused msg \<Rightarrow> CmdExit 2)"

definition load_certificate :: "('key, 'cert, 'leaf) serve_env \<Rightarrow> flag_set \<Rightarrow> go_err + 'cert" where
  "load_certificate E fs =
     LoadCertificate (env_tls E) (env_now E) (env_addrs E) (flag_string fs ''cert'') (flag_string fs ''key'')
       (flag_bool fs ''selfsigned'')"

section \<open>The serve commands\<close>

definition echo_serve_flags :: flag_set where
  "echo_serve_flags =
     [(''addr'', FString ''localhost:4433''), (''path'', FString echo_Path), (''cert'', FString ''''),
      (''key'', FString ''''), (''selfsigned'', FBool False)]"

definition echo_cmdServe :: "duration_parser \<Rightarrow> ('key, 'cert, 'leaf) serve_env \<Rightarrow> string list \<Rightarrow> cmd_end" where
  "echo_cmdServe D E args =
     with_flags D echo_serve_flags args (\<lambda>fs.
       case load_certificate E fs of
         Inl err \<Rightarrow> CmdReturn (Some err)
       | Inr cert \<Rightarrow>
           if \<not> env_pattern E (flag_string fs ''path'') then CmdPanic
           else
             (case echo_newServer (env_ConfigureServer E) cert [(flag_string fs ''path'', EchoHandler)] of
                Inl err \<Rightarrow> CmdReturn (Some err)
              | Inr server \<Rightarrow>
                  CmdReturn (fst (UntilSignal (env_listen E (flag_string fs ''addr'')) (env_event E server) server))))"

definition baton_serve_flags :: flag_set where
  "baton_serve_flags =
     [(''addr'', FString ''localhost:4433''), (''cert'', FString ''''), (''key'', FString ''''),
      (''selfsigned'', FBool False), (''max-count'', FInt 16), (''padding'', FInt 0)]"

definition baton_cmdServe :: "duration_parser \<Rightarrow> ('key, 'cert, 'leaf) serve_env \<Rightarrow> string list \<Rightarrow> cmd_end" where
  "baton_cmdServe D E args =
     with_flags D baton_serve_flags args (\<lambda>fs.
       case load_certificate E fs of
         Inl err \<Rightarrow> CmdReturn (Some err)
       | Inr cert \<Rightarrow>
           (case newServer (env_ConfigureServer E) cert
                   [(baton_Path, BatonHandler (flag_int fs ''max-count'') (flag_int fs ''padding''))] of
              Inl err \<Rightarrow> CmdReturn (Some err)
            | Inr server \<Rightarrow>
                CmdReturn (fst (UntilSignal (env_listen E (flag_string fs ''addr'')) (env_event E server) server))))"

text \<open>How a program ends: it returns, exits with a status, logs an error and exits with 1, or panics.\<close>

datatype main_end = MainReturn | MainExit nat | MainFatal go_err | MainPanic

fun main_of :: "cmd_end \<Rightarrow> main_end" where
  "main_of (CmdExit n) = MainExit n"
| "main_of CmdPanic = MainPanic"
| "main_of (CmdReturn None) = MainReturn"
| "main_of (CmdReturn (Some err)) = MainFatal err"

text \<open>\<^verbatim>\<open>main\<close> of cmd/demoserver, which reads the flags of the program itself.\<close>

definition demo_main_flags :: flag_set where
  "demo_main_flags =
     [(''addr'', FString ''localhost:4433''), (''cert'', FString ''''), (''key'', FString ''''),
      (''selfsigned'', FBool False), (''max-count'', FInt 16), (''padding'', FInt 0)]"

definition demo_routes :: "flag_set \<Rightarrow> serve_mux" where
  "demo_routes fs =
     [(echo_Path, EchoHandler),
      (baton_Path, BatonHandler (flag_int fs ''max-count'') (flag_int fs ''padding'')),
      (''GET /release'', ReleaseHandler)]"

definition demo_main ::
  "duration_parser \<Rightarrow> ('key, 'cert, 'leaf) serve_env \<Rightarrow> string \<Rightarrow> (string \<Rightarrow> go_err option) \<Rightarrow> string list \<Rightarrow> main_end" where
  "demo_main D E SSLKEYLOGFILE OpenFile args =
     main_of (with_flags D demo_main_flags (tl args) (\<lambda>fs.
       case load_certificate E fs of
         Inl err \<Rightarrow> CmdReturn (Some err)
       | Inr cert \<Rightarrow>
           (case demo_newServer (env_ConfigureServer E) SSLKEYLOGFILE OpenFile cert (demo_routes fs) of
              Inl err \<Rightarrow> CmdReturn (Some err)
            | Inr server \<Rightarrow>
                CmdReturn (fst (UntilSignal (env_listen E (flag_string fs ''addr'')) (env_event E server) server)))))"

definition handleRelease :: "string \<Rightarrow> ResponseWriter \<Rightarrow> ResponseWriter" where
  "handleRelease release w =
     (let w1 = WriteHeader (w\<lparr>rw_Header := Header_Set (rw_Header w) ''Content-Type'' ''text/plain; charset=utf-8''\<rparr>) 200
      in w1\<lparr>rw_body := rw_body w1 @ release @ [CHR 0x0a]\<rparr>)"

section \<open>The mains of cmd/devious-baton and cmd/echo\<close>

definition usage_text :: "string list \<Rightarrow> string" where
  "usage_text lines = concat (map (\<lambda>l. l @ [CHR 0x0a]) lines)"

definition baton_usage :: string where
  "baton_usage = usage_text
    [''Usage: devious-baton <command> [flags]'',
     '''',
     ''Commands:'',
     ''  serve      Run a Devious Baton WebTransport server'',
     ''  client     Connect to a Devious Baton endpoint'',
     ''  selftest   In-process server+client exchange (no external peer)'',
     '''',
     ''Examples:'',
     ''  go run ./cmd/devious-baton serve -addr localhost:4433'',
     ''  go run ./cmd/devious-baton client -url '' @ [CHR 0x27] @
       ''https://localhost:4433/webtransport/devious-baton?baton=42&count=1'' @ [CHR 0x27] @ '' -insecure'',
     ''  go run ./cmd/devious-baton selftest -baton 200 -count 1'']"

definition echo_usage :: string where
  "echo_usage = usage_text
    [''Usage: echo <command> [flags]'',
     '''',
     ''Commands:'',
     ''  serve      Run an echo WebTransport server'',
     ''  client     Send one payload and assert the echo'',
     ''  selftest   In-process server+client exchange (no external peer)'',
     '''',
     ''The client and selftest -mode flag selects the channel:'',
     ''  bidi       Bidirectional stream (reply on the same stream)'',
     ''  uni        Unidirectional stream (reply on a new unidirectional stream)'',
     ''  datagram   Datagram (reply as a datagram)'',
     '''',
     ''Examples:'',
     ''  go run ./cmd/echo serve -addr localhost:4433 -selfsigned'',
     ''  go run ./cmd/echo client -url https://localhost:4433/webtransport/echo -insecure -mode uni'',
     ''  go run ./cmd/echo selftest -mode datagram'']"

text \<open>The two mains are the same but for their commands and usage. The result has what goes to the standard error.\<close>

definition cmd_main ::
  "string \<Rightarrow> (string list \<Rightarrow> cmd_end) \<Rightarrow> (string list \<Rightarrow> cmd_end) \<Rightarrow> (string list \<Rightarrow> cmd_end) \<Rightarrow>
   string list \<Rightarrow> main_end \<times> string" where
  "cmd_main usage serve client selftest args =
     (if length args < 2 then (MainExit 2, usage)
      else let c = args ! 1; rest = drop 2 args
           in if c = ''serve'' then (main_of (serve rest), '''')
              else if c = ''client'' then (main_of (client rest), '''')
              else if c = ''selftest'' then (main_of (selftest rest), '''')
              else if c = ''help'' \<or> c = ''-h'' \<or> c = ''--help'' then (MainReturn, usage)
              else (MainExit 2, ''unknown command '' @ fmt_q c @ [CHR 0x0a, CHR 0x0a] @ usage))"

section \<open>The baton client\<close>

text \<open>A URL that was parsed: what precedes the query, and the query.\<close>

record parsed_url =
  pu_base :: string
  pu_RawQuery :: string

record baton_flags =
  fl_url :: string
  fl_baton :: int
  fl_count :: int
  fl_padding :: int

definition baton_flags_of :: "flag_set \<Rightarrow> baton_flags" where
  "baton_flags_of fs =
    \<lparr>fl_url = flag_string fs ''url'', fl_baton = flag_int fs ''baton'', fl_count = flag_int fs ''count'',
     fl_padding = flag_int fs ''padding''\<rparr>"

definition baton_client_query :: "baton_flags \<Rightarrow> url_Values \<Rightarrow> url_Values" where
  "baton_client_query f q =
     (let q1 = (if Values_Get q ''baton'' = '''' \<and> fl_baton f \<noteq> 0
                then Values_Set q ''baton'' (fmt_int (fl_baton f)) else q)
      in if Values_Get q1 ''count'' = '''' \<and> fl_count f \<noteq> 0
         then Values_Set q1 ''count'' (fmt_int (fl_count f)) else q1)"

text \<open>\<^verbatim>\<open>cmdClient\<close> up to the dial: the URL it dials and the configuration it will run with.\<close>

definition baton_cmdClient_config ::
  "(string \<Rightarrow> go_err + parsed_url) \<Rightarrow> baton_flags \<Rightarrow> go_err + parsed_url \<times> Config" where
  "baton_cmdClient_config url_Parse f =
     (if fl_url f = '''' then Inl (ErrorsNew ''-url is required'')
      else case url_Parse (fl_url f) of
        Inl err \<Rightarrow> Inl err
      | Inr u \<Rightarrow>
          (let q = baton_client_query f (url_ParseQuery (pu_RawQuery u));
               u1 = u\<lparr>pu_RawQuery := Values_Encode q\<rparr>
           in case ParseQuery (url_ParseQuery (pu_RawQuery u1)) of
                Inl err \<Rightarrow> Inl err
              | Inr cfg \<Rightarrow> Inr (u1, cfg\<lparr>Padding := fl_padding f\<rparr>)))"

definition baton_client_flags :: flag_set where
  "baton_client_flags =
     [(''url'', FString ''''), (''insecure'', FBool False), (''baton'', FInt 0), (''count'', FInt 0), (''padding'', FInt 0)]"

text \<open>\<^verbatim>\<open>cmdClient\<close>: \<open>dial\<close> gets whether to skip the verification and the URL as \<^verbatim>\<open>URL.String\<close> writes it, and a panic of it
  is \<open>None\<close>; \<open>run\<close> is what \<^verbatim>\<open>baton.Run\<close> returns for a client.\<close>

definition baton_cmdClient ::
  "duration_parser \<Rightarrow> (string \<Rightarrow> go_err + parsed_url) \<Rightarrow> (parsed_url \<Rightarrow> string) \<Rightarrow>
   (bool \<Rightarrow> string \<Rightarrow> (go_err + Session) option) \<Rightarrow> (Session \<Rightarrow> Config \<Rightarrow> go_err option) \<Rightarrow> string list \<Rightarrow> cmd_end" where
  "baton_cmdClient D url_Parse url_String dial run args =
     with_flags D baton_client_flags args (\<lambda>fs.
       case baton_cmdClient_config url_Parse (baton_flags_of fs) of
         Inl err \<Rightarrow> CmdReturn (Some err)
       | Inr (u, cfg) \<Rightarrow>
           (case dial (flag_bool fs ''insecure'') (url_String u) of
              None \<Rightarrow> CmdPanic
            | Some (Inl err) \<Rightarrow> CmdReturn (Some err)
            | Some (Inr session) \<Rightarrow> CmdReturn (run session cfg)))"

section \<open>The baton self-test\<close>

definition baton_selftest_config :: "baton_flags \<Rightarrow> go_err + Config" where
  "baton_selftest_config f =
     (if fl_baton f < 1 \<or> fl_baton f > 255
      then Inl (ErrorsNew (''baton must be 1'' @ [CHR 0xe2, CHR 0x80, CHR 0x93] @ ''255''))
      else if fl_count f < 1 then Inl (ErrorsNew ''count must be >= 1'')
      else Inr \<lparr>Version = 0, Baton = of_int (fl_baton f), Count = fl_count f, Padding = fl_padding f\<rparr>)"

text \<open>The handler of the self-test's server: the session and the configuration it runs, or the answer 400.\<close>

definition baton_selftest_handler ::
  "sfv_ops \<Rightarrow> go_err option \<Rightarrow> Config \<Rightarrow> ResponseWriter \<Rightarrow> server_request \<Rightarrow> (Session \<times> Config) option \<times> ResponseWriter" where
  "baton_selftest_handler F fullDuplex cfg w r =
     (case ParseQuery (URI_Query (r_RequestURI r)) of
        Inl err \<Rightarrow> (None, http_Error w (Error err) 400)
      | Inr qcfg \<Rightarrow>
          (case Upgrade F None fullDuplex w r of
             (Inl err, w1) \<Rightarrow> (None, http_Error w1 (Error err) 400)
           | (Inr (session, meta), w1) \<Rightarrow> (Some (session, qcfg\<lparr>Padding := Padding cfg\<rparr>), w1)))"

text \<open>The request URI the self-test dials.\<close>

definition baton_selftest_uri :: "Config \<Rightarrow> string" where
  "baton_selftest_uri cfg = baton_Path @ CHR ''?'' # Values_Encode (Config_Query cfg)"

text \<open>The end: the client's and the server's results, in either order, or the end of the context.\<close>

datatype selftest_event = BothEnded "go_err option" "go_err option" | ContextDone go_err

definition baton_selftest_result :: "selftest_event \<Rightarrow> go_err option" where
  "baton_selftest_result ev =
     (case ev of
        ContextDone err \<Rightarrow> Some err
      | BothEnded cerr serr \<Rightarrow>
          (case cerr of
             Some err \<Rightarrow> Some (Errorf ''client: '' err '''')
           | None \<Rightarrow> (case serr of Some err \<Rightarrow> Some (Errorf ''server: '' err '''') | None \<Rightarrow> None)))"

definition baton_selftest_flags :: flag_set where
  "baton_selftest_flags = [(''baton'', FInt 200), (''count'', FInt 1), (''padding'', FInt 0)]"

text \<open>\<^verbatim>\<open>cmdSelftest\<close>: the address of the listener is \<open>host\<close>; \<open>run\<close> is what the select sees when the client and
  the handler of the server have a session each.\<close>

definition baton_cmdSelftest ::
  "duration_parser \<Rightarrow> ('key, 'cert, 'leaf) serve_env \<Rightarrow> string \<Rightarrow> (string \<Rightarrow> (go_err + Session) option) \<Rightarrow>
   (Session \<Rightarrow> Config \<Rightarrow> selftest_event) \<Rightarrow> string list \<Rightarrow> cmd_end" where
  "baton_cmdSelftest D E host dial run args =
     with_flags D baton_selftest_flags args (\<lambda>fs.
       case baton_selftest_config (baton_flags_of fs) of
         Inl err \<Rightarrow> CmdReturn (Some err)
       | Inr cfg \<Rightarrow>
           (case GenerateSelfSignedCert (env_tls E) (env_now E) (env_addrs E) of
              Inl err \<Rightarrow> CmdReturn (Some err)
            | Inr (cert, roots) \<Rightarrow>
                (case newServer (env_ConfigureServer E) cert [(baton_Path, SelftestHandler cfg)] of
                   Inl err \<Rightarrow> CmdReturn (Some err)
                 | Inr server \<Rightarrow>
                     (case env_listen E ''localhost:0'' of
                        Some err \<Rightarrow> CmdReturn (Some err)
                      | None \<Rightarrow>
                          (case dial (''https://'' @ host @ baton_selftest_uri cfg) of
                             None \<Rightarrow> CmdPanic
                           | Some (Inl err) \<Rightarrow> CmdReturn (Some (Errorf ''client connect: '' err ''''))
                           | Some (Inr session) \<Rightarrow> CmdReturn (baton_selftest_result (run session cfg)))))))"

definition baton_main ::
  "duration_parser \<Rightarrow> ('key, 'cert, 'leaf) serve_env \<Rightarrow> (string \<Rightarrow> go_err + parsed_url) \<Rightarrow> (parsed_url \<Rightarrow> string) \<Rightarrow>
   (bool \<Rightarrow> string \<Rightarrow> (go_err + Session) option) \<Rightarrow> (Session \<Rightarrow> Config \<Rightarrow> go_err option) \<Rightarrow>
   string \<Rightarrow> (Session \<Rightarrow> Config \<Rightarrow> selftest_event) \<Rightarrow> string list \<Rightarrow> main_end \<times> string" where
  "baton_main D E url_Parse url_String dial run host selfrun args =
     cmd_main baton_usage (baton_cmdServe D E) (baton_cmdClient D url_Parse url_String dial run)
       (baton_cmdSelftest D E host (dial False) selfrun) args"

section \<open>The echo client and self-test\<close>

definition echo_client_flags :: flag_set where
  "echo_client_flags =
     [(''url'', FString ''''), (''insecure'', FBool False), (''mode'', FString ''bidi''), (''data'', FString ''Hello, world!''),
      (''timeout'', FDuration 15000000000)]"

text \<open>\<open>run\<close> is what \<^verbatim>\<open>echo.RunClient\<close> returns on the session within the time.\<close>

definition echo_cmdClient ::
  "duration_parser \<Rightarrow> (bool \<Rightarrow> string \<Rightarrow> (go_err + Session) option) \<Rightarrow>
   (int \<Rightarrow> Session \<Rightarrow> Mode \<Rightarrow> bytes \<Rightarrow> go_err option) \<Rightarrow> string list \<Rightarrow> cmd_end" where
  "echo_cmdClient D dial run args =
     with_flags D echo_client_flags args (\<lambda>fs.
       if flag_string fs ''url'' = '''' then CmdReturn (Some (ErrorsNew ''-url is required''))
       else case dial (flag_bool fs ''insecure'') (flag_string fs ''url'') of
         None \<Rightarrow> CmdPanic
       | Some (Inl err) \<Rightarrow> CmdReturn (Some err)
       | Some (Inr session) \<Rightarrow>
           CmdReturn (run (flag_duration fs ''timeout'') session (flag_string fs ''mode'') (go_bytes (flag_string fs ''data''))))"

definition echo_selftest_flags :: flag_set where
  "echo_selftest_flags =
     [(''mode'', FString ''bidi''), (''data'', FString ''Hello, world!''), (''timeout'', FDuration 15000000000)]"

definition echo_cmdSelftest ::
  "duration_parser \<Rightarrow> ('key, 'cert, 'leaf) serve_env \<Rightarrow> string \<Rightarrow> (string \<Rightarrow> (go_err + Session) option) \<Rightarrow>
   (int \<Rightarrow> Session \<Rightarrow> Mode \<Rightarrow> bytes \<Rightarrow> go_err option) \<Rightarrow> string list \<Rightarrow> cmd_end" where
  "echo_cmdSelftest D E host dial run args =
     with_flags D echo_selftest_flags args (\<lambda>fs.
       case GenerateSelfSignedCert (env_tls E) (env_now E) (env_addrs E) of
         Inl err \<Rightarrow> CmdReturn (Some err)
       | Inr (cert, roots) \<Rightarrow>
           (case echo_newServer (env_ConfigureServer E) cert [(echo_Path, EchoHandler)] of
              Inl err \<Rightarrow> CmdReturn (Some err)
            | Inr server \<Rightarrow>
                (case env_listen E ''localhost:0'' of
                   Some err \<Rightarrow> CmdReturn (Some err)
                 | None \<Rightarrow>
                     (case dial (''https://'' @ host @ echo_Path) of
                        None \<Rightarrow> CmdPanic
                      | Some (Inl err) \<Rightarrow> CmdReturn (Some (Errorf ''client connect: '' err ''''))
                      | Some (Inr session) \<Rightarrow>
                          CmdReturn (run (flag_duration fs ''timeout'') session (flag_string fs ''mode'')
                            (go_bytes (flag_string fs ''data'')))))))"

definition echo_main ::
  "duration_parser \<Rightarrow> ('key, 'cert, 'leaf) serve_env \<Rightarrow> (bool \<Rightarrow> string \<Rightarrow> (go_err + Session) option) \<Rightarrow>
   (int \<Rightarrow> Session \<Rightarrow> Mode \<Rightarrow> bytes \<Rightarrow> go_err option) \<Rightarrow> string \<Rightarrow> string list \<Rightarrow> main_end \<times> string" where
  "echo_main D E dial run host args =
     cmd_main echo_usage (echo_cmdServe D E) (echo_cmdClient D dial run) (echo_cmdSelftest D E host (dial False) run) args"

section \<open>Requests to the servers of the commands\<close>

text \<open>What the server of a command does with a request: \<^verbatim>\<open>ServeMux\<close> looks up the path, unescaped and clean (a request
  with another path, other than CONNECT, is redirected to the clean one first), among the patterns without wildcards
  that the commands register, at most one for a path; a pattern with the method GET takes HEAD as well. The result is what the handler runs.\<close>

datatype served = RunsEcho echoServer | RunsBaton Session Config | Answered

definition pattern_split :: "string \<Rightarrow> string option \<times> string" where
  "pattern_split p = (case cut CHR '' '' p of (m, path) \<Rightarrow> if length m < length p then (Some m, path) else (None, p))"

definition method_ok :: "string option \<Rightarrow> string \<Rightarrow> bool" where
  "method_ok m method = (case m of None \<Rightarrow> True | Some x \<Rightarrow> x = method \<or> x = ''GET'' \<and> method = ''HEAD'')"

definition mux_matches :: "serve_mux \<Rightarrow> string \<Rightarrow> (string option \<times> mux_handler) list" where
  "mux_matches mux path =
     concat (map (\<lambda>(p, h). case pattern_split p of (m, q) \<Rightarrow> if q = path then [(m, h)] else []) mux)"

definition run_handler ::
  "sfv_ops \<Rightarrow> go_err option \<Rightarrow> string \<Rightarrow> mux_handler \<Rightarrow> ResponseWriter \<Rightarrow> server_request \<Rightarrow> served \<times> ResponseWriter" where
  "run_handler F fullDuplex release h w r =
     (case h of
        EchoHandler \<Rightarrow> (case echo_Handler F fullDuplex w r of (Some x, w1) \<Rightarrow> (RunsEcho x, w1) | (None, w1) \<Rightarrow> (Answered, w1))
      | BatonHandler maxCount padding \<Rightarrow>
          (case baton_Handler F fullDuplex maxCount padding w r of
             (Some (s, cfg), w1) \<Rightarrow> (RunsBaton s cfg, w1) | (None, w1) \<Rightarrow> (Answered, w1))
      | SelftestHandler cfg \<Rightarrow>
          (case baton_selftest_handler F fullDuplex cfg w r of
             (Some (s, c), w1) \<Rightarrow> (RunsBaton s c, w1) | (None, w1) \<Rightarrow> (Answered, w1))
      | ReleaseHandler \<Rightarrow> (Answered, handleRelease release w))"

definition mux_ServeHTTP ::
  "sfv_ops \<Rightarrow> go_err option \<Rightarrow> string \<Rightarrow> serve_mux \<Rightarrow> string \<Rightarrow> ResponseWriter \<Rightarrow> server_request \<Rightarrow> served \<times> ResponseWriter" where
  "mux_ServeHTTP F fullDuplex release mux path w r =
     (case filter (\<lambda>(m, h). method_ok m (r_Method r)) (mux_matches mux path) of
        (m, h) # _ \<Rightarrow> run_handler F fullDuplex release h w r
      | [] \<Rightarrow>
          (case mux_matches mux path of
             (m, h) # _ \<Rightarrow>
               (let allow = (case m of Some x \<Rightarrow> if x = ''GET'' then ''GET, HEAD'' else x | None \<Rightarrow> '''')
                in (Answered, http_Error (w\<lparr>rw_Header := Header_Set (rw_Header w) ''Allow'' allow\<rparr>) ''Method Not Allowed'' 405))
           | [] \<Rightarrow> (Answered, http_Error w ''404 page not found'' 404)))"

section \<open>The two ends agree\<close>

lemma ParseQuery_cong: "(\<And>k. values_of q k = values_of q' k) \<Longrightarrow> ParseQuery q = ParseQuery q'"
  by (simp add: ParseQuery_def ParseQuery_version_def ParseQuery_baton_def ParseQuery_count_def Values_Get_def cong: sum.case_cong)

lemma URI_Query_path: "CHR ''?'' \<notin> set path \<Longrightarrow> URI_Query (path @ CHR ''?'' # raw) = url_ParseQuery raw"
  by (simp add: URI_Query_def cut_at)

lemma parseQuery_distinct: "distinct (map fst m) \<Longrightarrow> distinct (map fst (parseQuery m query))"
proof (induction m query rule: parseQuery.induct)
  case (1 m query)
  have "distinct (map fst (parse_pair m key))" for key
    using 1(2) by (auto simp: parse_pair_def split: prod.split option.split)
  with 1 show ?case by (subst parseQuery.simps) simp
qed

lemma client_query_distinct: "distinct (map fst q) \<Longrightarrow> distinct (map fst (baton_client_query f q))"
  by (simp add: baton_client_query_def Let_def)

lemma client_config:
  assumes "baton_cmdClient_config url_Parse f = Inr (u1, cfg)"
  obtains u where "url_Parse (fl_url f) = Inr u"
    and "ParseQuery (url_ParseQuery (pu_RawQuery u1)) = Inr (cfg\<lparr>Padding := 0\<rparr>)"
    and "ParseQuery (baton_client_query f (url_ParseQuery (pu_RawQuery u))) = Inr (cfg\<lparr>Padding := 0\<rparr>)"
    and "Padding cfg = fl_padding f"
proof -
  obtain u c where u: "url_Parse (fl_url f) = Inr u"
    "pu_RawQuery u1 = Values_Encode (baton_client_query f (url_ParseQuery (pu_RawQuery u)))"
    and c: "ParseQuery (url_ParseQuery (pu_RawQuery u1)) = Inr c" "cfg = c\<lparr>Padding := fl_padding f\<rparr>"
    using assms by (auto simp: baton_cmdClient_config_def Let_def split: if_splits sum.splits)
  let ?q = "baton_client_query f (url_ParseQuery (pu_RawQuery u))"
  have "distinct (map fst ?q)"
    by (intro client_query_distinct) (simp add: url_ParseQuery_def parseQuery_distinct)
  from Query_Encode [OF this] have e: "ParseQuery (url_ParseQuery (pu_RawQuery u1)) = ParseQuery ?q"
    unfolding u(2) by (rule ParseQuery_cong)
  have "c = cfg\<lparr>Padding := 0\<rparr>" using ParseQuery_valid [OF c(1)] c(2) by simp
  with c(1) have r: "ParseQuery (url_ParseQuery (pu_RawQuery u1)) = Inr (cfg\<lparr>Padding := 0\<rparr>)" by (simp only:)
  have "Padding cfg = fl_padding f" unfolding c(2) by simp
  with u(1) r r [unfolded e] show ?thesis by (rule that)
qed

lemma ParseQuery_baton_value:
  assumes "ParseQuery q = Inr c" and "Values_Get q ''baton'' = fmt_int n" and "- (2 ^ 63) \<le> n" and "n < 2 ^ 63"
  shows "uint (Baton c) = n"
proof -
  have "fmt_int n \<noteq> ''''" using fmt_d_digits(2) by (simp add: fmt_int_def)
  with assms(1,2) Atoi_fmt_int [OF assms(3,4)] have "1 \<le> n \<and> n \<le> 255 \<and> Baton c = of_int n"
    by (auto simp: ParseQuery_def ParseQuery_version_def ParseQuery_baton_def ParseQuery_count_def Let_def
        split: if_splits option.splits sum.splits)
  then show ?thesis by (simp add: uint_word_of_int)
qed

lemma ParseQuery_count_value:
  assumes "ParseQuery q = Inr c" and "Values_Get q ''count'' = fmt_int n" and "- (2 ^ 63) \<le> n" and "n < 2 ^ 63"
  shows "Count c = n"
proof -
  have "fmt_int n \<noteq> ''''" using fmt_d_digits(2) by (simp add: fmt_int_def)
  with assms(1,2) Atoi_fmt_int [OF assms(3,4)] show ?thesis
    by (auto simp: ParseQuery_def ParseQuery_version_def ParseQuery_baton_def ParseQuery_count_def Let_def
        split: if_splits option.splits sum.splits)
qed


definition demo_flags :: baton_flags where
  "demo_flags = \<lparr>fl_url = ''https://localhost/devious?count=3'', fl_baton = 42, fl_count = 7, fl_padding = 5\<rparr>"

definition demo_parse :: "string \<Rightarrow> go_err + parsed_url" where
  "demo_parse s = Inr \<lparr>pu_base = fst (cut CHR ''?'' s), pu_RawQuery = snd (cut CHR ''?'' s)\<rparr>"


lemma Config_Query_distinct: "distinct (map fst (Config_Query c))"
  by (simp add: Config_Query_def Let_def)

text \<open>The self-test plays one game on both sides: if the flags are accepted, the handler of the
  in-process server runs exactly the configuration of the client, and with it the padding; the self-test reports
  success exactly when both runs do.\<close>
theorem baton_selftest_agrees:
  assumes "baton_selftest_config f = Inr cfg" and "fl_count f < 2 ^ 63" and "r_RequestURI r = baton_selftest_uri cfg"
    and "Upgrade F None fd w r = (Inr (s, meta), w')"
  shows "baton_selftest_handler F fd cfg w r = (Some (s, cfg), w') \<and> Version cfg = 0 \<and>
    uint (Baton cfg) = fl_baton f \<and> Count cfg = fl_count f \<and> Padding cfg = fl_padding f \<and>
    (baton_selftest_result (BothEnded cerr serr) = None \<longleftrightarrow> cerr = None \<and> serr = None)"
proof -
  have cfg: "1 \<le> fl_baton f" "fl_baton f \<le> 255" "1 \<le> fl_count f"
    "cfg = \<lparr>Version = 0, Baton = of_int (fl_baton f), Count = fl_count f, Padding = fl_padding f\<rparr>"
    using assms(1) by (auto simp: baton_selftest_config_def split: if_splits)
  have "CHR ''?'' \<notin> set baton_Path" by (simp add: baton_Path_def)
  then have "URI_Query (r_RequestURI r) = url_ParseQuery (Values_Encode (Config_Query cfg))"
    using URI_Query_path assms(3) by (simp add: baton_selftest_uri_def)
  then have "ParseQuery (URI_Query (r_RequestURI r)) = ParseQuery (Config_Query cfg)"
    using ParseQuery_cong [OF Query_Encode [OF Config_Query_distinct]] by simp
  also have "\<dots> = Inr (cfg\<lparr>Padding := 0\<rparr>)" using assms(2) cfg(3) by (intro ParseQuery_roundtrip) (simp_all add: cfg(4))
  finally have "baton_selftest_handler F fd cfg w r = (Some (s, cfg), w')"
    using assms(4) by (simp add: baton_selftest_handler_def)
  moreover have "uint (Baton cfg) = fl_baton f" using cfg by (simp add: uint_word_of_int)
  ultimately show ?thesis by (simp add: cfg(4) baton_selftest_result_def split: option.split)
qed

theorem baton_selftest_agrees_witness:
  "\<exists>s w'. baton_selftest_handler quoted_sfv None \<lparr>Version = 0, Baton = 200, Count = 2, Padding = 9\<rparr> new_ResponseWriter
     (demo_request\<lparr>r_RequestURI := ''/webtransport/devious-baton?baton=200&count=2&version=0''\<rparr>) =
     (Some (s, \<lparr>Version = 0, Baton = 200, Count = 2, Padding = 9\<rparr>), w')"
proof -
  let ?f = "\<lparr>fl_url = '''', fl_baton = 200, fl_count = 2, fl_padding = 9\<rparr>"
  let ?c = "\<lparr>Version = 0, Baton = 200, Count = 2, Padding = 9\<rparr>"
  let ?r = "demo_request\<lparr>r_RequestURI := ''/webtransport/devious-baton?baton=200&count=2&version=0''\<rparr>"
  have c: "baton_selftest_config ?f = Inr ?c" by code_simp
  have u: "r_RequestURI ?r = baton_selftest_uri ?c" by code_simp
  have "\<not> isl (fst (Upgrade quoted_sfv None None new_ResponseWriter ?r))" by code_simp
  then obtain s meta w' where "Upgrade quoted_sfv None None new_ResponseWriter ?r = (Inr (s, meta), w')"
    by (cases "Upgrade quoted_sfv None None new_ResponseWriter ?r"; cases "fst (Upgrade quoted_sfv None None new_ResponseWriter ?r)")
      auto
  from baton_selftest_agrees [OF c _ u this] show ?thesis by auto
qed

section \<open>From the command line\<close>

text \<open>Which flags are given decides the values the commands read: the names the commands use are flags of the kind they
  read them as, whatever the arguments.\<close>

lemma flag_int_set [simp]:
  "flag_int (AList.update n (FInt x) fs) m = (if m = n then x else flag_int fs m)"
  by (simp add: flag_int_def update_conv')

lemma selftest_flags_parsed:
  assumes "- (2 ^ 63) \<le> b" "b < 2 ^ 63" "- (2 ^ 63) \<le> c" "c < 2 ^ 63" "- (2 ^ 63) \<le> p" "p < 2 ^ 63"
  shows "flags_Parse D baton_selftest_flags
      [flag_arg ''baton'' (fmt_int b), flag_arg ''count'' (fmt_int c), flag_arg ''padding'' (fmt_int p)] =
    Parsed [(''baton'', FInt b), (''count'', FInt c), (''padding'', FInt p)] []"
proof -
  let ?ps = "[(''baton'', FInt b), (''count'', FInt c), (''padding'', FInt p)]"
  have "list_all (given_ok baton_selftest_flags) ?ps"
    using assms by (simp add: given_ok_def baton_selftest_flags_def flag_name_def)
  from flags_roundtrip_lemma [OF this, of D] show ?thesis by (simp add: set_flags_def baton_selftest_flags_def)
qed

text \<open>C37: The self-test of the baton command, from its command line. Given a baton between 1 and 255, a count of at
  least one and a padding, and an environment in which the certificate, the server, the listener and the dial succeed,
  it runs exactly the configuration of the flags at the URL of the listener, with that configuration in
  the query, and the program ends without an error exactly when both ends do.\<close>
theorem baton_selftest_command:
  assumes "1 \<le> b" and "b \<le> 255" and "1 \<le> c" and "c < 2 ^ 63" and "- (2 ^ 63) \<le> p" and "p < 2 ^ 63"
    and "GenerateSelfSignedCert (env_tls E) (env_now E) (env_addrs E) = Inr (cert, roots)"
    and "\<forall>server. env_ConfigureServer E server = None" and "env_listen E ''localhost:0'' = None"
    and "cfg = \<lparr>Version = 0, Baton = of_int b, Count = c, Padding = p\<rparr>"
    and "dial False (''https://'' @ host @ baton_selftest_uri cfg) = Some (Inr s)"
  shows "fst (baton_main D E url_Parse url_String dial run host selfrun
      [prog, ''selftest'', flag_arg ''baton'' (fmt_int b), flag_arg ''count'' (fmt_int c), flag_arg ''padding'' (fmt_int p)]) =
    main_of (CmdReturn (baton_selftest_result (selfrun s cfg))) \<and>
   (selfrun s cfg = BothEnded cerr serr \<longrightarrow>
     (main_of (CmdReturn (baton_selftest_result (selfrun s cfg))) = MainReturn \<longleftrightarrow> cerr = None \<and> serr = None))"
proof -
  have "- (2 ^ 63) \<le> b" "b < 2 ^ 63" "- (2 ^ 63) \<le> c" using assms(1-3) by simp_all
  note fl = selftest_flags_parsed [OF this assms(4-6)]
  have "baton_selftest_config (baton_flags_of [(''baton'', FInt b), (''count'', FInt c), (''padding'', FInt p)]) = Inr cfg"
    using assms(1-3,10) by (simp add: baton_selftest_config_def baton_flags_of_def flag_int_def)
  then have "baton_cmdSelftest D E host (dial False) selfrun
      [flag_arg ''baton'' (fmt_int b), flag_arg ''count'' (fmt_int c), flag_arg ''padding'' (fmt_int p)] =
    CmdReturn (baton_selftest_result (selfrun s cfg))"
    using assms(7-9,11) by (simp add: baton_cmdSelftest_def with_flags_def fl newServer_def Let_def)
  then show ?thesis
    by (auto simp: baton_main_def cmd_main_def Let_def baton_selftest_result_def split: option.split)
qed

text \<open>C38: A negative padding is taken from the command line and brings the server down: the flag of \<^verbatim>\<open>serve\<close> is parsed
  without a complaint, a request that the handler accepts runs with that padding, and the set-up of the
  run panics, whatever the random byte, when it makes a slice of negative length.\<close>
theorem negative_padding_panics:
  assumes "- (2 ^ 63) \<le> p" and "p < 0"
    and "flags_Parse D baton_serve_flags [flag_arg ''padding'' (fmt_int p)] = res"
    and "baton_Handler F fd 16 p w r = (Some (s, cfg), w')"
  shows "res = Parsed (AList.update ''padding'' (FInt p) baton_serve_flags) [] \<and> Padding cfg = p \<and>
    (rnd = Inr x \<longrightarrow> baton_setup V rnd (Run_start s True cfg ws) = None)"
proof -
  have "list_all (given_ok baton_serve_flags) [(''padding'', FInt p)]"
    using assms(1,2) by (simp add: given_ok_def baton_serve_flags_def flag_name_def)
  from flags_roundtrip_lemma [OF this, of D] assms(3)
  have res: "res = Parsed (AList.update ''padding'' (FInt p) baton_serve_flags) []" by (simp add: set_flags_def)
  obtain q where q: "ParseQuery (URI_Query (r_RequestURI r)) = Inr q" "cfg = q\<lparr>Padding := p\<rparr>"
    using assms(4) by (auto simp: baton_Handler_def split: sum.splits if_splits prod.splits)
  then have n: "nat (Count cfg) = Suc (nat (Count cfg) - 1)" "Padding cfg = p" using ParseQuery_valid [OF q(1)] by simp_all
  have "send_batons V (nat (Count cfg)) b y = None" if "Padding (b_cfg b) = p" for b y
    using assms(2) that by (subst n(1)) (simp add: sendUni_def baton_message_def and_then_def)
  then have "rnd = Inr x \<longrightarrow> baton_setup V rnd (Run_start s True cfg ws) = None"
    using n by (simp add: baton_setup_def Run_start_def Let_def)
  with res n(2) show ?thesis by simp
qed

theorem negative_padding_panics_witness:
  "\<exists>s cfg w'. baton_Handler quoted_sfv None 16 (- 1) new_ResponseWriter demo_request = (Some (s, cfg), w') \<and>
     baton_setup quicwire_varint (Inr 7) (Run_start s True cfg []) = None"
proof -
  have "fst (baton_Handler quoted_sfv None 16 (- 1) new_ResponseWriter demo_request) \<noteq> None" by code_simp
  then obtain s cfg w' where h: "baton_Handler quoted_sfv None 16 (- 1) new_ResponseWriter demo_request = (Some (s, cfg), w')"
    by (metis not_None_eq prod.collapse)
  from negative_padding_panics [OF _ _ refl h, of "\<lambda>_. None" "Inr 7" 7 quicwire_varint "[]"] h show ?thesis by auto
qed

lemma demo_patterns:
  "pattern_split echo_Path = (None, echo_Path)" "pattern_split baton_Path = (None, baton_Path)"
  "pattern_split ''GET /release'' = (Some ''GET'', ''/release'')" "echo_Path \<noteq> baton_Path"
  "echo_Path \<noteq> ''/release''" "baton_Path \<noteq> ''/release''"
  by code_simp+

lemma demo_dispatch:
  "mux_ServeHTTP F fd release (demo_routes fs) echo_Path w r = run_handler F fd release EchoHandler w r"
  "mux_ServeHTTP F fd release (demo_routes fs) baton_Path w r =
     run_handler F fd release (BatonHandler (flag_int fs ''max-count'') (flag_int fs ''padding'')) w r"
  "mux_ServeHTTP F fd release (demo_routes fs) ''/release'' w r =
     (if r_Method r = ''GET'' \<or> r_Method r = ''HEAD'' then (Answered, handleRelease release w)
      else (Answered, http_Error (w\<lparr>rw_Header := Header_Set (rw_Header w) ''Allow'' ''GET, HEAD''\<rparr>) ''Method Not Allowed'' 405))"
  "path \<notin> {echo_Path, baton_Path, ''/release''} \<Longrightarrow>
   mux_ServeHTTP F fd release (demo_routes fs) path w r = (Answered, http_Error w ''404 page not found'' 404)"
proof -
  have m: "mux_matches (demo_routes fs) p =
      (if echo_Path = p then [(None, EchoHandler)] else []) @
      (if baton_Path = p then [(None, BatonHandler (flag_int fs ''max-count'') (flag_int fs ''padding''))] else []) @
      (if ''/release'' = p then [(Some ''GET'', ReleaseHandler)] else [])" for p
    by (simp add: mux_matches_def demo_routes_def demo_patterns(1-3))
  show "mux_ServeHTTP F fd release (demo_routes fs) echo_Path w r = run_handler F fd release EchoHandler w r"
    "mux_ServeHTTP F fd release (demo_routes fs) baton_Path w r =
     run_handler F fd release (BatonHandler (flag_int fs ''max-count'') (flag_int fs ''padding'')) w r"
    using demo_patterns(4-6) by (simp_all add: mux_ServeHTTP_def m method_ok_def)
  show "mux_ServeHTTP F fd release (demo_routes fs) ''/release'' w r =
     (if r_Method r = ''GET'' \<or> r_Method r = ''HEAD'' then (Answered, handleRelease release w)
      else (Answered, http_Error (w\<lparr>rw_Header := Header_Set (rw_Header w) ''Allow'' ''GET, HEAD''\<rparr>) ''Method Not Allowed'' 405))"
    using demo_patterns(5,6) by (auto simp: mux_ServeHTTP_def m method_ok_def run_handler_def Let_def)
  show "path \<notin> {echo_Path, baton_Path, ''/release''} \<Longrightarrow>
   mux_ServeHTTP F fd release (demo_routes fs) path w r = (Answered, http_Error w ''404 page not found'' 404)"
  proof -
    assume "path \<notin> {echo_Path, baton_Path, ''/release''}"
    then have "mux_matches (demo_routes fs) path = []" unfolding m by auto
    then show ?thesis by (simp add: mux_ServeHTTP_def)
  qed
qed

lemma handler_runs_after_200:
  assumes "rw_status w = None" and "run_handler F fd release h w r = (x, w')" and "x \<noteq> Answered"
  shows "rw_status w' = Some 200"
proof -
  obtain eu ew where eu: "Upgrade F (Some echo_SelectProtocol) fd w r = (eu, ew)" by fastforce
  obtain bu bw where bu: "Upgrade F None fd w r = (bu, bw)" by fastforce
  note us = Upgrade_status [OF assms(1) eu] Upgrade_status [OF assms(1) bu]
  show ?thesis
    using assms(2,3) us eu bu
    by (cases h) (auto simp: run_handler_def echo_Handler_def baton_Handler_def baton_selftest_handler_def
        split: option.splits prod.splits sum.splits if_splits)
qed

text \<open>What the demo server does with a request. At the path of an endpoint, its handler alone answers,
  the baton handler with the maximal count and the padding of the flags; at \<^verbatim>\<open>/release\<close>, GET and HEAD get the release
  with the status 200 and every other method the status 405; every other path gets the status 404. A session runs
  only after a response of 200.\<close>
theorem demoserver_routes:
  assumes "rw_status w = None" and "mux_ServeHTTP F fd release (demo_routes fs) path w r = (x, w')"
  shows "(path = echo_Path \<longrightarrow>
      (case echo_Handler F fd w r of (run, w1) \<Rightarrow> w' = w1 \<and> x = (case run of None \<Rightarrow> Answered | Some e \<Rightarrow> RunsEcho e))) \<and>
    (path = baton_Path \<longrightarrow>
      (case baton_Handler F fd (flag_int fs ''max-count'') (flag_int fs ''padding'') w r of
         (run, w1) \<Rightarrow> w' = w1 \<and> x = (case run of None \<Rightarrow> Answered | Some (s, cfg) \<Rightarrow> RunsBaton s cfg))) \<and>
    (path = ''/release'' \<longrightarrow> x = Answered \<and>
      rw_status w' = Some (if r_Method r = ''GET'' \<or> r_Method r = ''HEAD'' then 200 else 405)) \<and>
    (path \<notin> {echo_Path, baton_Path, ''/release''} \<longrightarrow> x = Answered \<and> rw_status w' = Some 404) \<and>
    (x \<noteq> Answered \<longrightarrow> rw_status w' = Some 200)"
proof -
  have rel: "rw_status (handleRelease release w) = Some 200" "rw_status (http_Error w ''404 page not found'' 404) = Some 404"
    "rw_status (http_Error (w\<lparr>rw_Header := h\<rparr>) ''Method Not Allowed'' 405) = Some 405" for h
    using assms(1) by (simp_all add: handleRelease_def WriteHeader_def Let_def http_Error_status)
  consider "path = echo_Path" | "path = baton_Path" | "path = ''/release''" | "path \<notin> {echo_Path, baton_Path, ''/release''}"
    by blast
  then show ?thesis
  proof cases
    case 1
    with assms(2) have h: "run_handler F fd release EchoHandler w r = (x, w')" by (simp add: demo_dispatch)
    have "case echo_Handler F fd w r of (run, w1) \<Rightarrow> w' = w1 \<and> x = (case run of None \<Rightarrow> Answered | Some e \<Rightarrow> RunsEcho e)"
      using h by (auto simp: run_handler_def split: option.splits prod.splits)
    with 1 handler_runs_after_200 [OF assms(1) h] demo_patterns(4,5) show ?thesis by simp
  next
    case 2
    let ?h = "BatonHandler (flag_int fs ''max-count'') (flag_int fs ''padding'')"
    from 2 assms(2) have h: "run_handler F fd release ?h w r = (x, w')" by (simp add: demo_dispatch)
    have "case baton_Handler F fd (flag_int fs ''max-count'') (flag_int fs ''padding'') w r of
         (run, w1) \<Rightarrow> w' = w1 \<and> x = (case run of None \<Rightarrow> Answered | Some (s, cfg) \<Rightarrow> RunsBaton s cfg)"
      using h by (auto simp: run_handler_def split: option.splits prod.splits)
    with 2 handler_runs_after_200 [OF assms(1) h] demo_patterns(4,6) show ?thesis by simp
  next
    case 3
    with assms(2) rel demo_patterns(5,6) show ?thesis by (auto simp: demo_dispatch(3) split: if_splits)
  next
    case 4
    with assms(2) rel show ?thesis by (simp add: demo_dispatch(4))
  qed
qed

theorem demoserver_routes_witness:
  "\<exists>w'. mux_ServeHTTP quoted_sfv None ''v1'' (demo_routes demo_main_flags) ''/release'' new_ResponseWriter
      (demo_request\<lparr>r_Method := ''POST''\<rparr>) = (Answered, w') \<and> rw_status w' = Some 405"
proof -
  let ?r = "demo_request\<lparr>r_Method := ''POST''\<rparr>"
  obtain x w' where m: "mux_ServeHTTP quoted_sfv None ''v1'' (demo_routes demo_main_flags) ''/release'' new_ResponseWriter ?r = (x, w')"
    by fastforce
  have "rw_status new_ResponseWriter = None" by (simp add: new_ResponseWriter_def)
  from demoserver_routes [OF this m] m show ?thesis by simp
qed

definition demo_env :: "(unit, unit, unit) serve_env" where
  "demo_env =
    \<lparr>env_tls = \<lparr>ecdsa_GenerateKey = Inr (), x509_CreateCertificate = (\<lambda>t k. Inr [1]), pem_EncodeToMemory = (\<lambda>t b. b),
       x509_MarshalECPrivateKey = (\<lambda>k. Inr [2]), tls_X509KeyPair = (\<lambda>c k. Inr ()), x509_ParseCertificate = (\<lambda>c. Inr ()),
       tls_LoadX509KeyPair = (\<lambda>c k. Inr ())\<rparr>,
     env_now = 0, env_addrs = Inr [], env_pattern = (\<lambda>p. True), env_ConfigureServer = (\<lambda>s. None), env_listen = (\<lambda>a. None),
     env_event = (\<lambda>s. GotSignal)\<rparr>"

theorem baton_selftest_command_witness:
  "fst (baton_main (\<lambda>d. None) demo_env demo_parse pu_base
     (\<lambda>insecure u. if u = ''https://localhost:1/webtransport/devious-baton?baton=7&count=2&version=0''
        then Some (Inr (newSession '''' False)) else None)
     (\<lambda>s c. None) ''localhost:1'' (\<lambda>s c. if Padding c = 3 then BothEnded None None else ContextDone ContextCanceled)
     [''devious-baton'', ''selftest'', ''-baton=7'', ''-count=2'', ''-padding=3'']) = MainReturn"
proof -
  let ?c = "\<lparr>Version = 0, Baton = of_int 7, Count = 2, Padding = 3\<rparr>"
  let ?d = "\<lambda>insecure :: bool. \<lambda>u. if u = ''https://localhost:1/webtransport/devious-baton?baton=7&count=2&version=0''
        then Some (Inr (newSession '''' False) :: go_err + Session) else None"
  have g: "GenerateSelfSignedCert (env_tls demo_env) (env_now demo_env) (env_addrs demo_env) = Inr ((), [()])" by code_simp
  have u: "''https://'' @ ''localhost:1'' @ baton_selftest_uri ?c =
      ''https://localhost:1/webtransport/devious-baton?baton=7&count=2&version=0''" by code_simp
  have a: "''-baton=7'' = flag_arg ''baton'' (fmt_int 7)" "''-count=2'' = flag_arg ''count'' (fmt_int 2)"
    "''-padding=3'' = flag_arg ''padding'' (fmt_int 3)" by code_simp+
  have e: "\<forall>server. env_ConfigureServer demo_env server = None" "env_listen demo_env ''localhost:0'' = None"
    by (simp_all add: demo_env_def)
  have d: "?d False (''https://'' @ ''localhost:1'' @ baton_selftest_uri ?c) = Some (Inr (newSession '''' False))"
    unfolding u by simp
  note b = baton_selftest_command [where b = 7 and c = 2 and p = 3 and E = demo_env and dial = ?d and host = "''localhost:1''"
      and cfg = ?c and prog = "''devious-baton''", OF _ _ _ _ _ _ g e refl d]
  show ?thesis unfolding a by (subst b [THEN conjunct1]) (simp_all add: baton_selftest_result_def)
qed

end
